(* ===== verification/Prelude.thy ===== *)
theory Prelude
  imports Main "HOL-Library.Word" "HOL-Library.Monad_Syntax"
begin

text \<open>
  Shared prelude of the development: the fact collections the component proofs use, and the
  generic lemmas on fixed-width integer arithmetic, bit patterns and lists.  A value of width
  \<open>w\<close> is an integer between 0 and \<open>2 ^ w\<close>; \<open>take_bit w\<close> truncates to the width and
  \<open>signed_take_bit (w - 1)\<close> reads the two's complement value.
\<close>

unbundle bit_operations_syntax

named_theorems apint_simps \<open>what an APInt operation computes, as widths and integer values\<close>
named_theorems sem_simps \<open>unfolding of the value of an expression\<close>

section \<open>Unsigned machine integers as naturals\<close>

definition to_u32 :: "nat \<Rightarrow> nat" where
  "to_u32 n = n mod 2 ^ 32"

definition to_u64 :: "nat \<Rightarrow> nat" where
  "to_u64 n = n mod 2 ^ 64"

definition UINT64_MAX :: nat where
  "UINT64_MAX = 2 ^ 64 - 1"

lemma to_u32_less: "n < 2 ^ 32 \<Longrightarrow> to_u32 n = n"
  by (simp add: to_u32_def)

lemma to_u64_less: "n < 2 ^ 64 \<Longrightarrow> to_u64 n = n"
  by (simp add: to_u64_def)

section \<open>Loops whose body may fail\<close>

fun foldM :: "('s \<Rightarrow> 'i \<Rightarrow> 's option) \<Rightarrow> 's \<Rightarrow> 'i list \<Rightarrow> 's option" where
  "foldM f s [] = Some s"
| "foldM f s (i # is) = do { s \<leftarrow> f s i; foldM f s is }"

lemma foldM_upt:
  assumes "P a s" and "a \<le> b"
    and "\<And>s i. a \<le> i \<Longrightarrow> i < b \<Longrightarrow> P i s \<Longrightarrow> \<exists>s'. f s i = Some s' \<and> P (Suc i) s'"
  shows "\<exists>s'. foldM f s [a..<b] = Some s' \<and> P b s'"
  using assms
proof (induction "b - a" arbitrary: a s)
  case (Suc n)
  then obtain s' where "f s a = Some s'" "P (Suc a) s'"
    by (metis Suc_neq_Zero diff_is_0_eq' linorder_not_less order_refl)
  with Suc show ?case by (simp add: upt_conv_Cons)
qed simp

section \<open>Values of a given width\<close>

definition fits :: "nat \<Rightarrow> int \<Rightarrow> bool" where
  "fits w v \<longleftrightarrow> 0 \<le> v \<and> v < 2 ^ w"

lemma fits_iff_take_bit: "fits w v \<longleftrightarrow> take_bit w v = v"
  by (simp add: fits_def take_bit_int_eq_self_iff)

lemma fits_take_bit [simp]: "fits w (take_bit w v)"
  by (simp add: fits_def)

lemma fits_bit: "fits w v \<Longrightarrow> bit v n \<longleftrightarrow> n < w \<and> bit v n"
  by (metis bit_take_bit_iff fits_iff_take_bit)

lemma fits_bitD: "fits w v \<Longrightarrow> bit v n \<Longrightarrow> n < w"
  using fits_bit by blast

lemma fits_1_cases: "fits (Suc 0) v \<Longrightarrow> v = 0 \<or> v = 1"
  by (auto simp: fits_def)

lemma fits_of_bool [simp]: "0 < w \<Longrightarrow> fits w (of_bool b)"
  by (cases b) (simp_all add: fits_def)

lemma fits_0 [simp]: "fits w 0"
  by (simp add: fits_def)

lemma fits_and [simp]: "fits w a \<Longrightarrow> fits w (a AND b)"
  by (simp add: fits_iff_take_bit) (metis and.left_commute and.commute take_bit_eq_mask)

lemma fits_and2: "fits w b \<Longrightarrow> fits w (a AND b)"
  using fits_and [of w b a] by (simp add: and.commute)

lemma fits_or [simp]: "fits w a \<Longrightarrow> fits w b \<Longrightarrow> fits w (a OR b)"
  by (simp add: fits_iff_take_bit)

lemma fits_xor [simp]: "fits w a \<Longrightarrow> fits w b \<Longrightarrow> fits w (a XOR b)"
  by (simp add: fits_iff_take_bit)

lemma fits_mono: "fits w a \<Longrightarrow> w \<le> w' \<Longrightarrow> fits w' a"
  by (auto simp: fits_def intro: less_le_trans power_increasing)

lemma fits_drop_bit [simp]: "fits w a \<Longrightarrow> fits w (drop_bit n a)"
proof -
  assume a: "fits w a"
  have "take_bit w (drop_bit n a) = drop_bit n a"
    by (rule bit_eqI) (auto simp: bit_simps dest: fits_bitD [OF a])
  then show ?thesis by (simp add: fits_iff_take_bit)
qed

lemma fits_signed_inj:
  assumes "fits w a" and "fits w b"
    and "signed_take_bit (w - 1) a = signed_take_bit (w - 1) b"
  shows "a = b"
proof (cases w)
  case 0
  with assms(1,2) show ?thesis by (simp add: fits_def)
next
  case (Suc n)
  then show ?thesis
    using assms fits_iff_take_bit signed_take_bit_eq_iff_take_bit_eq [of n a b] by auto
qed

section \<open>Shifting values together: concatenation of bit fields\<close>

text \<open>\<open>cat_bits n h l\<close> is \<open>h\<close> above the \<open>n\<close> low bits \<open>l\<close>.\<close>

definition cat_bits :: "nat \<Rightarrow> int \<Rightarrow> int \<Rightarrow> int" where
  "cat_bits n h l = push_bit n h OR l"

lemma bit_cat_bits:
  "fits n l \<Longrightarrow> bit (cat_bits n h l) k \<longleftrightarrow> (if k < n then bit l k else bit h (k - n))"
  by (auto simp: cat_bits_def bit_simps dest: fits_bitD)

lemma cat_bits_eq_add: "fits n l \<Longrightarrow> cat_bits n h l = h * 2 ^ n + l"
  unfolding cat_bits_def push_bit_eq_mult [symmetric]
  by (rule disjunctive_add_eq_or [symmetric]) (auto intro!: bit_eqI simp: bit_simps dest: fits_bitD)

lemma fits_cat_bits [simp]:
  assumes "fits m h" and "fits n l"
  shows "fits (m + n) (cat_bits n h l)"
proof -
  have "take_bit (m + n) (cat_bits n h l) = cat_bits n h l"
    by (rule bit_eqI) (use assms in \<open>auto simp: bit_take_bit_iff bit_cat_bits dest: fits_bitD\<close>)
  then show ?thesis by (simp add: fits_iff_take_bit)
qed

lemma cat_bits_zero: "cat_bits n 0 l = l"
  by (simp add: cat_bits_def)

lemma cat_bits_split:
  assumes "fits (n + m) v"
  shows "cat_bits n (drop_bit n v) (take_bit n v) = v"
  by (rule bit_eqI) (auto simp: bit_cat_bits bit_simps)

section \<open>One-bit arithmetic\<close>

lemma take_bit_1_add_xor:
  "fits (Suc 0) a \<Longrightarrow> fits (Suc 0) b \<Longrightarrow> take_bit (Suc 0) (a + b) = a XOR b"
  by (auto dest!: fits_1_cases)

lemma take_bit_1_sub_xor:
  "fits (Suc 0) a \<Longrightarrow> fits (Suc 0) b \<Longrightarrow> take_bit (Suc 0) (a - b) = a XOR b"
  by (auto dest!: fits_1_cases)

lemma take_bit_1_mult_and:
  "fits (Suc 0) a \<Longrightarrow> fits (Suc 0) b \<Longrightarrow> take_bit (Suc 0) (a * b) = a AND b"
  by (auto dest!: fits_1_cases)

section \<open>Modular arithmetic under take\_bit\<close>

lemma take_bit_take_bit_same [simp]: "take_bit w (take_bit w a) = take_bit w a" for a :: int
  by simp

lemma take_bit_sub_left [simp]: "take_bit w (take_bit w a - b) = take_bit w (a - b)" for a b :: int
  by (metis take_bit_diff take_bit_take_bit_same)

lemma take_bit_sub_right [simp]: "take_bit w (a - take_bit w b) = take_bit w (a - b)" for a b :: int
  by (metis take_bit_diff take_bit_take_bit_same)

lemma take_bit_add_left [simp]: "take_bit w (take_bit w a + b) = take_bit w (a + b)" for a b :: int
  by (metis take_bit_add take_bit_take_bit_same)

lemma take_bit_add_right [simp]: "take_bit w (a + take_bit w b) = take_bit w (a + b)" for a b :: int
  by (metis take_bit_add take_bit_take_bit_same)

lemma take_bit_add_cancel_left:
  "fits w a \<Longrightarrow> fits w b \<Longrightarrow> take_bit w (c + a) = take_bit w (c + b) \<longleftrightarrow> a = b"
  by (metis add_diff_cancel_left' fits_iff_take_bit take_bit_sub_left)

lemma take_bit_eq_iff_move:
  assumes "fits w c" and "fits w b"
  shows "c = take_bit w (k + b) \<longleftrightarrow> take_bit w (c - k) = b"
proof -
  have "c = take_bit w (k + b) \<longleftrightarrow> take_bit w c = take_bit w (k + b)"
    using assms(1) by (simp add: fits_iff_take_bit)
  also have "\<dots> \<longleftrightarrow> take_bit w (c - k) = take_bit w b"
    by (metis add_diff_cancel_left' diff_add_cancel add.commute take_bit_add_left take_bit_sub_left)
  finally show ?thesis using assms(2) by (simp add: fits_iff_take_bit)
qed

lemma take_bit_drop_bit_signed:
  fixes v :: int
  assumes "off + w \<le> kw"
  shows "take_bit w (drop_bit off (signed_take_bit (kw - Suc 0) v))
    = take_bit w (drop_bit off v)"
proof (rule bit_eqI)
  fix n
  have "min (off + n) (kw - Suc 0) = off + n" if "n < w"
    using assms that by linarith
  then show "bit (take_bit w (drop_bit off (signed_take_bit (kw - Suc 0) v))) n
      = bit (take_bit w (drop_bit off v)) n"
    using assms by (auto simp: bit_simps)
qed

lemma take_bit_signed_take_bit_low:
  fixes a :: int
  assumes "w < kw"
  shows "take_bit w (signed_take_bit (kw - Suc 0) a) = take_bit w a"
  using take_bit_drop_bit_signed [of 0 w kw a] assms by simp

lemma cat_bits_extract:
  fixes v :: int
  shows "cat_bits w2 (take_bit w1 (drop_bit (off + w2) v)) (take_bit w2 (drop_bit off v))
    = take_bit (w1 + w2) (drop_bit off v)"
  by (rule bit_eqI) (auto simp: bit_cat_bits bit_simps add.commute add.left_commute)

lemma drop_bit_cat_bits:
  assumes "fits n l" and "n \<le> off"
  shows "drop_bit off (cat_bits n h l) = drop_bit (off - n) h"
  by (rule bit_eqI) (use assms in \<open>auto simp: bit_cat_bits bit_simps\<close>)

lemma take_bit_drop_bit_cat_bits_low:
  assumes "fits n l" and "off + w \<le> n"
  shows "take_bit w (drop_bit off (cat_bits n h l)) = take_bit w (drop_bit off l)"
  by (rule bit_eqI) (use assms in \<open>auto simp: bit_cat_bits bit_simps\<close>)

lemma take_bit_drop_bit_cat_bits_mid:
  assumes "fits n l" and "off < n" and "n < off + w"
  shows "take_bit w (drop_bit off (cat_bits n h l))
    = cat_bits (n - off) (take_bit (w + off - n) h) (take_bit (n - off) (drop_bit off l))"
  by (rule bit_eqI) (use assms in \<open>auto simp: bit_cat_bits bit_simps add.commute\<close>)

lemma and_mask_take_bit: "x AND mask n = take_bit n x" for x :: int
  by (simp add: take_bit_eq_mask)

text \<open>\<open>cat_list w\<close> concatenates fields of width \<open>w\<close>, most significant first.\<close>

fun cat_list :: "nat \<Rightarrow> int list \<Rightarrow> int" where
  "cat_list w [] = 0"
| "cat_list w (v # vs) = cat_bits (length vs * w) v (cat_list w vs)"

lemma fits_cat_list: "(\<And>v. v \<in> set vs \<Longrightarrow> fits w v) \<Longrightarrow> fits (length vs * w) (cat_list w vs)"
  by (induction vs) auto

lemma cat_list_fields:
  "cat_list w (map (\<lambda>i. take_bit w (drop_bit (w * i) v)) (rev [0..<n])) = take_bit (n * w) v"
proof (induction n)
  case (Suc n)
  have "cat_bits (n * w) (take_bit w (drop_bit (w * n) v)) (take_bit (n * w) v)
      = take_bit (w + n * w) v"
    using cat_bits_extract [of "n * w" w 0 v] by (simp add: mult.commute)
  with Suc show ?case by simp
qed simp

lemma or_shifted_fields:
  fixes a b :: int
  assumes "fits w b" and "s + t = w"
  shows "take_bit w (push_bit s a) OR drop_bit t b = cat_bits s (take_bit t a) (take_bit s (drop_bit t b))"
  by (rule bit_eqI) (use assms in \<open>auto simp: bit_cat_bits bit_simps dest: fits_bitD\<close>)

lemma cat_list_append:
  assumes "\<And>v. v \<in> set vs \<Longrightarrow> fits w v"
  shows "cat_list w (us @ vs) = cat_bits (length vs * w) (cat_list w us) (cat_list w vs)"
proof (induction us)
  case (Cons u us)
  have f: "fits (length vs * w) (cat_list w vs)" by (rule fits_cat_list [OF assms])
  show ?case
    using Cons by (auto intro!: bit_eqI simp: cat_bits_def bit_simps algebra_simps)
qed (simp add: cat_bits_zero)

lemma or_mask: "fits w a \<Longrightarrow> a OR mask w = mask w" for a :: int
  by (rule bit_eqI) (auto simp: bit_simps dest: fits_bitD)

lemma eq_sext_iff:
  fixes a c :: int
  assumes "fits kw a" and "fits w c" and "kw \<le> w" and "0 < kw"
    and "c = take_bit w (signed_take_bit (kw - Suc 0) (take_bit kw c))"
  shows "c = take_bit w (signed_take_bit (kw - Suc 0) a) \<longleftrightarrow> a = take_bit kw c"
proof
  assume "c = take_bit w (signed_take_bit (kw - Suc 0) a)"
  then have "take_bit kw c = take_bit kw (signed_take_bit (kw - Suc 0) a)"
    using assms(3) by (simp add: min_absorb1)
  also have "\<dots> = take_bit kw a"
    using assms(4) by (metis Suc_pred take_bit_signed_take_bit order_refl)
  finally show "a = take_bit kw c" using assms(1) by (simp add: fits_iff_take_bit)
qed (use assms(5) in simp)

lemma neq_sext:
  fixes a c :: int
  assumes "fits kw a" and "kw \<le> w" and "0 < kw"
    and "c \<noteq> take_bit w (signed_take_bit (kw - Suc 0) (take_bit kw c))"
  shows "c \<noteq> take_bit w (signed_take_bit (kw - Suc 0) a)"
proof
  assume c: "c = take_bit w (signed_take_bit (kw - Suc 0) a)"
  then have "take_bit kw c = take_bit kw (signed_take_bit (kw - Suc 0) a)"
    using assms(2) by (simp add: min_absorb1)
  also have "\<dots> = a"
    using assms(1,3) by (metis Suc_pred take_bit_signed_take_bit order_refl fits_iff_take_bit)
  finally show False using assms(4) c by simp
qed

lemma take_bit_eq_iff_dvd: "take_bit w x = take_bit w y \<longleftrightarrow> 2 ^ w dvd x - y" for x y :: int
  by (simp add: take_bit_eq_mod mod_eq_dvd_iff)

lemma eq_sub_iff:
  assumes "fits w c" and "fits w b"
  shows "c = take_bit w (k - b) \<longleftrightarrow> take_bit w (k - c) = b"
proof -
  have "c = take_bit w (k - b) \<longleftrightarrow> take_bit w c = take_bit w (k - b)"
    and "take_bit w (k - c) = b \<longleftrightarrow> take_bit w (k - c) = take_bit w b"
    using assms by (simp_all add: fits_iff_take_bit)
  moreover have "c - (k - b) = - (k - c - b)" by simp
  ultimately show ?thesis
    unfolding take_bit_eq_iff_dvd by (metis dvd_minus_iff)
qed

end
