(* ===== verification/Expr.thy ===== *)
theory Expr
  imports Prelude "HOL-Library.Signed_Division"
begin

text \<open>
  The expressions of \<open>klee/include/klee/Expr.h\<close>: their data, the interface of the code the
  expression library calls but does not contain (LLVM's \<open>APInt\<close>), the constant operations of
  \<open>ConstantExpr\<close>, and what an expression means: its static typing \<open>wt\<close> (the conditions the
  asserts of the constructors check), its width and its value \<open>sem\<close> under an assignment of the
  symbolic arrays.
\<close>

section \<open>Data\<close>

text \<open>\<open>enum Kind\<close>: the binary kinds, in the order of the enumeration.\<close>

datatype binkind =
    Add | Sub | Mul | UDiv | SDiv | URem | SRem
  | And | Or | Xor | Shl | LShr | AShr
  | Eq | Ne | Ult | Ule | Ugt | Uge | Slt | Sle | Sgt | Sge

text \<open>\<open>Expr::CmpKindFirst .. Expr::CmpKindLast\<close>.\<close>

fun is_cmp :: "binkind \<Rightarrow> bool" where
  "is_cmp Add = False"
| "is_cmp Sub = False"
| "is_cmp Mul = False"
| "is_cmp UDiv = False"
| "is_cmp SDiv = False"
| "is_cmp URem = False"
| "is_cmp SRem = False"
| "is_cmp And = False"
| "is_cmp Or = False"
| "is_cmp Xor = False"
| "is_cmp Shl = False"
| "is_cmp LShr = False"
| "is_cmp AShr = False"
| "is_cmp _ = True"

text \<open>
  \<open>class Array\<close>.  Arrays are compared by address, so the address is a component of the
  record; \<open>constantValues\<close> is empty for a symbolic array.
\<close>

record 'a array_obj =
  array_addr :: nat
  array_name :: string
  array_size :: nat
  constantValues :: "'a list"

definition isSymbolicArray :: "'a array_obj \<Rightarrow> bool" where
  "isSymbolicArray a \<longleftrightarrow> constantValues a = []"

definition isConstantArray :: "'a array_obj \<Rightarrow> bool" where
  "isConstantArray a \<longleftrightarrow> \<not> isSymbolicArray a"

text \<open>
  \<open>class Expr\<close> with its subclasses, and \<open>class UpdateNode\<close>: the linked list of the byte
  updates of an array, most recent first.  A \<open>ReadExpr\<close> carries the root and the head of its
  update list.  The type parameter is the type of constants.
\<close>

datatype 'a expr =
    ConstantExpr 'a
  | ReadExpr "'a array_obj" "'a update_node" "'a expr"
  | SelectExpr "'a expr" "'a expr" "'a expr"
  | ConcatExpr "'a expr" "'a expr"
  | ExtractExpr "'a expr" nat nat
  | NotExpr "'a expr"
  | ZExtExpr "'a expr" nat
  | SExtExpr "'a expr" nat
  | BinaryExpr binkind "'a expr" "'a expr"
and 'a update_node =
    NoUpdate
  | UpdateNode "'a update_node" "'a expr" "'a expr"

text \<open>Induction on an expression alone, for functions that do not look into update lists.\<close>

lemmas expr_plain_induct [case_names ConstantExpr ReadExpr SelectExpr ConcatExpr ExtractExpr NotExpr
    ZExtExpr SExtExpr BinaryExpr] = expr.induct [where ?P2.0 = "\<lambda>_. True", simplified]

lemmas update_plain_induct [case_names NoUpdate UpdateNode] =
  update_node.induct [where ?P1.0 = "\<lambda>_. True", simplified]

lemma expr_size_pos: "0 < size e" "Suc 0 \<le> size e" for e :: "'a expr"
  by (cases e; simp)+

section \<open>The interface of the code that is called but not part of the repository\<close>

text \<open>
  The operations of LLVM's \<open>APInt\<close> the library uses.  \<open>ap_uint\<close> is not called by the code: it
  is the mathematical value of an \<open>APInt\<close>, in which the contracts below are stated.  \<open>ap_rawWord\<close>
  is \<open>*getRawData()\<close>, the least significant 64 bits.  Operations
  that take a shift amount exist for an \<open>APInt\<close> amount and, with suffix \<open>_n\<close>, for an unsigned
  one.  \<open>same_object\<close> is the pointer equality of \<open>ref::get()\<close>, \<open>ConstArrayOpt\<close> is the value of
  the command line option \<open>-const-array-opt\<close>.
\<close>

record 'a ops =
  getBitWidth :: "'a \<Rightarrow> nat"
  ap_uint :: "'a \<Rightarrow> int"
  ap_of :: "nat \<Rightarrow> nat \<Rightarrow> 'a"
  ap_getZExtValue :: "'a \<Rightarrow> nat"
  ap_rawWord :: "'a \<Rightarrow> nat"
  ap_getLimitedValue :: "'a \<Rightarrow> nat \<Rightarrow> nat"
  getBoolValue :: "'a \<Rightarrow> bool"
  isMinValue :: "'a \<Rightarrow> bool"
  isAllOnesValue :: "'a \<Rightarrow> bool"
  isNegative :: "'a \<Rightarrow> bool"
  ap_eq :: "'a \<Rightarrow> 'a \<Rightarrow> bool"
  ap_ult :: "'a \<Rightarrow> 'a \<Rightarrow> bool"
  ap_ule :: "'a \<Rightarrow> 'a \<Rightarrow> bool"
  ap_ugt :: "'a \<Rightarrow> 'a \<Rightarrow> bool"
  ap_uge :: "'a \<Rightarrow> 'a \<Rightarrow> bool"
  ap_slt :: "'a \<Rightarrow> 'a \<Rightarrow> bool"
  ap_sle :: "'a \<Rightarrow> 'a \<Rightarrow> bool"
  ap_sgt :: "'a \<Rightarrow> 'a \<Rightarrow> bool"
  ap_sge :: "'a \<Rightarrow> 'a \<Rightarrow> bool"
  ap_add :: "'a \<Rightarrow> 'a \<Rightarrow> 'a"
  ap_sub :: "'a \<Rightarrow> 'a \<Rightarrow> 'a"
  ap_mul :: "'a \<Rightarrow> 'a \<Rightarrow> 'a"
  ap_udiv :: "'a \<Rightarrow> 'a \<Rightarrow> 'a"
  ap_sdiv :: "'a \<Rightarrow> 'a \<Rightarrow> 'a"
  ap_urem :: "'a \<Rightarrow> 'a \<Rightarrow> 'a"
  ap_srem :: "'a \<Rightarrow> 'a \<Rightarrow> 'a"
  ap_and :: "'a \<Rightarrow> 'a \<Rightarrow> 'a"
  ap_or :: "'a \<Rightarrow> 'a \<Rightarrow> 'a"
  ap_xor :: "'a \<Rightarrow> 'a \<Rightarrow> 'a"
  ap_not :: "'a \<Rightarrow> 'a"
  ap_neg :: "'a \<Rightarrow> 'a"
  ap_shl :: "'a \<Rightarrow> 'a \<Rightarrow> 'a"
  ap_lshr :: "'a \<Rightarrow> 'a \<Rightarrow> 'a"
  ap_ashr :: "'a \<Rightarrow> 'a \<Rightarrow> 'a"
  ap_shl_n :: "'a \<Rightarrow> nat \<Rightarrow> 'a"
  ap_lshr_n :: "'a \<Rightarrow> nat \<Rightarrow> 'a"
  ap_ashr_n :: "'a \<Rightarrow> nat \<Rightarrow> 'a"
  zextOrTrunc :: "'a \<Rightarrow> nat \<Rightarrow> 'a"
  sextOrTrunc :: "'a \<Rightarrow> nat \<Rightarrow> 'a"
  getLowBitsSet :: "nat \<Rightarrow> nat \<Rightarrow> 'a"
  getHighBitsSet :: "nat \<Rightarrow> nat \<Rightarrow> 'a"
  countLeadingOnes :: "'a \<Rightarrow> nat"
  clearBit :: "'a \<Rightarrow> nat \<Rightarrow> 'a"
  getNullValue :: "nat \<Rightarrow> 'a"
  getAllOnesValue :: "nat \<Rightarrow> 'a"
  ap_zext :: "'a \<Rightarrow> nat \<Rightarrow> 'a"
  ap_sext :: "'a \<Rightarrow> nat \<Rightarrow> 'a"
  ap_trunc :: "'a \<Rightarrow> nat \<Rightarrow> 'a"
  same_object :: "'a expr \<Rightarrow> 'a expr \<Rightarrow> bool"
  ConstArrayOpt :: bool

text \<open>The two's complement value of an \<open>APInt\<close>.\<close>

definition ap_sint :: "'a ops \<Rightarrow> 'a \<Rightarrow> int" where
  "ap_sint A x = signed_take_bit (getBitWidth A x - 1) (ap_uint A x)"

text \<open>
  The documented behaviour of these operations.  Binary operations are specified for operands of
  equal width, divisions for a non-zero divisor, \<open>getZExtValue\<close> for at most 64 bits, \<open>zext\<close>,
  \<open>sext\<close> and \<open>trunc\<close> for a strictly wider or narrower result, as the documentation of \<open>APInt\<close> has it.
\<close>

locale apint =
  fixes A :: "'a ops"
  assumes uint_fits: "fits (getBitWidth A x) (ap_uint A x)"
    and uint_inj: "getBitWidth A x = getBitWidth A y \<Longrightarrow> ap_uint A x = ap_uint A y \<Longrightarrow> x = y"
    and width_of [apint_simps]: "getBitWidth A (ap_of A w v) = w"
    and uint_of [apint_simps]: "ap_uint A (ap_of A w v) = take_bit w (int v)"
    and zext_value: "getBitWidth A x \<le> 64 \<Longrightarrow> ap_getZExtValue A x = nat (ap_uint A x)"
    and raw_word: "ap_rawWord A x = nat (take_bit 64 (ap_uint A x))"
    and limited_value: "ap_getLimitedValue A x l = nat (min (ap_uint A x) (int l))"
    and bool_value [apint_simps]: "getBoolValue A x \<longleftrightarrow> ap_uint A x \<noteq> 0"
    and min_value [apint_simps]: "isMinValue A x \<longleftrightarrow> ap_uint A x = 0"
    and all_ones [apint_simps]:
      "isAllOnesValue A x \<longleftrightarrow> ap_uint A x = mask (getBitWidth A x)"
    and negative [apint_simps]: "isNegative A x \<longleftrightarrow> ap_sint A x < 0"
    and eq_value [apint_simps]:
      "getBitWidth A x = getBitWidth A y \<Longrightarrow> ap_eq A x y \<longleftrightarrow> ap_uint A x = ap_uint A y"
    and cmp_value [apint_simps]: "getBitWidth A x = getBitWidth A y \<Longrightarrow>
      (ap_ult A x y \<longleftrightarrow> ap_uint A x < ap_uint A y) \<and>
      (ap_ule A x y \<longleftrightarrow> ap_uint A x \<le> ap_uint A y) \<and>
      (ap_ugt A x y \<longleftrightarrow> ap_uint A x > ap_uint A y) \<and>
      (ap_uge A x y \<longleftrightarrow> ap_uint A x \<ge> ap_uint A y) \<and>
      (ap_slt A x y \<longleftrightarrow> ap_sint A x < ap_sint A y) \<and>
      (ap_sle A x y \<longleftrightarrow> ap_sint A x \<le> ap_sint A y) \<and>
      (ap_sgt A x y \<longleftrightarrow> ap_sint A x > ap_sint A y) \<and>
      (ap_sge A x y \<longleftrightarrow> ap_sint A x \<ge> ap_sint A y)"
    and width_binop [apint_simps]: "getBitWidth A x = getBitWidth A y \<Longrightarrow>
      getBitWidth A (ap_add A x y) = getBitWidth A x \<and>
      getBitWidth A (ap_sub A x y) = getBitWidth A x \<and>
      getBitWidth A (ap_mul A x y) = getBitWidth A x \<and>
      getBitWidth A (ap_udiv A x y) = getBitWidth A x \<and>
      getBitWidth A (ap_sdiv A x y) = getBitWidth A x \<and>
      getBitWidth A (ap_urem A x y) = getBitWidth A x \<and>
      getBitWidth A (ap_srem A x y) = getBitWidth A x \<and>
      getBitWidth A (ap_and A x y) = getBitWidth A x \<and>
      getBitWidth A (ap_or A x y) = getBitWidth A x \<and>
      getBitWidth A (ap_xor A x y) = getBitWidth A x \<and>
      getBitWidth A (ap_shl A x y) = getBitWidth A x \<and>
      getBitWidth A (ap_lshr A x y) = getBitWidth A x \<and>
      getBitWidth A (ap_ashr A x y) = getBitWidth A x"
    and width_unop [apint_simps]:
      "getBitWidth A (ap_not A x) = getBitWidth A x \<and>
      getBitWidth A (ap_neg A x) = getBitWidth A x"
    and uint_add [apint_simps]: "getBitWidth A x = getBitWidth A y \<Longrightarrow>
      ap_uint A (ap_add A x y) = take_bit (getBitWidth A x) (ap_uint A x + ap_uint A y)"
    and uint_sub [apint_simps]: "getBitWidth A x = getBitWidth A y \<Longrightarrow>
      ap_uint A (ap_sub A x y) = take_bit (getBitWidth A x) (ap_uint A x - ap_uint A y)"
    and uint_mul [apint_simps]: "getBitWidth A x = getBitWidth A y \<Longrightarrow>
      ap_uint A (ap_mul A x y) = take_bit (getBitWidth A x) (ap_uint A x * ap_uint A y)"
    and uint_udiv [apint_simps]: "getBitWidth A x = getBitWidth A y \<Longrightarrow> ap_uint A y \<noteq> 0 \<Longrightarrow>
      ap_uint A (ap_udiv A x y) = ap_uint A x div ap_uint A y"
    and uint_urem [apint_simps]: "getBitWidth A x = getBitWidth A y \<Longrightarrow> ap_uint A y \<noteq> 0 \<Longrightarrow>
      ap_uint A (ap_urem A x y) = ap_uint A x mod ap_uint A y"
    and uint_sdiv [apint_simps]: "getBitWidth A x = getBitWidth A y \<Longrightarrow> ap_uint A y \<noteq> 0 \<Longrightarrow>
      ap_uint A (ap_sdiv A x y) = take_bit (getBitWidth A x) (ap_sint A x sdiv ap_sint A y)"
    and uint_srem [apint_simps]: "getBitWidth A x = getBitWidth A y \<Longrightarrow> ap_uint A y \<noteq> 0 \<Longrightarrow>
      ap_uint A (ap_srem A x y) = take_bit (getBitWidth A x) (ap_sint A x smod ap_sint A y)"
    and uint_and [apint_simps]: "getBitWidth A x = getBitWidth A y \<Longrightarrow>
      ap_uint A (ap_and A x y) = ap_uint A x AND ap_uint A y"
    and uint_or [apint_simps]: "getBitWidth A x = getBitWidth A y \<Longrightarrow>
      ap_uint A (ap_or A x y) = ap_uint A x OR ap_uint A y"
    and uint_xor [apint_simps]: "getBitWidth A x = getBitWidth A y \<Longrightarrow>
      ap_uint A (ap_xor A x y) = ap_uint A x XOR ap_uint A y"
    and uint_not [apint_simps]:
      "ap_uint A (ap_not A x) = take_bit (getBitWidth A x) (NOT (ap_uint A x))"
    and uint_neg [apint_simps]:
      "ap_uint A (ap_neg A x) = take_bit (getBitWidth A x) (- ap_uint A x)"
    and uint_shl [apint_simps]: "getBitWidth A x = getBitWidth A y \<Longrightarrow>
      ap_uint A (ap_shl A x y)
      = take_bit (getBitWidth A x) (push_bit (nat (ap_uint A y)) (ap_uint A x))"
    and uint_lshr [apint_simps]: "getBitWidth A x = getBitWidth A y \<Longrightarrow>
      ap_uint A (ap_lshr A x y) = drop_bit (nat (ap_uint A y)) (ap_uint A x)"
    and uint_ashr [apint_simps]: "getBitWidth A x = getBitWidth A y \<Longrightarrow>
      ap_uint A (ap_ashr A x y)
      = take_bit (getBitWidth A x) (drop_bit (nat (ap_uint A y)) (ap_sint A x))"
    and width_shift_n [apint_simps]: "n \<le> getBitWidth A x \<Longrightarrow>
      getBitWidth A (ap_shl_n A x n) = getBitWidth A x \<and>
      getBitWidth A (ap_lshr_n A x n) = getBitWidth A x \<and>
      getBitWidth A (ap_ashr_n A x n) = getBitWidth A x"
    and uint_shl_n [apint_simps]: "n \<le> getBitWidth A x \<Longrightarrow>
      ap_uint A (ap_shl_n A x n) = take_bit (getBitWidth A x) (push_bit n (ap_uint A x))"
    and uint_lshr_n [apint_simps]: "n \<le> getBitWidth A x \<Longrightarrow>
      ap_uint A (ap_lshr_n A x n) = drop_bit n (ap_uint A x)"
    and uint_ashr_n [apint_simps]: "n \<le> getBitWidth A x \<Longrightarrow>
      ap_uint A (ap_ashr_n A x n) = take_bit (getBitWidth A x) (drop_bit n (ap_sint A x))"
    and width_ext [apint_simps]:
      "getBitWidth A (zextOrTrunc A x w) = w \<and> getBitWidth A (sextOrTrunc A x w) = w"
    and uint_zext [apint_simps]: "ap_uint A (zextOrTrunc A x w) = take_bit w (ap_uint A x)"
    and uint_sext [apint_simps]: "ap_uint A (sextOrTrunc A x w) = take_bit w (ap_sint A x)"
    and width_bits_set [apint_simps]:
      "getBitWidth A (getLowBitsSet A w n) = w \<and> getBitWidth A (getHighBitsSet A w n) = w"
    and uint_low_bits [apint_simps]: "n \<le> w \<Longrightarrow> ap_uint A (getLowBitsSet A w n) = mask n"
    and uint_high_bits [apint_simps]:
      "n \<le> w \<Longrightarrow> ap_uint A (getHighBitsSet A w n) = push_bit (w - n) (mask n)"
    and leading_ones: "n \<le> countLeadingOnes A x \<longleftrightarrow>
      n \<le> getBitWidth A x \<and>
      (\<forall>i. getBitWidth A x - n \<le> i \<longrightarrow> i < getBitWidth A x \<longrightarrow> bit (ap_uint A x) i)"
    and width_clear_bit [apint_simps]: "getBitWidth A (clearBit A x n) = getBitWidth A x"
    and uint_clear_bit [apint_simps]:
      "n < getBitWidth A x \<Longrightarrow> ap_uint A (clearBit A x n) = unset_bit n (ap_uint A x)"
    and same_object_eq: "same_object A e e' \<Longrightarrow> e = e'"
    and null_value [apint_simps]:
      "getBitWidth A (getNullValue A w) = w \<and> ap_uint A (getNullValue A w) = 0"
    and all_ones_value [apint_simps]:
      "getBitWidth A (getAllOnesValue A w) = w \<and> ap_uint A (getAllOnesValue A w) = mask w"
    and zext_strict [apint_simps]: "getBitWidth A x < w \<Longrightarrow>
      getBitWidth A (ap_zext A x w) = w \<and> ap_uint A (ap_zext A x w) = ap_uint A x"
    and sext_strict [apint_simps]: "getBitWidth A x < w \<Longrightarrow>
      getBitWidth A (ap_sext A x w) = w \<and> ap_uint A (ap_sext A x w) = take_bit w (ap_sint A x)"
    and trunc_strict [apint_simps]: "0 < w \<Longrightarrow> w < getBitWidth A x \<Longrightarrow>
      getBitWidth A (ap_trunc A x w) = w \<and> ap_uint A (ap_trunc A x w) = take_bit w (ap_uint A x)"

section \<open>A reference instance of the interface\<close>

text \<open>
  Bit lists, least significant bit first, with every operation computed on integers.  The
  instance shows that the contracts above are consistent; it also gives the concrete inputs of
  the examples.
\<close>

definition bv :: "nat \<Rightarrow> int \<Rightarrow> bool list" where
  "bv w v = map (bit v) [0..<w]"

definition bv_uint :: "bool list \<Rightarrow> int" where
  "bv_uint = horner_sum of_bool 2"

definition bv_sint :: "bool list \<Rightarrow> int" where
  "bv_sint x = signed_take_bit (length x - 1) (bv_uint x)"

definition bv_ops :: "bool \<Rightarrow> bool list ops" where
  "bv_ops opt = \<lparr>
     getBitWidth = length,
     ap_uint = bv_uint,
     ap_of = (\<lambda>w v. bv w (int v)),
     ap_getZExtValue = (\<lambda>x. nat (bv_uint x)),
     ap_rawWord = (\<lambda>x. nat (take_bit 64 (bv_uint x))),
     ap_getLimitedValue = (\<lambda>x l. nat (min (bv_uint x) (int l))),
     getBoolValue = (\<lambda>x. bv_uint x \<noteq> 0),
     isMinValue = (\<lambda>x. bv_uint x = 0),
     isAllOnesValue = (\<lambda>x. bv_uint x = mask (length x)),
     isNegative = (\<lambda>x. bv_sint x < 0),
     ap_eq = (\<lambda>x y. bv_uint x = bv_uint y),
     ap_ult = (\<lambda>x y. bv_uint x < bv_uint y),
     ap_ule = (\<lambda>x y. bv_uint x \<le> bv_uint y),
     ap_ugt = (\<lambda>x y. bv_uint x > bv_uint y),
     ap_uge = (\<lambda>x y. bv_uint x \<ge> bv_uint y),
     ap_slt = (\<lambda>x y. bv_sint x < bv_sint y),
     ap_sle = (\<lambda>x y. bv_sint x \<le> bv_sint y),
     ap_sgt = (\<lambda>x y. bv_sint x > bv_sint y),
     ap_sge = (\<lambda>x y. bv_sint x \<ge> bv_sint y),
     ap_add = (\<lambda>x y. bv (length x) (bv_uint x + bv_uint y)),
     ap_sub = (\<lambda>x y. bv (length x) (bv_uint x - bv_uint y)),
     ap_mul = (\<lambda>x y. bv (length x) (bv_uint x * bv_uint y)),
     ap_udiv = (\<lambda>x y. bv (length x) (bv_uint x div bv_uint y)),
     ap_sdiv = (\<lambda>x y. bv (length x) (bv_sint x sdiv bv_sint y)),
     ap_urem = (\<lambda>x y. bv (length x) (bv_uint x mod bv_uint y)),
     ap_srem = (\<lambda>x y. bv (length x) (bv_sint x smod bv_sint y)),
     ap_and = (\<lambda>x y. bv (length x) (bv_uint x AND bv_uint y)),
     ap_or = (\<lambda>x y. bv (length x) (bv_uint x OR bv_uint y)),
     ap_xor = (\<lambda>x y. bv (length x) (bv_uint x XOR bv_uint y)),
     ap_not = (\<lambda>x. bv (length x) (NOT (bv_uint x))),
     ap_neg = (\<lambda>x. bv (length x) (- bv_uint x)),
     ap_shl = (\<lambda>x y. bv (length x) (push_bit (nat (bv_uint y)) (bv_uint x))),
     ap_lshr = (\<lambda>x y. bv (length x) (drop_bit (nat (bv_uint y)) (bv_uint x))),
     ap_ashr = (\<lambda>x y. bv (length x) (drop_bit (nat (bv_uint y)) (bv_sint x))),
     ap_shl_n = (\<lambda>x n. bv (length x) (push_bit n (bv_uint x))),
     ap_lshr_n = (\<lambda>x n. bv (length x) (drop_bit n (bv_uint x))),
     ap_ashr_n = (\<lambda>x n. bv (length x) (drop_bit n (bv_sint x))),
     zextOrTrunc = (\<lambda>x w. bv w (bv_uint x)),
     sextOrTrunc = (\<lambda>x w. bv w (bv_sint x)),
     getLowBitsSet = (\<lambda>w n. bv w (mask n)),
     getHighBitsSet = (\<lambda>w n. bv w (push_bit (w - n) (mask n))),
     countLeadingOnes = (\<lambda>x. length (takeWhile id (rev x))),
     clearBit = (\<lambda>x n. bv (length x) (unset_bit n (bv_uint x))),
     getNullValue = (\<lambda>w. bv w 0),
     getAllOnesValue = (\<lambda>w. bv w (mask w)),
     ap_zext = (\<lambda>x w. bv w (bv_uint x)),
     ap_sext = (\<lambda>x w. bv w (bv_sint x)),
     ap_trunc = (\<lambda>x w. bv w (bv_uint x)),
     same_object = (\<lambda>e e'. False),
     ConstArrayOpt = opt\<rparr>"

text \<open>The operations of the reference instance.\<close>

lemma bv_ops_sel [simp]:
  "getBitWidth (bv_ops opt) = length"
  "ap_uint (bv_ops opt) = bv_uint"
  "ap_of (bv_ops opt) = (\<lambda>w v. bv w (int v))"
  "ap_getZExtValue (bv_ops opt) = (\<lambda>x. nat (bv_uint x))"
  "ap_rawWord (bv_ops opt) = (\<lambda>x. nat (take_bit 64 (bv_uint x)))"
  "ap_getLimitedValue (bv_ops opt) = (\<lambda>x l. nat (min (bv_uint x) (int l)))"
  "getBoolValue (bv_ops opt) = (\<lambda>x. bv_uint x \<noteq> 0)"
  "isMinValue (bv_ops opt) = (\<lambda>x. bv_uint x = 0)"
  "isAllOnesValue (bv_ops opt) = (\<lambda>x. bv_uint x = mask (length x))"
  "isNegative (bv_ops opt) = (\<lambda>x. bv_sint x < 0)"
  "ap_eq (bv_ops opt) = (\<lambda>x y. bv_uint x = bv_uint y)"
  "ap_ult (bv_ops opt) = (\<lambda>x y. bv_uint x < bv_uint y)"
  "ap_ule (bv_ops opt) = (\<lambda>x y. bv_uint x \<le> bv_uint y)"
  "ap_ugt (bv_ops opt) = (\<lambda>x y. bv_uint x > bv_uint y)"
  "ap_uge (bv_ops opt) = (\<lambda>x y. bv_uint x \<ge> bv_uint y)"
  "ap_slt (bv_ops opt) = (\<lambda>x y. bv_sint x < bv_sint y)"
  "ap_sle (bv_ops opt) = (\<lambda>x y. bv_sint x \<le> bv_sint y)"
  "ap_sgt (bv_ops opt) = (\<lambda>x y. bv_sint x > bv_sint y)"
  "ap_sge (bv_ops opt) = (\<lambda>x y. bv_sint x \<ge> bv_sint y)"
  "ap_add (bv_ops opt) = (\<lambda>x y. bv (length x) (bv_uint x + bv_uint y))"
  "ap_sub (bv_ops opt) = (\<lambda>x y. bv (length x) (bv_uint x - bv_uint y))"
  "ap_mul (bv_ops opt) = (\<lambda>x y. bv (length x) (bv_uint x * bv_uint y))"
  "ap_udiv (bv_ops opt) = (\<lambda>x y. bv (length x) (bv_uint x div bv_uint y))"
  "ap_sdiv (bv_ops opt) = (\<lambda>x y. bv (length x) (bv_sint x sdiv bv_sint y))"
  "ap_urem (bv_ops opt) = (\<lambda>x y. bv (length x) (bv_uint x mod bv_uint y))"
  "ap_srem (bv_ops opt) = (\<lambda>x y. bv (length x) (bv_sint x smod bv_sint y))"
  "ap_and (bv_ops opt) = (\<lambda>x y. bv (length x) (bv_uint x AND bv_uint y))"
  "ap_or (bv_ops opt) = (\<lambda>x y. bv (length x) (bv_uint x OR bv_uint y))"
  "ap_xor (bv_ops opt) = (\<lambda>x y. bv (length x) (bv_uint x XOR bv_uint y))"
  "ap_not (bv_ops opt) = (\<lambda>x. bv (length x) (NOT (bv_uint x)))"
  "ap_neg (bv_ops opt) = (\<lambda>x. bv (length x) (- bv_uint x))"
  "ap_shl (bv_ops opt) = (\<lambda>x y. bv (length x) (push_bit (nat (bv_uint y)) (bv_uint x)))"
  "ap_lshr (bv_ops opt) = (\<lambda>x y. bv (length x) (drop_bit (nat (bv_uint y)) (bv_uint x)))"
  "ap_ashr (bv_ops opt) = (\<lambda>x y. bv (length x) (drop_bit (nat (bv_uint y)) (bv_sint x)))"
  "ap_shl_n (bv_ops opt) = (\<lambda>x n. bv (length x) (push_bit n (bv_uint x)))"
  "ap_lshr_n (bv_ops opt) = (\<lambda>x n. bv (length x) (drop_bit n (bv_uint x)))"
  "ap_ashr_n (bv_ops opt) = (\<lambda>x n. bv (length x) (drop_bit n (bv_sint x)))"
  "zextOrTrunc (bv_ops opt) = (\<lambda>x w. bv w (bv_uint x))"
  "sextOrTrunc (bv_ops opt) = (\<lambda>x w. bv w (bv_sint x))"
  "getLowBitsSet (bv_ops opt) = (\<lambda>w n. bv w (mask n))"
  "getHighBitsSet (bv_ops opt) = (\<lambda>w n. bv w (push_bit (w - n) (mask n)))"
  "countLeadingOnes (bv_ops opt) = (\<lambda>x. length (takeWhile id (rev x)))"
  "clearBit (bv_ops opt) = (\<lambda>x n. bv (length x) (unset_bit n (bv_uint x)))"
  "getNullValue (bv_ops opt) = (\<lambda>w. bv w 0)"
  "getAllOnesValue (bv_ops opt) = (\<lambda>w. bv w (mask w))"
  "ap_zext (bv_ops opt) = (\<lambda>x w. bv w (bv_uint x))"
  "ap_sext (bv_ops opt) = (\<lambda>x w. bv w (bv_sint x))"
  "ap_trunc (bv_ops opt) = (\<lambda>x w. bv w (bv_uint x))"
  "same_object (bv_ops opt) = (\<lambda>e e'. False)"
  "ConstArrayOpt (bv_ops opt) = opt"
  by (simp_all add: bv_ops_def)

lemma length_bv [simp]: "length (bv w v) = w"
  by (simp add: bv_def)

lemma bv_uint_bv [simp]: "bv_uint (bv w v) = take_bit w v"
  by (simp add: bv_uint_def bv_def horner_sum_bit_eq_take_bit)

lemma bv_bv_uint: "bv (length x) (bv_uint x) = x"
  by (rule nth_equalityI) (auto simp: bv_def bv_uint_def bit_horner_sum_bit_iff)

lemma fits_bv_uint: "fits (length x) (bv_uint x)"
  by (metis bv_bv_uint bv_uint_bv fits_take_bit)

lemma take_bit_bv_uint [simp]: "length x = n \<Longrightarrow> take_bit n (bv_uint x) = bv_uint x"
  using fits_bv_uint fits_iff_take_bit by blast

lemma take_bit_bv_uint_wider: "length x < w \<Longrightarrow> take_bit w (bv_uint x) = bv_uint x"
  using fits_mono [OF fits_bv_uint [of x], of w] by (simp add: fits_iff_take_bit)

lemma bit_bv_uint: "bit (bv_uint x) n \<longleftrightarrow> n < length x \<and> x ! n"
  by (auto simp: bv_uint_def bit_horner_sum_bit_iff)

lemma div_le_dividend_int: "0 \<le> a \<Longrightarrow> 0 \<le> b \<Longrightarrow> a div b \<le> a" for a b :: int
  by (cases "b = 0") (auto intro: order_trans [OF zdiv_mono2 [of a 1 b]])

lemma fits_div_int: "fits w a \<Longrightarrow> 0 \<le> b \<Longrightarrow> fits w (a div b)"
  by (cases "b = 0")
    (auto simp: fits_def pos_imp_zdiv_nonneg_iff intro: le_less_trans [OF div_le_dividend_int])

lemma fits_mod_int: "fits w a \<Longrightarrow> fits w b \<Longrightarrow> fits w (a mod b)"
  by (cases "b = 0") (auto simp: fits_def intro: order.strict_trans [OF pos_mod_bound])

lemma length_takeWhile_rev:
  "n \<le> length (takeWhile id (rev x)) \<longleftrightarrow>
   n \<le> length x \<and> (\<forall>i. length x - n \<le> i \<longrightarrow> i < length x \<longrightarrow> x ! i)"
proof (induction x arbitrary: n rule: rev_induct)
  case Nil
  then show ?case by simp
next
  case (snoc b x)
  show ?case
  proof (cases n)
    case (Suc m)
    have "(\<forall>i. length (x @ [b]) - n \<le> i \<longrightarrow> i < length (x @ [b]) \<longrightarrow> (x @ [b]) ! i)
      \<longleftrightarrow> b \<and> (\<forall>i. length x - m \<le> i \<longrightarrow> i < length x \<longrightarrow> x ! i)"
      using Suc by (auto simp: nth_append less_Suc_eq dest: spec [of _ "length x"])
    then show ?thesis using snoc.IH [of m] Suc by auto
  qed auto
qed

lemma take_bit_bv_div:
  "take_bit (length x) (bv_uint x div bv_uint y) = bv_uint x div bv_uint y"
  using fits_div_int [OF fits_bv_uint, of "bv_uint y" x] fits_bv_uint [of y]
  by (simp add: fits_iff_take_bit [symmetric]) (simp add: fits_def)

lemma take_bit_bv_mod: "length x = length y \<Longrightarrow>
  take_bit (length y) (bv_uint x mod bv_uint y) = bv_uint x mod bv_uint y"
  using fits_mod_int [OF fits_bv_uint [of x], of "bv_uint y"] fits_bv_uint [of y]
  by (simp add: fits_iff_take_bit)

lemma take_bit_bv_drop:
  "length x = w \<Longrightarrow> take_bit w (drop_bit n (bv_uint x)) = drop_bit n (bv_uint x)"
  using fits_drop_bit [OF fits_bv_uint] fits_iff_take_bit by blast

lemma take_bit_bv_unset: "take_bit (length x) (unset_bit n (bv_uint x)) = unset_bit n (bv_uint x)"
  by (rule bit_eqI) (auto simp: bit_simps bit_bv_uint)

lemma take_bit_high_mask: "n \<le> w \<Longrightarrow>
  take_bit w (push_bit (w - n) (mask n)) = (push_bit (w - n) (mask n) :: int)"
  by (rule bit_eqI) (auto simp: bit_simps)

interpretation bv: apint "bv_ops opt"
proof (unfold_locales, goal_cases)
  case (2 x y)
  then show ?case by (simp add: bv_ops_def) (metis bv_bv_uint)
next
  case (19 x y)
  then show ?case using take_bit_bv_div [of x y] by (simp add: bv_ops_def)
qed (auto simp: bv_ops_def ap_sint_def bv_sint_def fits_iff_take_bit take_bit_bv_mod
    take_bit_bv_drop take_bit_bv_unset take_bit_high_mask length_takeWhile_rev bit_bv_uint
    take_bit_bv_uint_wider)

end
