(* ===== verification/Expr_Sem.thy ===== *)
theory Expr_Sem
  imports Expr
begin

text \<open>
  Width, typing and value of expressions, and the operations on constants.

  \<open>wt\<close> collects what the asserts of the constructors demand: equal operand widths, Boolean
  conditions, extracts inside the operand, 32-bit array indices and 8-bit array elements.
  \<open>sem A \<sigma> e\<close> is the unsigned value of \<open>e\<close> when the symbolic array bytes are \<open>\<sigma>\<close>.
  \<open>safe A \<sigma> e\<close> excludes three corners the simplifications do not cover: with \<open>-const-array-opt\<close> a
  read outside a constant array, a constant shift amount of \<open>2 ^ 63\<close> or more (the sums of shift
  amounts and widths are computed modulo \<open>2 ^ 64\<close>), and a conjunction wider than 64 bits (its mask
  is read with \<open>getZExtValue\<close>).  \<open>denotes A \<sigma> e w v\<close> says that \<open>e\<close> is typed, safe, has width \<open>w\<close> and value \<open>v\<close>.
\<close>

section \<open>Casts\<close>

text \<open>\<open>dyn_cast<T>(e)\<close>, as the members of the object or \<open>None\<close>.\<close>

fun dyn_cast_Constant :: "'a expr \<Rightarrow> 'a option" where
  "dyn_cast_Constant (ConstantExpr c) = Some c"
| "dyn_cast_Constant _ = None"

fun dyn_cast_Read :: "'a expr \<Rightarrow> ('a array_obj \<times> 'a update_node \<times> 'a expr) option" where
  "dyn_cast_Read (ReadExpr root us i) = Some (root, us, i)"
| "dyn_cast_Read _ = None"

fun dyn_cast_Select :: "'a expr \<Rightarrow> ('a expr \<times> 'a expr \<times> 'a expr) option" where
  "dyn_cast_Select (SelectExpr c t f) = Some (c, t, f)"
| "dyn_cast_Select _ = None"

fun dyn_cast_Concat :: "'a expr \<Rightarrow> ('a expr \<times> 'a expr) option" where
  "dyn_cast_Concat (ConcatExpr l r) = Some (l, r)"
| "dyn_cast_Concat _ = None"

fun dyn_cast_Extract :: "'a expr \<Rightarrow> ('a expr \<times> nat \<times> nat) option" where
  "dyn_cast_Extract (ExtractExpr e off w) = Some (e, off, w)"
| "dyn_cast_Extract _ = None"

fun dyn_cast_ZExt :: "'a expr \<Rightarrow> ('a expr \<times> nat) option" where
  "dyn_cast_ZExt (ZExtExpr e w) = Some (e, w)"
| "dyn_cast_ZExt _ = None"

fun dyn_cast_SExt :: "'a expr \<Rightarrow> ('a expr \<times> nat) option" where
  "dyn_cast_SExt (SExtExpr e w) = Some (e, w)"
| "dyn_cast_SExt _ = None"

fun dyn_cast_Bin :: "binkind \<Rightarrow> 'a expr \<Rightarrow> ('a expr \<times> 'a expr) option" where
  "dyn_cast_Bin k (BinaryExpr k' l r) = (if k = k' then Some (l, r) else None)"
| "dyn_cast_Bin k _ = None"

lemma dyn_cast_Constant_Some [simp]: "dyn_cast_Constant e = Some c \<longleftrightarrow> e = ConstantExpr c"
  by (cases e) auto

lemma dyn_cast_Read_Some [simp]:
  "dyn_cast_Read e = Some (root, us, i) \<longleftrightarrow> e = ReadExpr root us i"
  by (cases e) auto

lemma dyn_cast_Select_Some [simp]: "dyn_cast_Select e = Some (c, t, f) \<longleftrightarrow> e = SelectExpr c t f"
  by (cases e) auto

lemma dyn_cast_Concat_Some [simp]: "dyn_cast_Concat e = Some (l, r) \<longleftrightarrow> e = ConcatExpr l r"
  by (cases e) auto

lemma dyn_cast_Extract_Some [simp]:
  "dyn_cast_Extract e = Some (e', off, w) \<longleftrightarrow> e = ExtractExpr e' off w"
  by (cases e) auto

lemma dyn_cast_ZExt_Some [simp]: "dyn_cast_ZExt e = Some (e', w) \<longleftrightarrow> e = ZExtExpr e' w"
  by (cases e) auto

lemma dyn_cast_SExt_Some [simp]: "dyn_cast_SExt e = Some (e', w) \<longleftrightarrow> e = SExtExpr e' w"
  by (cases e) auto

lemma dyn_cast_Bin_Some [simp]: "dyn_cast_Bin k e = Some (l, r) \<longleftrightarrow> e = BinaryExpr k l r"
  by (cases e) auto

section \<open>Width\<close>

text \<open>\<open>getWidth()\<close> of each class.\<close>

fun getWidth :: "'a ops \<Rightarrow> 'a expr \<Rightarrow> nat" where
  "getWidth A (ConstantExpr c) = getBitWidth A c"
| "getWidth A (ReadExpr root us i) = 8"
| "getWidth A (SelectExpr c t f) = getWidth A t"
| "getWidth A (ConcatExpr l r) = getWidth A l + getWidth A r"
| "getWidth A (ExtractExpr e off w) = w"
| "getWidth A (NotExpr e) = getWidth A e"
| "getWidth A (ZExtExpr e w) = w"
| "getWidth A (SExtExpr e w) = w"
| "getWidth A (BinaryExpr k l r) = (if is_cmp k then 1 else getWidth A l)"

section \<open>Value\<close>

text \<open>The value of a binary operation on operands of width \<open>w\<close>.\<close>

fun bin_sem :: "binkind \<Rightarrow> nat \<Rightarrow> int \<Rightarrow> int \<Rightarrow> int" where
  "bin_sem Add w a b = take_bit w (a + b)"
| "bin_sem Sub w a b = take_bit w (a - b)"
| "bin_sem Mul w a b = take_bit w (a * b)"
| "bin_sem UDiv w a b = a div b"
| "bin_sem SDiv w a b = take_bit w (signed_take_bit (w - 1) a sdiv signed_take_bit (w - 1) b)"
| "bin_sem URem w a b = a mod b"
| "bin_sem SRem w a b = take_bit w (signed_take_bit (w - 1) a smod signed_take_bit (w - 1) b)"
| "bin_sem And w a b = a AND b"
| "bin_sem Or w a b = a OR b"
| "bin_sem Xor w a b = a XOR b"
| "bin_sem Shl w a b = take_bit w (push_bit (nat b) a)"
| "bin_sem LShr w a b = drop_bit (nat b) a"
| "bin_sem AShr w a b = take_bit w (drop_bit (nat b) (signed_take_bit (w - 1) a))"
| "bin_sem Eq w a b = of_bool (a = b)"
| "bin_sem Ne w a b = of_bool (a \<noteq> b)"
| "bin_sem Ult w a b = of_bool (a < b)"
| "bin_sem Ule w a b = of_bool (a \<le> b)"
| "bin_sem Ugt w a b = of_bool (b < a)"
| "bin_sem Uge w a b = of_bool (b \<le> a)"
| "bin_sem Slt w a b = of_bool (signed_take_bit (w - 1) a < signed_take_bit (w - 1) b)"
| "bin_sem Sle w a b = of_bool (signed_take_bit (w - 1) a \<le> signed_take_bit (w - 1) b)"
| "bin_sem Sgt w a b = of_bool (signed_take_bit (w - 1) b < signed_take_bit (w - 1) a)"
| "bin_sem Sge w a b = of_bool (signed_take_bit (w - 1) b \<le> signed_take_bit (w - 1) a)"

text \<open>
  The initial byte of an array: the constant for a constant array, the assigned byte otherwise.
\<close>

definition array_value :: "'a ops \<Rightarrow> ('a array_obj \<Rightarrow> nat \<Rightarrow> int) \<Rightarrow> 'a array_obj \<Rightarrow> int \<Rightarrow> int" where
  "array_value A \<sigma> root i =
     (if nat i < length (constantValues root) then ap_uint A (constantValues root ! nat i)
      else take_bit 8 (\<sigma> root (nat i)))"

fun sem :: "'a ops \<Rightarrow> ('a array_obj \<Rightarrow> nat \<Rightarrow> int) \<Rightarrow> 'a expr \<Rightarrow> int"
and sem_read :: "'a ops \<Rightarrow> ('a array_obj \<Rightarrow> nat \<Rightarrow> int) \<Rightarrow> 'a update_node \<Rightarrow> int \<Rightarrow> int \<Rightarrow> int" where
  "sem A \<sigma> (ConstantExpr c) = ap_uint A c"
| "sem A \<sigma> (ReadExpr root us i) = sem_read A \<sigma> us (sem A \<sigma> i) (array_value A \<sigma> root (sem A \<sigma> i))"
| "sem A \<sigma> (SelectExpr c t f) = (if sem A \<sigma> c \<noteq> 0 then sem A \<sigma> t else sem A \<sigma> f)"
| "sem A \<sigma> (ConcatExpr l r) = cat_bits (getWidth A r) (sem A \<sigma> l) (sem A \<sigma> r)"
| "sem A \<sigma> (ExtractExpr e off w) = take_bit w (drop_bit off (sem A \<sigma> e))"
| "sem A \<sigma> (NotExpr e) = take_bit (getWidth A e) (NOT (sem A \<sigma> e))"
| "sem A \<sigma> (ZExtExpr e w) = sem A \<sigma> e"
| "sem A \<sigma> (SExtExpr e w) = take_bit w (signed_take_bit (getWidth A e - 1) (sem A \<sigma> e))"
| "sem A \<sigma> (BinaryExpr k l r) = bin_sem k (getWidth A l) (sem A \<sigma> l) (sem A \<sigma> r)"
| "sem_read A \<sigma> NoUpdate i v = v"
| "sem_read A \<sigma> (UpdateNode nxt ui uv) i v =
     (if sem A \<sigma> ui = i then sem A \<sigma> uv else sem_read A \<sigma> nxt i v)"

section \<open>Typing and safety\<close>

text \<open>A \<open>Width\<close> is a non-zero \<open>unsigned\<close>.\<close>

definition width_ok :: "nat \<Rightarrow> bool" where
  "width_ok w \<longleftrightarrow> 0 < w \<and> w < 2 ^ 32"

definition wt_array :: "'a ops \<Rightarrow> 'a array_obj \<Rightarrow> bool" where
  "wt_array A root \<longleftrightarrow> array_size root < 2 ^ 32 \<and>
     (isConstantArray root \<longrightarrow> length (constantValues root) = array_size root) \<and>
     (\<forall>c \<in> set (constantValues root). getBitWidth A c = 8)"

fun wt :: "'a ops \<Rightarrow> 'a expr \<Rightarrow> bool"
and wt_upd :: "'a ops \<Rightarrow> 'a update_node \<Rightarrow> bool" where
  "wt A (ConstantExpr c) \<longleftrightarrow> width_ok (getBitWidth A c)"
| "wt A (ReadExpr root us i) \<longleftrightarrow> wt_array A root \<and> wt_upd A us \<and> wt A i \<and> getWidth A i = 32"
| "wt A (SelectExpr c t f) \<longleftrightarrow>
     wt A c \<and> wt A t \<and> wt A f \<and> getWidth A c = 1 \<and> getWidth A f = getWidth A t"
| "wt A (ConcatExpr l r) \<longleftrightarrow> wt A l \<and> wt A r \<and> width_ok (getWidth A l + getWidth A r)"
| "wt A (ExtractExpr e off w) \<longleftrightarrow> wt A e \<and> 0 < w \<and> off + w \<le> getWidth A e"
| "wt A (NotExpr e) \<longleftrightarrow> wt A e"
| "wt A (ZExtExpr e w) \<longleftrightarrow> wt A e \<and> getWidth A e \<le> w \<and> width_ok w"
| "wt A (SExtExpr e w) \<longleftrightarrow> wt A e \<and> getWidth A e \<le> w \<and> width_ok w"
| "wt A (BinaryExpr k l r) \<longleftrightarrow> wt A l \<and> wt A r \<and> getWidth A l = getWidth A r"
| "wt_upd A NoUpdate \<longleftrightarrow> True"
| "wt_upd A (UpdateNode nxt ui uv) \<longleftrightarrow>
     wt_upd A nxt \<and> wt A ui \<and> wt A uv \<and> getWidth A ui = 32 \<and> getWidth A uv = 8"

text \<open>The side conditions of a binary node: constant shift amounts and wide masks.\<close>

definition bin_safe :: "'a ops \<Rightarrow> binkind \<Rightarrow> nat \<Rightarrow> 'a expr \<Rightarrow> bool" where
  "bin_safe A k w r \<longleftrightarrow> (k = And \<longrightarrow> w \<le> 64) \<and>
     (k \<in> {Shl, LShr} \<longrightarrow>
        (case dyn_cast_Constant r of Some c \<Rightarrow> ap_uint A c < 2 ^ 63 | None \<Rightarrow> True))"

fun safe :: "'a ops \<Rightarrow> ('a array_obj \<Rightarrow> nat \<Rightarrow> int) \<Rightarrow> 'a expr \<Rightarrow> bool"
and safe_upd :: "'a ops \<Rightarrow> ('a array_obj \<Rightarrow> nat \<Rightarrow> int) \<Rightarrow> 'a update_node \<Rightarrow> bool" where
  "safe A \<sigma> (ConstantExpr c) \<longleftrightarrow> True"
| "safe A \<sigma> (ReadExpr root us i) \<longleftrightarrow> safe_upd A \<sigma> us \<and> safe A \<sigma> i \<and>
     (ConstArrayOpt A \<longrightarrow> isConstantArray root \<longrightarrow> us = NoUpdate \<longrightarrow>
        sem A \<sigma> i < int (array_size root))"
| "safe A \<sigma> (SelectExpr c t f) \<longleftrightarrow> safe A \<sigma> c \<and> safe A \<sigma> t \<and> safe A \<sigma> f"
| "safe A \<sigma> (ConcatExpr l r) \<longleftrightarrow> safe A \<sigma> l \<and> safe A \<sigma> r"
| "safe A \<sigma> (ExtractExpr e off w) \<longleftrightarrow> safe A \<sigma> e"
| "safe A \<sigma> (NotExpr e) \<longleftrightarrow> safe A \<sigma> e"
| "safe A \<sigma> (ZExtExpr e w) \<longleftrightarrow> safe A \<sigma> e"
| "safe A \<sigma> (SExtExpr e w) \<longleftrightarrow> safe A \<sigma> e"
| "safe A \<sigma> (BinaryExpr k l r) \<longleftrightarrow> safe A \<sigma> l \<and> safe A \<sigma> r \<and> bin_safe A k (getWidth A l) r"
| "safe_upd A \<sigma> NoUpdate \<longleftrightarrow> True"
| "safe_upd A \<sigma> (UpdateNode nxt ui uv) \<longleftrightarrow> safe_upd A \<sigma> nxt \<and> safe A \<sigma> ui \<and> safe A \<sigma> uv"

definition denotes ::
    "'a ops \<Rightarrow> ('a array_obj \<Rightarrow> nat \<Rightarrow> int) \<Rightarrow> 'a expr \<Rightarrow> nat \<Rightarrow> int \<Rightarrow> bool" where
  "denotes A \<sigma> e w v \<longleftrightarrow> wt A e \<and> getWidth A e = w \<and> safe A \<sigma> e \<and> sem A \<sigma> e = v"

section \<open>Operations on constants\<close>

text \<open>
  \<open>ConstantExpr::Table\<close>: the preallocated constants of at most 64 bits and below 4096, and the
  lookup \<open>alloc\<close> goes through.  \<open>None\<close> stands for the failing assert on a missing table entry.
\<close>

definition Table_max :: "nat \<Rightarrow> nat" where
  "Table_max i = (let max = 2 ^ (i - 1) in if max > 4096 then 4096 else max)"

definition const_table :: "'a ops \<Rightarrow> nat \<Rightarrow> nat \<Rightarrow> 'a option" where
  "const_table A i j = (if 1 \<le> i \<and> i < 65 \<and> j < Table_max i then Some (ap_of A i j) else None)"

definition Table_lookup :: "'a ops \<Rightarrow> 'a \<Rightarrow> 'a option" where
  "Table_lookup A v =
     (let width = getBitWidth A v in
      if width \<noteq> 0 \<and> width < 65 \<and> \<not> isNegative A v \<and> ap_getZExtValue A v < 4096
      then const_table A width (ap_getZExtValue A v) else Some v)"

text \<open>
  \<open>ConstantExpr::alloc\<close> of a value and width; \<open>Table_lookup_correct\<close> below shows that the table
  returns the constant itself, so the expressions below are built without it.
\<close>

definition ConstantExpr_alloc :: "'a ops \<Rightarrow> nat \<Rightarrow> nat \<Rightarrow> 'a expr" where
  "ConstantExpr_alloc A v w = ConstantExpr (ap_of A w v)"

definition ConstantExpr_Concat :: "'a ops \<Rightarrow> 'a \<Rightarrow> 'a \<Rightarrow> 'a" where
  "ConstantExpr_Concat A value RHS =
     (let W = getBitWidth A value + getBitWidth A RHS;
          Tmp = zextOrTrunc A value W;
          Tmp = ap_shl_n A Tmp (getBitWidth A RHS)
      in ap_or A Tmp (zextOrTrunc A RHS W))"

definition ConstantExpr_Extract :: "'a ops \<Rightarrow> 'a \<Rightarrow> nat \<Rightarrow> nat \<Rightarrow> 'a" where
  "ConstantExpr_Extract A value Offset W = zextOrTrunc A (ap_ashr_n A value Offset) W"

definition ConstantExpr_ZExt :: "'a ops \<Rightarrow> 'a \<Rightarrow> nat \<Rightarrow> 'a" where
  "ConstantExpr_ZExt A value W = zextOrTrunc A value W"

definition ConstantExpr_SExt :: "'a ops \<Rightarrow> 'a \<Rightarrow> nat \<Rightarrow> 'a" where
  "ConstantExpr_SExt A value W = sextOrTrunc A value W"

definition ConstantExpr_Not :: "'a ops \<Rightarrow> 'a \<Rightarrow> 'a" where
  "ConstantExpr_Not A value = ap_not A value"

text \<open>The binary operations \<open>ConstantExpr::Add\<close> to \<open>ConstantExpr::Sge\<close>.\<close>

fun ConstantExpr_op :: "'a ops \<Rightarrow> binkind \<Rightarrow> 'a \<Rightarrow> 'a \<Rightarrow> 'a" where
  "ConstantExpr_op A Add x y = ap_add A x y"
| "ConstantExpr_op A Sub x y = ap_sub A x y"
| "ConstantExpr_op A Mul x y = ap_mul A x y"
| "ConstantExpr_op A UDiv x y = ap_udiv A x y"
| "ConstantExpr_op A SDiv x y = ap_sdiv A x y"
| "ConstantExpr_op A URem x y = ap_urem A x y"
| "ConstantExpr_op A SRem x y = ap_srem A x y"
| "ConstantExpr_op A And x y = ap_and A x y"
| "ConstantExpr_op A Or x y = ap_or A x y"
| "ConstantExpr_op A Xor x y = ap_xor A x y"
| "ConstantExpr_op A Shl x y = ap_shl A x y"
| "ConstantExpr_op A LShr x y = ap_lshr A x y"
| "ConstantExpr_op A AShr x y = ap_ashr A x y"
| "ConstantExpr_op A Eq x y = ap_of A 1 (of_bool (ap_eq A x y))"
| "ConstantExpr_op A Ne x y = ap_of A 1 (of_bool (\<not> ap_eq A x y))"
| "ConstantExpr_op A Ult x y = ap_of A 1 (of_bool (ap_ult A x y))"
| "ConstantExpr_op A Ule x y = ap_of A 1 (of_bool (ap_ule A x y))"
| "ConstantExpr_op A Ugt x y = ap_of A 1 (of_bool (ap_ugt A x y))"
| "ConstantExpr_op A Uge x y = ap_of A 1 (of_bool (ap_uge A x y))"
| "ConstantExpr_op A Slt x y = ap_of A 1 (of_bool (ap_slt A x y))"
| "ConstantExpr_op A Sle x y = ap_of A 1 (of_bool (ap_sle A x y))"
| "ConstantExpr_op A Sgt x y = ap_of A 1 (of_bool (ap_sgt A x y))"
| "ConstantExpr_op A Sge x y = ap_of A 1 (of_bool (ap_sge A x y))"

text \<open>\<open>isZero()\<close>, \<open>isOne()\<close>, \<open>isTrue()\<close>, \<open>isFalse()\<close>, \<open>isAllOnes()\<close> of a constant, and of an expression.\<close>

definition const_isZero :: "'a ops \<Rightarrow> 'a \<Rightarrow> bool" where
  "const_isZero A c = isMinValue A c"

definition const_isOne :: "'a ops \<Rightarrow> 'a \<Rightarrow> bool" where
  "const_isOne A c \<longleftrightarrow> ap_getLimitedValue A c UINT64_MAX = 1"

definition const_isTrue :: "'a ops \<Rightarrow> 'a \<Rightarrow> bool" where
  "const_isTrue A c \<longleftrightarrow> getBitWidth A c = 1 \<and> getBoolValue A c"

definition const_isFalse :: "'a ops \<Rightarrow> 'a \<Rightarrow> bool" where
  "const_isFalse A c \<longleftrightarrow> getBitWidth A c = 1 \<and> \<not> getBoolValue A c"

definition const_isAllOnes :: "'a ops \<Rightarrow> 'a \<Rightarrow> bool" where
  "const_isAllOnes A c = isAllOnesValue A c"

definition isZero :: "'a ops \<Rightarrow> 'a expr \<Rightarrow> bool" where
  "isZero A e = (case dyn_cast_Constant e of Some c \<Rightarrow> const_isZero A c | None \<Rightarrow> False)"

definition isTrue :: "'a ops \<Rightarrow> 'a expr \<Rightarrow> bool" where
  "isTrue A e = (case dyn_cast_Constant e of Some c \<Rightarrow> const_isTrue A c | None \<Rightarrow> False)"

definition isFalse :: "'a ops \<Rightarrow> 'a expr \<Rightarrow> bool" where
  "isFalse A e = (case dyn_cast_Constant e of Some c \<Rightarrow> const_isFalse A c | None \<Rightarrow> False)"

text \<open>\<open>Expr::isIsZeroOf\<close> and \<open>Expr::isNegationOf\<close>.\<close>

definition isIsZeroOf :: "'a ops \<Rightarrow> 'a expr \<Rightarrow> 'a expr \<Rightarrow> bool" where
  "isIsZeroOf A this e =
     (case dyn_cast_Bin Eq this of Some (l, r) \<Rightarrow> isZero A l \<and> r = e | None \<Rightarrow> False)"

definition isNegationOf :: "'a ops \<Rightarrow> 'a expr \<Rightarrow> 'a expr \<Rightarrow> bool" where
  "isNegationOf A this e \<longleftrightarrow> isIsZeroOf A this e \<or> isIsZeroOf A e this"

section \<open>Basic facts\<close>

lemma width_ok_simps [simp]: "width_ok (Suc 0)" "width_ok 8" "width_ok 32" "\<not> width_ok 0"
  by (auto simp: width_ok_def)

lemma width_ok_mono: "width_ok w \<Longrightarrow> 0 < w' \<Longrightarrow> w' \<le> w \<Longrightarrow> width_ok w'"
  by (auto simp: width_ok_def)

lemma fits_bin_sem:
  "fits w a \<Longrightarrow> fits w b \<Longrightarrow> fits (if is_cmp k then Suc 0 else w) (bin_sem k w a b)"
  by (cases k) (auto simp: fits_mod_int intro: fits_div_int dest: fits_def [THEN iffD1])

context apint
begin

lemma wt_width_ok: "wt A e \<Longrightarrow> width_ok (getWidth A e)"
  by (induction e rule: expr_plain_induct) (auto simp: width_ok_def)

lemma array_value_fits: "wt_array A root \<Longrightarrow> fits 8 (array_value A \<sigma> root i)"
  using uint_fits [of "constantValues root ! nat i"]
  by (auto simp: array_value_def wt_array_def)

lemma sem_fits: "wt A e \<Longrightarrow> fits (getWidth A e) (sem A \<sigma> e)"
  and sem_read_fits: "wt_upd A us \<Longrightarrow> fits 8 v \<Longrightarrow> fits 8 (sem_read A \<sigma> us i v)"
proof (induction e and us arbitrary: and v i)
  case (ConstantExpr x)
  then show ?case using uint_fits by simp
next
  case (BinaryExpr k l r)
  then show ?case using fits_bin_sem [of "getWidth A l" "sem A \<sigma> l" "sem A \<sigma> r" k] by (auto split: if_splits)
qed (auto simp: array_value_fits intro: fits_mono)

lemma denotes_fits: "denotes A \<sigma> e w v \<Longrightarrow> fits w v"
  using sem_fits by (auto simp: denotes_def)

lemma denotes_width_ok: "denotes A \<sigma> e w v \<Longrightarrow> width_ok w"
  using wt_width_ok by (auto simp: denotes_def)

lemma denotes_take_bit: "denotes A \<sigma> e w v \<Longrightarrow> take_bit w v = v"
  using denotes_fits fits_iff_take_bit by blast

lemma denotes_fun: "denotes A \<sigma> e w v \<Longrightarrow> denotes A \<sigma> e w' v' \<Longrightarrow> w' = w \<and> v' = v"
  by (auto simp: denotes_def)

lemma denotes_Constant [sem_simps]: "denotes A \<sigma> (ConstantExpr c) w v \<longleftrightarrow>
    width_ok w \<and> w = getBitWidth A c \<and> v = ap_uint A c"
  by (auto simp: denotes_def)

lemma denotes_Select [sem_simps]: "denotes A \<sigma> (SelectExpr c t f) w v \<longleftrightarrow>
    (\<exists>b x y. denotes A \<sigma> c 1 b \<and> denotes A \<sigma> t w x \<and> denotes A \<sigma> f w y \<and> v = (if b \<noteq> 0 then x else y))"
  by (auto simp: denotes_def)

lemma denotes_Concat [sem_simps]: "denotes A \<sigma> (ConcatExpr l r) w v \<longleftrightarrow>
    (\<exists>w1 w2 a b. denotes A \<sigma> l w1 a \<and> denotes A \<sigma> r w2 b \<and> w = w1 + w2 \<and> width_ok w \<and> v = cat_bits w2 a b)"
  by (auto simp: denotes_def)

lemma denotes_Extract [sem_simps]: "denotes A \<sigma> (ExtractExpr e off w') w v \<longleftrightarrow>
    (\<exists>kw a. denotes A \<sigma> e kw a \<and> w' = w \<and> 0 < w \<and> off + w \<le> kw \<and> v = take_bit w (drop_bit off a))"
  by (auto simp: denotes_def)

lemma denotes_Not [sem_simps]: "denotes A \<sigma> (NotExpr e) w v \<longleftrightarrow>
    (\<exists>a. denotes A \<sigma> e w a \<and> v = take_bit w (NOT a))"
  by (auto simp: denotes_def)

lemma denotes_ZExt [sem_simps]: "denotes A \<sigma> (ZExtExpr e w') w v \<longleftrightarrow>
    (\<exists>kw. denotes A \<sigma> e kw v \<and> w' = w \<and> kw \<le> w \<and> width_ok w)"
  by (auto simp: denotes_def)

lemma denotes_SExt [sem_simps]: "denotes A \<sigma> (SExtExpr e w') w v \<longleftrightarrow>
    (\<exists>kw a. denotes A \<sigma> e kw a \<and> w' = w \<and> kw \<le> w \<and> width_ok w \<and> v = take_bit w (signed_take_bit (kw - 1) a))"
  by (auto simp: denotes_def)

lemma denotes_Bin [sem_simps]: "denotes A \<sigma> (BinaryExpr k l r) w v \<longleftrightarrow>
    (\<exists>kw a b. denotes A \<sigma> l kw a \<and> denotes A \<sigma> r kw b \<and> bin_safe A k kw r \<and>
       w = (if is_cmp k then 1 else kw) \<and> v = bin_sem k kw a b)"
  by (auto simp: denotes_def)

lemma Table_lookup_correct: "Table_lookup A v = Some v"
proof (cases "getBitWidth A v \<noteq> 0 \<and> getBitWidth A v < 65 \<and> \<not> isNegative A v \<and> ap_getZExtValue A v < 4096")
  case True
  define w where "w = getBitWidth A v"
  from True have w: "0 < w" "w < 65" and z: "ap_getZExtValue A v = nat (ap_uint A v)"
    by (auto simp: w_def zext_value)
  from uint_fits [of v] have f: "0 \<le> ap_uint A v" "ap_uint A v < 2 ^ w" by (auto simp: fits_def w_def)
  from True have "\<not> bit (ap_uint A v) (w - 1)"
    by (simp add: apint_simps ap_sint_def w_def signed_take_bit_negative_iff)
  then have "take_bit (Suc (w - 1)) (ap_uint A v) = take_bit (w - 1) (ap_uint A v)"
    by (simp only: take_bit_Suc_from_most) simp
  with f w have "ap_uint A v = take_bit (w - 1) (ap_uint A v)"
    by (simp add: take_bit_int_eq_self)
  then have "ap_uint A v < 2 ^ (w - 1)" by (metis take_bit_int_less_exp)
  with f have "nat (ap_uint A v) < 2 ^ (w - 1)" by (simp add: nat_less_iff)
  moreover have "ap_of A w (nat (ap_uint A v)) = v"
    using f by (intro uint_inj) (auto simp: apint_simps w_def take_bit_int_eq_self)
  ultimately show ?thesis
    using True w by (auto simp: Table_lookup_def const_table_def Table_max_def z w_def Let_def)
qed (auto simp: Table_lookup_def)

lemma denotes_alloc [intro]:
  "width_ok w \<Longrightarrow> v = take_bit w (int n) \<Longrightarrow> denotes A \<sigma> (ConstantExpr_alloc A n w) w v"
  by (simp add: ConstantExpr_alloc_def sem_simps apint_simps)

lemma denotes_Read [sem_simps]: "denotes A \<sigma> (ReadExpr root us i) w v \<longleftrightarrow>
    wt_array A root \<and> wt_upd A us \<and> safe_upd A \<sigma> us \<and> w = 8 \<and>
    (\<exists>iv. denotes A \<sigma> i 32 iv \<and> v = sem_read A \<sigma> us iv (array_value A \<sigma> root iv) \<and>
      (ConstArrayOpt A \<longrightarrow> isConstantArray root \<longrightarrow> us = NoUpdate \<longrightarrow> iv < int (array_size root)))"
  by (auto simp: denotes_def)

lemma denotes_ConstantD: "denotes A \<sigma> (ConstantExpr c) w v \<Longrightarrow>
    width_ok w \<and> getBitWidth A c = w \<and> ap_uint A c = v \<and> fits w v"
  using uint_fits [of c] by (auto simp: denotes_Constant)

lemma ConstantExpr_Concat_denotes:
  assumes "denotes A \<sigma> (ConstantExpr x) w1 a" and "denotes A \<sigma> (ConstantExpr y) w2 b"
    and "width_ok (w1 + w2)"
  shows "denotes A \<sigma> (ConstantExpr (ConstantExpr_Concat A x y)) (w1 + w2) (cat_bits w2 a b)"
proof -
  note d = assms(1,2) [THEN denotes_ConstantD]
  have "take_bit (w1 + w2) a = a" "take_bit (w1 + w2) b = b"
    using d fits_mono [of w1 a "w1 + w2"] fits_mono [of w2 b "w1 + w2"] by (auto simp: fits_iff_take_bit)
  moreover have "take_bit (w1 + w2) (cat_bits w2 a b) = cat_bits w2 a b"
    using d fits_cat_bits fits_iff_take_bit by blast
  ultimately show ?thesis
    using d assms(3) by (simp add: sem_simps ConstantExpr_Concat_def Let_def apint_simps cat_bits_def)
qed

lemma ConstantExpr_Extract_denotes:
  assumes "denotes A \<sigma> (ConstantExpr x) kw a" and "0 < w" and "off + w \<le> kw"
  shows "denotes A \<sigma> (ConstantExpr (ConstantExpr_Extract A x off w)) w (take_bit w (drop_bit off a))"
  using assms denotes_ConstantD [OF assms(1)]
  by (simp add: width_ok_def sem_simps ConstantExpr_Extract_def apint_simps ap_sint_def take_bit_drop_bit_signed)

lemma ConstantExpr_ZExt_denotes:
  assumes "denotes A \<sigma> (ConstantExpr x) kw a" and "width_ok w"
  shows "denotes A \<sigma> (ConstantExpr (ConstantExpr_ZExt A x w)) w (take_bit w a)"
  using assms denotes_ConstantD [OF assms(1)]
  by (simp add: sem_simps ConstantExpr_ZExt_def apint_simps)

lemma ConstantExpr_SExt_denotes:
  assumes "denotes A \<sigma> (ConstantExpr x) kw a" and "width_ok w"
  shows "denotes A \<sigma> (ConstantExpr (ConstantExpr_SExt A x w)) w
    (take_bit w (signed_take_bit (kw - 1) a))"
  using assms denotes_ConstantD [OF assms(1)]
  by (simp add: sem_simps ConstantExpr_SExt_def apint_simps ap_sint_def)

lemma ConstantExpr_Not_denotes:
  assumes "denotes A \<sigma> (ConstantExpr x) w a"
  shows "denotes A \<sigma> (ConstantExpr (ConstantExpr_Not A x)) w (take_bit w (NOT a))"
  using assms denotes_ConstantD [OF assms(1)]
  by (simp add: sem_simps ConstantExpr_Not_def apint_simps)

lemma ConstantExpr_op_denotes:
  assumes "denotes A \<sigma> (ConstantExpr x) w a" and "denotes A \<sigma> (ConstantExpr y) w b"
    and "k \<in> {UDiv, SDiv, URem, SRem} \<Longrightarrow> b \<noteq> 0"
  shows "denotes A \<sigma> (ConstantExpr (ConstantExpr_op A k x y)) (if is_cmp k then 1 else w)
    (bin_sem k w a b)"
  using assms(3) assms(1,2) [THEN denotes_ConstantD]
  by (cases k) (auto simp: sem_simps apint_simps ap_sint_def)

lemma isZero_denotes: "isZero A e \<Longrightarrow> denotes A \<sigma> e w v \<Longrightarrow> v = 0"
  by (auto simp: isZero_def const_isZero_def sem_simps apint_simps split: option.splits)

lemma isIsZeroOf_denotes:
  assumes "isIsZeroOf A e e'" and "denotes A \<sigma> e w a" and "denotes A \<sigma> e' w' b"
  shows "w = 1 \<and> a = of_bool (b = 0)"
proof -
  obtain l where "e = BinaryExpr Eq l e'" "isZero A l"
    using assms(1) by (auto simp: isIsZeroOf_def split: option.splits)
  with assms show ?thesis
    by (auto simp: sem_simps dest: denotes_fun isZero_denotes)
qed

lemma isNegationOf_denotes:
  assumes "isNegationOf A e e'" and "denotes A \<sigma> e w a" and "denotes A \<sigma> e' w b"
  shows "w = 1 \<and> (a = 0 \<and> b = 1 \<or> a = 1 \<and> b = 0)"
  using assms(1) isIsZeroOf_denotes [OF _ assms(2,3)] isIsZeroOf_denotes [OF _ assms(3,2)]
    denotes_fits [OF assms(2)] denotes_fits [OF assms(3)] fits_1_cases [of a] fits_1_cases [of b]
  by (auto simp: isNegationOf_def)

lemma denotes_ZExtI:
  "denotes A \<sigma> e kw v \<Longrightarrow> kw \<le> w \<Longrightarrow> width_ok w \<Longrightarrow> denotes A \<sigma> (ZExtExpr e w) w v"
  by (auto simp: denotes_ZExt)

lemma denotes_SExtI:
  "denotes A \<sigma> e kw a \<Longrightarrow> kw \<le> w \<Longrightarrow> width_ok w \<Longrightarrow> v = take_bit w (signed_take_bit (kw - Suc 0) a) \<Longrightarrow>
   denotes A \<sigma> (SExtExpr e w) w v"
  by (auto simp: denotes_SExt)

lemma denotes_ConcatI:
  "denotes A \<sigma> l w1 a \<Longrightarrow> denotes A \<sigma> r w2 b \<Longrightarrow> width_ok (w1 + w2) \<Longrightarrow>
   denotes A \<sigma> (ConcatExpr l r) (w1 + w2) (cat_bits w2 a b)"
  by (auto simp: denotes_Concat)

lemma denotes_ExtractI:
  "denotes A \<sigma> e kw a \<Longrightarrow> 0 < w \<Longrightarrow> off + w \<le> kw \<Longrightarrow> v = take_bit w (drop_bit off a) \<Longrightarrow>
   denotes A \<sigma> (ExtractExpr e off w) w v"
  by (auto simp: denotes_Extract)

lemma denotes_NotI:
  "denotes A \<sigma> e w a \<Longrightarrow> v = take_bit w (NOT a) \<Longrightarrow> denotes A \<sigma> (NotExpr e) w v"
  by (auto simp: denotes_Not)

lemma denotes_BinI:
  "denotes A \<sigma> l kw a \<Longrightarrow> denotes A \<sigma> r kw b \<Longrightarrow> bin_safe A k kw r \<Longrightarrow>
   w = (if is_cmp k then Suc 0 else kw) \<Longrightarrow> v = bin_sem k kw a b \<Longrightarrow> denotes A \<sigma> (BinaryExpr k l r) w v"
  by (auto simp: denotes_Bin)

lemma denotes_SelectI:
  "denotes A \<sigma> c (Suc 0) b \<Longrightarrow> denotes A \<sigma> t w x \<Longrightarrow> denotes A \<sigma> f w y \<Longrightarrow>
   v = (if b \<noteq> 0 then x else y) \<Longrightarrow> denotes A \<sigma> (SelectExpr c t f) w v"
  by (auto simp: denotes_Select)

lemma zext_value_int: "getBitWidth A x \<le> 64 \<Longrightarrow> int (ap_getZExtValue A x) = ap_uint A x"
  using uint_fits [of x] by (simp add: zext_value fits_def)

end

end
