(* ===== verification/Bits.thy ===== *)
theory Bits
  imports Prelude
begin

text \<open>
  The bit tricks of \<open>klee/include/klee/util/Bits.h\<close> on machine words.  The pre- and
  postconditions in the comments of that header are the lemmas of this theory.
\<close>

section \<open>Masks\<close>

text \<open>\<open>bitmask<uint64_t>(onecount)\<close>; the shift amount is computed in unsigned arithmetic.\<close>

definition bitmask64 :: "nat \<Rightarrow> 64 word" where
  "bitmask64 onecount = (if onecount \<noteq> 0 then - 1 else 0) AND drop_bit (64 - onecount) (- 1)"

text \<open>The functions of the namespace \<open>bits32\<close>.\<close>

definition maxValueOfNBits32 :: "nat \<Rightarrow> 32 word" where
  "maxValueOfNBits32 N = (if N = 0 then 0 else drop_bit (32 - N) (- 1))"

definition truncateToNBits32 :: "32 word \<Rightarrow> nat \<Rightarrow> 32 word" where
  "truncateToNBits32 x N = x AND drop_bit (32 - N) (- 1)"

definition withoutRightmostBit32 :: "32 word \<Rightarrow> 32 word" where
  "withoutRightmostBit32 x = x AND (x - 1)"

definition isolateRightmostBit32 :: "32 word \<Rightarrow> 32 word" where
  "isolateRightmostBit32 x = x AND (- x)"

definition isPowerOfTwo32 :: "32 word \<Rightarrow> bool" where
  "isPowerOfTwo32 x = (if x = 0 then False else x AND (x - 1) = 0)"

definition indexOfSingleBit32 :: "32 word \<Rightarrow> nat" where
  "indexOfSingleBit32 x =
     (if x AND 0xFFFF0000 \<noteq> 0 then 16 else 0) +
     (if x AND 0xFF00FF00 \<noteq> 0 then 8 else 0) +
     (if x AND 0xF0F0F0F0 \<noteq> 0 then 4 else 0) +
     (if x AND 0xCCCCCCCC \<noteq> 0 then 2 else 0) +
     (if x AND 0xAAAAAAAA \<noteq> 0 then 1 else 0)"

definition indexOfRightmostBit32 :: "32 word \<Rightarrow> nat" where
  "indexOfRightmostBit32 x = indexOfSingleBit32 (isolateRightmostBit32 x)"

text \<open>The functions of the namespace \<open>bits64\<close>.\<close>

definition maxValueOfNBits64 :: "nat \<Rightarrow> 64 word" where
  "maxValueOfNBits64 N = (if N = 0 then 0 else drop_bit (64 - N) (- 1))"

definition truncateToNBits64 :: "64 word \<Rightarrow> nat \<Rightarrow> 64 word" where
  "truncateToNBits64 x N = x AND drop_bit (64 - N) (- 1)"

definition withoutRightmostBit64 :: "64 word \<Rightarrow> 64 word" where
  "withoutRightmostBit64 x = x AND (x - 1)"

definition isolateRightmostBit64 :: "64 word \<Rightarrow> 64 word" where
  "isolateRightmostBit64 x = x AND (- x)"

definition isPowerOfTwo64 :: "64 word \<Rightarrow> bool" where
  "isPowerOfTwo64 x = (if x = 0 then False else x AND (x - 1) = 0)"

definition indexOfSingleBit64 :: "64 word \<Rightarrow> nat" where
  "indexOfSingleBit64 x =
     indexOfSingleBit32 (ucast (x OR drop_bit 32 x)) +
     (if x AND push_bit 32 0xFFFFFFFF \<noteq> 0 then 32 else 0)"

definition indexOfRightmostBit64 :: "64 word \<Rightarrow> nat" where
  "indexOfRightmostBit64 x = indexOfSingleBit64 (isolateRightmostBit64 x)"

section \<open>What they compute\<close>

lemma drop_bit_minus_1: "n \<le> LENGTH('a) \<Longrightarrow> drop_bit (LENGTH('a) - n) (- 1 :: 'a::len word) = mask n"
  by (rule bit_word_eqI) (auto simp: bit_simps)

lemma bitmask64_eq: "n \<le> 64 \<Longrightarrow> bitmask64 n = mask n"
  using drop_bit_minus_1 [where 'a = 64, of n] by (auto simp: bitmask64_def)

lemma truncateToNBits64_eq: "n \<le> 64 \<Longrightarrow> truncateToNBits64 x n = take_bit n x"
  using drop_bit_minus_1 [where 'a = 64, of n] by (simp add: truncateToNBits64_def take_bit_eq_mask)

lemma truncateToNBits32_eq: "n \<le> 32 \<Longrightarrow> truncateToNBits32 x n = take_bit n x"
  using drop_bit_minus_1 [where 'a = 32, of n] by (simp add: truncateToNBits32_def take_bit_eq_mask)

lemma maxValueOfNBits64_eq: "n \<le> 64 \<Longrightarrow> maxValueOfNBits64 n = mask n"
  using drop_bit_minus_1 [where 'a = 64, of n] by (simp add: maxValueOfNBits64_def)

lemma maxValueOfNBits32_eq: "n \<le> 32 \<Longrightarrow> maxValueOfNBits32 n = mask n"
  using drop_bit_minus_1 [where 'a = 32, of n] by (simp add: maxValueOfNBits32_def)

lemma unat_bitmask64: "n \<le> 64 \<Longrightarrow> int (unat (bitmask64 n)) = mask n"
  by (rule bit_eqI) (auto simp: bitmask64_eq bit_simps)

section \<open>Single bits\<close>

lemma index32_all: "\<forall>k \<in> set [0..<32]. indexOfSingleBit32 (push_bit k 1) = k"
  by (simp add: upt_rec indexOfSingleBit32_def push_bit_eq_mult)

lemma indexOfSingleBit32_single: "k < 32 \<Longrightarrow> indexOfSingleBit32 (push_bit k 1) = k"
  using index32_all by simp

lemma mask32_eq: "(0xFFFFFFFF :: 64 word) = mask 32"
  by (simp add: mask_eq_exp_minus_1)

lemma indexOfSingleBit64_single:
  assumes "k < 64"
  shows "indexOfSingleBit64 (push_bit k 1) = k"
proof (cases "k < 32")
  case True
  have "(ucast (push_bit k 1 OR drop_bit 32 (push_bit k 1) :: 64 word) :: 32 word) = push_bit k 1"
    using True by (intro bit_word_eqI) (auto simp: bit_simps)
  moreover have "push_bit k 1 AND push_bit 32 0xFFFFFFFF = (0 :: 64 word)"
    unfolding mask32_eq using True by (intro bit_word_eqI) (simp add: bit_simps)
  ultimately show ?thesis using indexOfSingleBit32_single [OF True] by (simp add: indexOfSingleBit64_def)
next
  case False
  then have k: "k - 32 < 32" using assms by simp
  have "(ucast (push_bit k 1 OR drop_bit 32 (push_bit k 1) :: 64 word) :: 32 word) = push_bit (k - 32) 1"
    using False assms by (intro bit_word_eqI) (auto simp: bit_simps)
  moreover have "push_bit k 1 AND push_bit 32 0xFFFFFFFF \<noteq> (0 :: 64 word)"
  proof
    assume "push_bit k 1 AND push_bit 32 0xFFFFFFFF = (0 :: 64 word)"
    then have "\<not> bit (push_bit k 1 AND push_bit 32 (mask 32) :: 64 word) k" unfolding mask32_eq by simp
    then show False using False assms k by (simp add: bit_simps)
  qed
  ultimately show ?thesis using indexOfSingleBit32_single [OF k] False by (simp add: indexOfSingleBit64_def)
qed

text \<open>The lowest set bit of a word, by which the tricks with \<open>x & (x - 1)\<close> and \<open>x & -x\<close> are specified.\<close>

definition lowest_bit :: "'a::len word \<Rightarrow> nat" where
  "lowest_bit x = (LEAST k. bit x k)"

lemma lowest_bit_split:
  fixes x :: "'a::len word"
  assumes "x \<noteq> 0"
  shows "bit x (lowest_bit x)" and "lowest_bit x < LENGTH('a)" and "j < lowest_bit x \<Longrightarrow> \<not> bit x j"
proof -
  from assms obtain k where "bit x k" by (auto simp: bit_eq_iff)
  then show b: "bit x (lowest_bit x)" unfolding lowest_bit_def by (rule LeastI)
  then show "lowest_bit x < LENGTH('a)" using bit_imp_le_length by blast
  show "j < lowest_bit x \<Longrightarrow> \<not> bit x j" unfolding lowest_bit_def by (rule not_less_Least)
qed

lemma bit_high_part: "bit (push_bit n (drop_bit n x)) i \<longleftrightarrow> n \<le> i \<and> bit x i" for x :: "'a::len word"
  using bit_imp_le_length [of x i] by (auto simp: bit_simps)

lemma dec_bits:
  fixes x :: "'a::len word"
  assumes "x \<noteq> 0" and j: "j < LENGTH('a)"
  shows "bit (x - 1) j \<longleftrightarrow> (if j < lowest_bit x then True else if j = lowest_bit x then False else bit x j)"
proof -
  let ?k = "lowest_bit x"
  note k = lowest_bit_split [OF assms(1)]
  define h where "h = push_bit (Suc ?k) (drop_bit (Suc ?k) x)"
  have hb: "bit h i \<longleftrightarrow> ?k < i \<and> bit x i" for i
    unfolding h_def bit_high_part by (simp add: Suc_le_eq)
  have 1: "x = h OR push_bit ?k 1"
    by (rule bit_word_eqI) (use k linorder_neqE_nat in \<open>auto simp: hb bit_simps\<close>)
  have 2: "h AND push_bit ?k 1 = 0" "h AND mask ?k = 0"
    by (rule bit_word_eqI, auto simp: hb bit_simps)+
  have "x = h + push_bit ?k 1" using 1 disjunctive_add_eq_or [OF 2(1)] by simp
  then have "x - 1 = h + (push_bit ?k 1 - 1)" by simp
  also have "push_bit ?k 1 - 1 = (mask ?k :: 'a word)" by (simp add: mask_eq_exp_minus_1 push_bit_eq_mult)
  also have "h + mask ?k = h OR mask ?k" by (rule disjunctive_add_eq_or [OF 2(2)])
  finally show ?thesis using j by (auto simp: hb bit_simps)
qed

lemma and_dec_bit:
  fixes x :: "'a::len word"
  assumes "x \<noteq> 0"
  shows "x AND (x - 1) = unset_bit (lowest_bit x) x"
  by (rule bit_word_eqI) (use lowest_bit_split [OF assms] in \<open>auto simp: bit_simps dec_bits [OF assms]\<close>)

lemma and_neg_bit:
  fixes x :: "'a::len word"
  assumes "x \<noteq> 0"
  shows "x AND - x = push_bit (lowest_bit x) 1"
proof -
  have neg: "- x = NOT (x - 1)" by (simp add: not_eq_complement)
  show ?thesis
    unfolding neg
    by (rule bit_word_eqI) (use lowest_bit_split [OF assms] in \<open>auto simp: bit_simps dec_bits [OF assms]\<close>)
qed

lemma single_bit_iff:
  fixes x :: "'a::len word"
  shows "x \<noteq> 0 \<and> x AND (x - 1) = 0 \<longleftrightarrow> (\<exists>k < LENGTH('a). x = push_bit k 1)"
proof
  assume *: "x \<noteq> 0 \<and> x AND (x - 1) = 0"
  note k = lowest_bit_split [OF conjunct1 [OF *]]
  have "bit x j \<longleftrightarrow> j = lowest_bit x" if "j < LENGTH('a)" for j
  proof -
    have "\<not> bit (unset_bit (lowest_bit x) x) j" using * and_dec_bit [of x] by simp
    then show ?thesis using k(1) by (auto simp: bit_simps)
  qed
  then have "x = push_bit (lowest_bit x) 1"
    by (intro bit_word_eqI) (auto simp: bit_simps)
  then show "\<exists>k < LENGTH('a). x = push_bit k 1" using k(2) by blast
next
  assume "\<exists>k < LENGTH('a). x = push_bit k 1"
  then obtain k where k: "k < LENGTH('a)" "x = push_bit k 1" by blast
  have "bit x k" using k by (simp add: bit_simps)
  then have "x \<noteq> 0" by auto
  moreover have "lowest_bit x = k"
    using lowest_bit_split(1) [OF \<open>x \<noteq> 0\<close>] k by (auto simp: bit_simps)
  then have "x AND (x - 1) = 0"
    unfolding and_dec_bit [OF \<open>x \<noteq> 0\<close>] by (intro bit_word_eqI) (auto simp: k(2) bit_simps)
  ultimately show "x \<noteq> 0 \<and> x AND (x - 1) = 0" by simp
qed

lemma isPowerOfTwo_iff:
  "isPowerOfTwo32 x \<longleftrightarrow> (\<exists>k < 32. x = push_bit k 1)"
  "isPowerOfTwo64 y \<longleftrightarrow> (\<exists>k < 64. y = push_bit k 1)"
  using single_bit_iff [of x] single_bit_iff [of y] by (auto simp: isPowerOfTwo32_def isPowerOfTwo64_def)

lemma withoutRightmostBit_eq:
  "x \<noteq> 0 \<Longrightarrow> withoutRightmostBit32 x = unset_bit (lowest_bit x) x"
  "y \<noteq> 0 \<Longrightarrow> withoutRightmostBit64 y = unset_bit (lowest_bit y) y"
  by (simp_all add: withoutRightmostBit32_def withoutRightmostBit64_def and_dec_bit)

lemma indexOfRightmostBit_eq:
  "x \<noteq> 0 \<Longrightarrow> indexOfRightmostBit32 x = lowest_bit x"
  "y \<noteq> 0 \<Longrightarrow> indexOfRightmostBit64 y = lowest_bit y"
  using lowest_bit_split(2) [of x] lowest_bit_split(2) [of y]
  by (simp_all add: indexOfRightmostBit32_def indexOfRightmostBit64_def isolateRightmostBit32_def
      isolateRightmostBit64_def and_neg_bit
      indexOfSingleBit32_single [simplified] indexOfSingleBit64_single [simplified])

section \<open>Properties\<close>

text \<open>
  C13.  The 64-bit tricks on a non-zero word: \<open>indexOfRightmostBit\<close> is the position of the lowest set
  bit, \<open>withoutRightmostBit\<close> clears that bit and nothing else, \<open>isolateRightmostBit\<close> keeps only that bit,
  and \<open>isPowerOfTwo\<close> says whether it is the only one, whose index \<open>indexOfSingleBit\<close> then finds.
\<close>

theorem rightmost_bit_correct:
  assumes "x \<noteq> 0"
  shows "bit x (indexOfRightmostBit64 x) \<and> (\<forall>j < indexOfRightmostBit64 x. \<not> bit x j) \<and>
    withoutRightmostBit64 x = unset_bit (indexOfRightmostBit64 x) x \<and>
    isolateRightmostBit64 x = 2 ^ indexOfRightmostBit64 x \<and>
    (isPowerOfTwo64 x \<longleftrightarrow> x = 2 ^ indexOfSingleBit64 x)"
proof -
  have k: "indexOfRightmostBit64 x = lowest_bit x" by (rule indexOfRightmostBit_eq(2) [OF assms])
  have "isPowerOfTwo64 x \<longleftrightarrow> x = 2 ^ indexOfSingleBit64 x"
  proof
    assume "isPowerOfTwo64 x"
    then obtain k where "k < 64" "x = push_bit k 1" using isPowerOfTwo_iff(2) by blast
    then show "x = 2 ^ indexOfSingleBit64 x" using indexOfSingleBit64_single [of k] by simp
  next
    assume *: "x = 2 ^ indexOfSingleBit64 x"
    have "indexOfSingleBit64 x < 64"
    proof (rule ccontr)
      assume "\<not> indexOfSingleBit64 x < 64"
      then have "2 ^ indexOfSingleBit64 x = (0 :: 64 word)" by (simp add: exp_eq_zero_iff)
      then show False using * assms by simp
    qed
    then show "isPowerOfTwo64 x" using * isPowerOfTwo_iff(2) [of x] by auto
  qed
  then show ?thesis
    using lowest_bit_split [OF assms] withoutRightmostBit_eq(2) [OF assms] and_neg_bit [OF assms]
    by (auto simp: k isolateRightmostBit64_def)
qed

theorem rightmost_bit_correct_witness:
  "withoutRightmostBit64 0x50 = 0x40 \<and> indexOfRightmostBit64 0x50 = 4 \<and> \<not> isPowerOfTwo64 0x50"
proof -
  have i: "indexOfRightmostBit64 0x50 = 4"
    by (simp add: indexOfRightmostBit64_def isolateRightmostBit64_def indexOfSingleBit64_def indexOfSingleBit32_def)
  show ?thesis
    using rightmost_bit_correct [of "0x50"] by (simp add: i unset_bit_eq_and_not indexOfSingleBit64_def indexOfSingleBit32_def)
qed

end
