(* ===== verification/Expr_Cast.thy ===== *)
theory Expr_Cast
  imports Expr_Sem Bits
begin

text \<open>
  The constructors that change widths: \<open>ExtractExpr::create\<close>, \<open>ZExtExpr::create\<close>,
  \<open>SExtExpr::create\<close>, \<open>ConcatExpr::create\<close> and the local rewrites \<open>SimplifyExtractLShr\<close> and
  \<open>SimplifyExtractAndZext\<close> of \<open>klee/lib/Expr/Expr.cpp\<close>.  They call each other recursively through
  \<open>ExtractExpr::create\<close>; the functions with suffix \<open>_by\<close> take it as their argument \<open>ext\<close>, and the
  knot is tied in \<open>Extract_create\<close>, whose termination is proved from the size of the extracted
  expression.
\<close>

section \<open>Definitions\<close>

definition SimplifyExtractAndZext :: "'a ops \<Rightarrow> 'a expr \<Rightarrow> 'a expr" where
  "SimplifyExtractAndZext A e =
     (case dyn_cast_Extract e of None \<Rightarrow> e
      | Some (ex, off, w) \<Rightarrow>
          if off \<noteq> 0 then e else
          (case dyn_cast_Bin And ex of None \<Rightarrow> e
           | Some (k0, k1) \<Rightarrow>
               (case dyn_cast_ZExt k0 of None \<Rightarrow> e
                | Some (X, zw) \<Rightarrow>
                    (case dyn_cast_Constant k1 of None \<Rightarrow> e
                     | Some mk \<Rightarrow>
                         if ap_getZExtValue A mk \<noteq> unat (bitmask64 (getWidth A X)) then e
                         else if w = getWidth A X then X else e))))"

text \<open>
  The sum of the shift amount and the width is a sum of \<open>uint64_t\<close>, the offset passed on is
  truncated to \<open>unsigned\<close>.
\<close>

definition SimplifyExtractLShr_by ::
    "('a expr \<Rightarrow> nat \<Rightarrow> nat \<Rightarrow> 'a expr) \<Rightarrow> 'a ops \<Rightarrow> 'a expr \<Rightarrow> 'a expr" where
  "SimplifyExtractLShr_by ext A e =
     (case dyn_cast_Extract e of None \<Rightarrow> e
      | Some (ex, off, w) \<Rightarrow>
          if off \<noteq> 0 then e else
          (case dyn_cast_Bin LShr ex of None \<Rightarrow> e
           | Some (l, r) \<Rightarrow>
               (case dyn_cast_Constant r of None \<Rightarrow> e
                | Some shift \<Rightarrow>
                    (let offset = ap_getLimitedValue A shift UINT64_MAX in
                     if offset mod 8 \<noteq> 0 then e
                     else if \<not> to_u64 (offset + w) \<le> getWidth A l then e
                     else ext l (to_u32 offset) w))))"

definition ZExt_by ::
    "('a expr \<Rightarrow> nat \<Rightarrow> nat \<Rightarrow> 'a expr) \<Rightarrow> 'a ops \<Rightarrow> 'a expr \<Rightarrow> nat \<Rightarrow> 'a expr" where
  "ZExt_by ext A e w =
     (let kBits = getWidth A e in
      if w = kBits then e
      else if w < kBits then ext e 0 w
      else case dyn_cast_Constant e of Some c \<Rightarrow> ConstantExpr (ConstantExpr_ZExt A c w)
        | None \<Rightarrow>
      (case dyn_cast_ZExt e of
         Some (x, zw) \<Rightarrow> if zw < w then ZExtExpr x w else ZExtExpr e w
       | None \<Rightarrow> ZExtExpr e w))"

definition SExt_by ::
    "('a expr \<Rightarrow> nat \<Rightarrow> nat \<Rightarrow> 'a expr) \<Rightarrow> 'a ops \<Rightarrow> 'a expr \<Rightarrow> nat \<Rightarrow> 'a expr" where
  "SExt_by ext A e w =
     (let kBits = getWidth A e in
      if w = kBits then e
      else if w < kBits then ext e 0 w
      else case dyn_cast_Constant e of Some c \<Rightarrow> ConstantExpr (ConstantExpr_SExt A c w)
        | None \<Rightarrow> SExtExpr e w)"

definition Concat_by ::
    "('a expr \<Rightarrow> nat \<Rightarrow> nat \<Rightarrow> 'a expr) \<Rightarrow> 'a ops \<Rightarrow> 'a expr \<Rightarrow> 'a expr \<Rightarrow> 'a expr" where
  "Concat_by ext A l r =
     (let w = getWidth A l + getWidth A r;
          merge = (case (dyn_cast_Extract l, dyn_cast_Extract r) of
              (Some (el, ol, wl), Some (er, o2, wr)) \<Rightarrow>
                if el = er \<and> o2 + wr = ol then ext el o2 w else ConcatExpr l r
            | _ \<Rightarrow> ConcatExpr l r)
      in case dyn_cast_Constant l of
           Some lc \<Rightarrow>
             (case dyn_cast_Constant r of
                Some rc \<Rightarrow> ConstantExpr (ConstantExpr_Concat A lc rc)
              | None \<Rightarrow> if const_isZero A lc then ZExt_by ext A r w else merge)
         | None \<Rightarrow> merge)"

text \<open>The end of \<open>ExtractExpr::create\<close>: allocate the node, then try the two rewrites.\<close>

definition Extract_alloc_by ::
    "('a expr \<Rightarrow> nat \<Rightarrow> nat \<Rightarrow> 'a expr) \<Rightarrow> 'a ops \<Rightarrow> 'a expr \<Rightarrow> nat \<Rightarrow> nat \<Rightarrow> 'a expr" where
  "Extract_alloc_by ext A e off w =
     SimplifyExtractLShr_by ext A (SimplifyExtractAndZext A (ExtractExpr e off w))"

lemma SimplifyExtractAndZext_size:
  "SimplifyExtractAndZext A (ExtractExpr e off w) = ExtractExpr e' off' w' \<Longrightarrow> size e' \<le> size e"
  by (auto simp: SimplifyExtractAndZext_def split: option.splits if_splits)

lemma SimplifyExtractLShr_by_cong:
  assumes "\<And>l r off w. e = ExtractExpr (BinaryExpr LShr l r) 0 w \<Longrightarrow> ext l off w = ext' l off w"
  shows "SimplifyExtractLShr_by ext A e = SimplifyExtractLShr_by ext' A e"
  using assms by (auto simp: SimplifyExtractLShr_by_def Let_def split: option.splits)

lemma Extract_alloc_by_cong [fundef_cong]:
  assumes "A = A'" and "e = e'" and "off = off'" and "w = w'"
    and "\<And>x o2 w2. size x < size e' \<Longrightarrow> ext x o2 w2 = ext' x o2 w2"
  shows "Extract_alloc_by ext A e off w = Extract_alloc_by ext' A' e' off' w'"
  unfolding Extract_alloc_by_def assms(1-4)
  by (rule SimplifyExtractLShr_by_cong) (use assms(5) in \<open>force dest: SimplifyExtractAndZext_size\<close>)

lemma ZExt_by_cong [fundef_cong]:
  assumes "A = A'" and "e = e'" and "w = w'"
    and "w' < getWidth A' e' \<Longrightarrow> ext e' 0 w' = ext' e' 0 w'"
  shows "ZExt_by ext A e w = ZExt_by ext' A' e' w'"
  using assms by (auto simp: ZExt_by_def Let_def split: option.splits)

lemma SExt_by_cong [fundef_cong]:
  assumes "A = A'" and "e = e'" and "w = w'"
    and "w' < getWidth A' e' \<Longrightarrow> ext e' 0 w' = ext' e' 0 w'"
  shows "SExt_by ext A e w = SExt_by ext' A' e' w'"
  using assms by (auto simp: SExt_by_def Let_def split: option.splits)

lemma Concat_by_cong [fundef_cong]:
  assumes "A = A'" and "l = l'" and "r = r'"
    and "\<And>x ol wl o2 w. l' = ExtractExpr x ol wl \<Longrightarrow> ext x o2 w = ext' x o2 w"
  shows "Concat_by ext A l r = Concat_by ext' A' l' r'"
  using assms
  by (auto simp: Concat_by_def Let_def split: option.splits intro!: ZExt_by_cong)

text \<open>
  \<open>ExtractExpr::create\<close>.  The second \<open>ZExtExpr\<close> branch of the source, after the \<open>SExtExpr\<close> one, is
  never reached: the first test catches every zero extension.
\<close>

function (domintros) Extract_create :: "'a ops \<Rightarrow> 'a expr \<Rightarrow> nat \<Rightarrow> nat \<Rightarrow> 'a expr" where
  "Extract_create A e off w =
     (if w = getWidth A e then e
      else case dyn_cast_Constant e of Some c \<Rightarrow> ConstantExpr (ConstantExpr_Extract A c off w)
        | None \<Rightarrow>
      (case dyn_cast_ZExt e of
         Some (x, zew) \<Rightarrow>
           if getWidth A x = w \<and> off = 0 then x
           else if w \<le> zew \<and> getWidth A x \<le> w \<and> off = 0 then ZExt_by (Extract_create A) A x w
           else Extract_alloc_by (Extract_create A) A e off w
       | None \<Rightarrow>
      (case dyn_cast_Concat e of
         Some (l, r) \<Rightarrow>
           if getWidth A r \<le> off then Extract_create A l (off - getWidth A r) w
           else if off + w \<le> getWidth A r then Extract_create A r off w
           else Concat_by (Extract_create A) A
                  (Extract_create A l 0 (w + off - getWidth A r))
                  (Extract_create A r off (getWidth A r - off))
       | None \<Rightarrow>
      (case dyn_cast_SExt e of
         Some (x, sw) \<Rightarrow>
           if off = 0 \<and> w = 8 \<and> getWidth A x = 8 then x
           else if off = 0 then SExt_by (Extract_create A) A x w
           else Extract_alloc_by (Extract_create A) A e off w
       | None \<Rightarrow> Extract_alloc_by (Extract_create A) A e off w))))"
  by pat_completeness auto

text \<open>The extracts in a result read from no larger an expression, hence the function is total.\<close>

lemma ZExt_by_Extract:
  "ZExt_by ext A e w = ExtractExpr e' off' w' \<Longrightarrow>
     e = ExtractExpr e' off' w' \<or> (w < getWidth A e \<and> ext e 0 w = ExtractExpr e' off' w')"
  by (auto simp: ZExt_by_def Let_def split: option.splits if_splits)

lemma SExt_by_Extract:
  "SExt_by ext A e w = ExtractExpr e' off' w' \<Longrightarrow>
     e = ExtractExpr e' off' w' \<or> (w < getWidth A e \<and> ext e 0 w = ExtractExpr e' off' w')"
  by (auto simp: SExt_by_def Let_def split: option.splits if_splits)

lemma Concat_by_Extract:
  "Concat_by ext A l r = ExtractExpr e' off' w' \<Longrightarrow>
     r = ExtractExpr e' off' w' \<or>
     (\<exists>x ol wl o2 w. l = ExtractExpr x ol wl \<and> ext x o2 w = ExtractExpr e' off' w')"
  by (auto simp: Concat_by_def Let_def dest: ZExt_by_Extract split: option.splits if_splits)

lemma Extract_alloc_by_Extract:
  assumes "Extract_alloc_by ext A e off w = ExtractExpr e' off' w'"
  shows "size e' \<le> size e \<or> (\<exists>x o2 w2. size x < size e \<and> ext x o2 w2 = ExtractExpr e' off' w')"
proof -
  have "SimplifyExtractAndZext A (ExtractExpr e off w) = ExtractExpr e' off' w' \<or>
     (\<exists>l r off2 w2. SimplifyExtractAndZext A (ExtractExpr e off w) = ExtractExpr (BinaryExpr LShr l r) 0 w2
       \<and> ext l off2 w2 = ExtractExpr e' off' w')"
    using assms
    by (auto simp: Extract_alloc_by_def SimplifyExtractLShr_by_def Let_def split: option.splits if_splits)
  then show ?thesis by (force dest: SimplifyExtractAndZext_size)
qed

lemma Extract_create_dom_size:
  "Extract_create_dom (A, e, off, w) \<and>
   (\<forall>e' off' w'. Extract_create A e off w = ExtractExpr e' off' w' \<longrightarrow> size e' \<le> size e)"
proof (induction e arbitrary: off w rule: measure_induct_rule [of size])
  case (less e)
  have dom: "Extract_create_dom (A, x, o2, w2)" if "size x < size e" for x o2 w2
    using less that by blast
  have le: "size e' \<le> size x" if "size x < size e" "Extract_create A x o2 w2 = ExtractExpr e' off' w'"
    for x o2 w2 e' off' w'
    using less that by blast
  have d: "Extract_create_dom (A, e, off, w)"
    by (rule Extract_create.domintros) (auto intro!: dom dest!: le [rotated])
  have "size e' \<le> size e" if "Extract_create A e off w = ExtractExpr e' off' w'" for e' off' w'
    using that
    by (auto simp: Extract_create.psimps [OF d] split: option.splits if_splits
      dest!: ZExt_by_Extract SExt_by_Extract Concat_by_Extract Extract_alloc_by_Extract le [rotated])
  with d show ?case by blast
qed

termination Extract_create
  using Extract_create_dom_size by auto

declare Extract_create.simps [simp del]

definition ZExt_create :: "'a ops \<Rightarrow> 'a expr \<Rightarrow> nat \<Rightarrow> 'a expr" where
  "ZExt_create A e w = ZExt_by (Extract_create A) A e w"

definition SExt_create :: "'a ops \<Rightarrow> 'a expr \<Rightarrow> nat \<Rightarrow> 'a expr" where
  "SExt_create A e w = SExt_by (Extract_create A) A e w"

definition Concat_create :: "'a ops \<Rightarrow> 'a expr \<Rightarrow> 'a expr \<Rightarrow> 'a expr" where
  "Concat_create A l r = Concat_by (Extract_create A) A l r"

text \<open>\<open>ConcatExpr::createN\<close>, \<open>create4\<close> and \<open>create8\<close>; \<open>None\<close> is the failing assert on no kids.\<close>

fun Concat_createN :: "'a ops \<Rightarrow> 'a expr list \<Rightarrow> 'a expr option" where
  "Concat_createN A [] = None"
| "Concat_createN A [k] = Some k"
| "Concat_createN A (k # ks) = map_option (Concat_create A k) (Concat_createN A ks)"

definition Concat_create4 :: "'a ops \<Rightarrow> 'a expr \<Rightarrow> 'a expr \<Rightarrow> 'a expr \<Rightarrow> 'a expr \<Rightarrow> 'a expr" where
  "Concat_create4 A k1 k2 k3 k4 =
     Concat_create A k1 (Concat_create A k2 (Concat_create A k3 k4))"

definition Concat_create8 :: "'a ops \<Rightarrow> 'a expr \<Rightarrow> 'a expr \<Rightarrow> 'a expr \<Rightarrow> 'a expr \<Rightarrow>
    'a expr \<Rightarrow> 'a expr \<Rightarrow> 'a expr \<Rightarrow> 'a expr \<Rightarrow> 'a expr" where
  "Concat_create8 A k1 k2 k3 k4 k5 k6 k7 k8 =
     Concat_create A k1 (Concat_create A k2 (Concat_create A k3 (Concat_create A k4
       (Concat_create4 A k5 k6 k7 k8))))"

definition Not_create :: "'a ops \<Rightarrow> 'a expr \<Rightarrow> 'a expr" where
  "Not_create A e =
     (case dyn_cast_Constant e of Some c \<Rightarrow> ConstantExpr (ConstantExpr_Not A c) | None \<Rightarrow> NotExpr e)"

section \<open>The constructors compute the operation they name\<close>

context apint
begin

lemma ZExt_by_denotes:
  assumes "denotes A \<sigma> e kw a" and "width_ok w"
    and "w < kw \<Longrightarrow> denotes A \<sigma> (ext e 0 w) w (take_bit w a)"
  shows "denotes A \<sigma> (ZExt_by ext A e w) w (take_bit w a)"
proof -
  have [simp]: "getWidth A e = kw" "take_bit kw a = a"
    using assms(1) denotes_take_bit by (auto simp: denotes_def)
  have "take_bit w a = a" if "kw \<le> w"
    using that denotes_fits [OF assms(1)] fits_mono fits_iff_take_bit by blast
  then show ?thesis
    using assms ConstantExpr_ZExt_denotes [of \<sigma> _ kw a w]
    by (auto simp: ZExt_by_def Let_def dest!: denotes_ZExt [THEN iffD1] intro!: denotes_ZExtI
        split: option.splits)
qed

lemma SExt_by_denotes:
  assumes "denotes A \<sigma> e kw a" and "width_ok w"
    and "w < kw \<Longrightarrow> denotes A \<sigma> (ext e 0 w) w (take_bit w a)"
  shows "denotes A \<sigma> (SExt_by ext A e w) w (take_bit w (signed_take_bit (kw - Suc 0) a))"
proof -
  have [simp]: "getWidth A e = kw" "take_bit kw a = a" and "0 < kw"
    using assms(1) denotes_take_bit denotes_width_ok by (auto simp: denotes_def width_ok_def)
  then have "take_bit kw (signed_take_bit (kw - Suc 0) a) = a"
    by (metis Suc_pred take_bit_signed_take_bit order_refl)
  then show ?thesis
    using assms ConstantExpr_SExt_denotes [of \<sigma> _ kw a w]
    by (auto simp: SExt_by_def Let_def take_bit_signed_take_bit_low intro: denotes_SExtI
        split: option.splits)
qed

lemma Concat_by_denotes:
  assumes "denotes A \<sigma> l w1 a" and "denotes A \<sigma> r w2 b" and "width_ok (w1 + w2)"
    and ext: "\<And>x ol wl kw v o2 w. l = ExtractExpr x ol wl \<Longrightarrow> denotes A \<sigma> x kw v \<Longrightarrow> 0 < w \<Longrightarrow>
      o2 + w \<le> kw \<Longrightarrow> denotes A \<sigma> (ext x o2 w) w (take_bit w (drop_bit o2 v))"
  shows "denotes A \<sigma> (Concat_by ext A l r) (w1 + w2) (cat_bits w2 a b)"
proof -
  have w: "getWidth A l = w1" "getWidth A r = w2" using assms by (auto simp: denotes_def)
  have z: "denotes A \<sigma> (ZExt_by ext A r (w1 + w2)) (w1 + w2) b"
    using ZExt_by_denotes [OF assms(2,3)] denotes_fits [OF assms(2)] fits_mono [of w2 b "w1 + w2"]
    by (simp add: fits_iff_take_bit)
  have m: "denotes A \<sigma> (ext x o2 (w1 + w2)) (w1 + w2) (cat_bits w2 a b)"
    if "l = ExtractExpr x (o2 + w2) w1" and "r = ExtractExpr x o2 w2" for x o2
    using assms(1,2,3) that ext [OF that(1)]
    by (auto simp: sem_simps cat_bits_extract width_ok_def dest: denotes_fun)
  have c: "denotes A \<sigma> (ConcatExpr l r) (w1 + w2) (cat_bits w2 a b)"
    using assms by (intro denotes_ConcatI)
  have merge: "denotes A \<sigma> (case (dyn_cast_Extract l, dyn_cast_Extract r) of
              (Some (el, ol, wl), Some (er, o2, wr)) \<Rightarrow>
                if el = er \<and> o2 + wr = ol then ext el o2 (w1 + w2) else ConcatExpr l r
            | _ \<Rightarrow> ConcatExpr l r) (w1 + w2) (cat_bits w2 a b)"
    using c m w by (auto split: option.splits)
  have zero: "a = 0" if "l = ConstantExpr lc" "const_isZero A lc" for lc
    using that assms(1) by (auto simp: const_isZero_def apint_simps dest: denotes_ConstantD)
  show ?thesis
    using merge z zero assms(1-3) ConstantExpr_Concat_denotes [of \<sigma> _ w1 a _ w2 b]
    by (auto simp: Concat_by_def Let_def w cat_bits_zero split: option.split)
qed
lemma SimplifyExtractAndZext_denotes:
  assumes "denotes A \<sigma> e w v"
  shows "denotes A \<sigma> (SimplifyExtractAndZext A e) w v"
proof -
  have "denotes A \<sigma> X w v"
    if e: "e = ExtractExpr (BinaryExpr And (ZExtExpr X zw) (ConstantExpr mk)) 0 (getWidth A X)"
      and mk: "ap_getZExtValue A mk = unat (bitmask64 (getWidth A X))" for X zw mk
  proof -
    obtain a where a: "denotes A \<sigma> X w a" and "w \<le> zw" "zw \<le> 64" "getBitWidth A mk = zw"
      "v = take_bit w (a AND ap_uint A mk)" "getWidth A X = w"
      using assms unfolding e by (auto simp: sem_simps bin_safe_def) (auto simp: denotes_def)
    moreover from this have "ap_uint A mk = mask w"
      using mk zext_value_int [of mk] unat_bitmask64 [of w] by simp
    ultimately show ?thesis using denotes_take_bit [OF a] by (simp add: and_mask_take_bit)
  qed
  then show ?thesis
    using assms by (auto simp: SimplifyExtractAndZext_def split: option.split)
qed

lemma SimplifyExtractLShr_by_denotes:
  assumes "denotes A \<sigma> e w v"
    and ext: "\<And>l r kw a off. e = ExtractExpr (BinaryExpr LShr l r) 0 w \<Longrightarrow> denotes A \<sigma> l kw a \<Longrightarrow>
      0 < w \<Longrightarrow> off + w \<le> kw \<Longrightarrow> denotes A \<sigma> (ext l off w) w (take_bit w (drop_bit off a))"
  shows "denotes A \<sigma> (SimplifyExtractLShr_by ext A e) w v"
proof -
  have "denotes A \<sigma> (ext l (to_u32 offset) w) w v"
    if e: "e = ExtractExpr (BinaryExpr LShr l (ConstantExpr s)) 0 w"
      and o: "offset = ap_getLimitedValue A s UINT64_MAX"
      and le: "to_u64 (offset + w) \<le> getWidth A l" for l s offset
  proof -
    obtain kw a where a: "denotes A \<sigma> l kw a" and "0 < w" "w \<le> kw" "ap_uint A s < 2 ^ 63"
      and v: "v = take_bit w (drop_bit (nat (ap_uint A s)) a)"
      using assms(1) unfolding e by (auto simp: sem_simps bin_safe_def)
    moreover have "kw < 2 ^ 32" "getWidth A l = kw"
      using denotes_width_ok [OF a] a by (auto simp: width_ok_def denotes_def)
    moreover have "offset = nat (ap_uint A s)"
      using \<open>ap_uint A s < 2 ^ 63\<close> by (simp add: o limited_value UINT64_MAX_def)
    moreover from this have "offset < 2 ^ 63"
      using \<open>ap_uint A s < 2 ^ 63\<close> uint_fits [of s] by (simp add: fits_def nat_less_iff)
    ultimately have "offset + w \<le> kw" "to_u32 offset = offset"
      using le by (auto simp: to_u64_def to_u32_def)
    then show ?thesis using ext [OF e a \<open>0 < w\<close>] v \<open>offset = nat (ap_uint A s)\<close> by simp
  qed
  moreover have "getWidth A e = w" using assms(1) by (simp add: denotes_def)
  ultimately show ?thesis
    using assms(1) by (auto simp: SimplifyExtractLShr_by_def Let_def split: option.split)
qed

lemma Extract_alloc_by_denotes:
  assumes "denotes A \<sigma> e kw a" and "0 < w" and "off + w \<le> kw"
    and ext: "\<And>x kw a off. size x < size e \<Longrightarrow> denotes A \<sigma> x kw a \<Longrightarrow> 0 < w \<Longrightarrow>
      off + w \<le> kw \<Longrightarrow> denotes A \<sigma> (ext x off w) w (take_bit w (drop_bit off a))"
  shows "denotes A \<sigma> (Extract_alloc_by ext A e off w) w (take_bit w (drop_bit off a))"
  unfolding Extract_alloc_by_def
proof (rule SimplifyExtractLShr_by_denotes)
  show "denotes A \<sigma> (SimplifyExtractAndZext A (ExtractExpr e off w)) w (take_bit w (drop_bit off a))"
    using assms(1-3) by (intro SimplifyExtractAndZext_denotes denotes_ExtractI) auto
  show "denotes A \<sigma> (ext l off2 w) w (take_bit w (drop_bit off2 b))"
    if "SimplifyExtractAndZext A (ExtractExpr e off w) = ExtractExpr (BinaryExpr LShr l r) 0 w"
      and "denotes A \<sigma> l kw2 b" "0 < w" "off2 + w \<le> kw2" for l r kw2 b off2
    using SimplifyExtractAndZext_size [OF that(1)] that ext by auto
qed

lemma Extract_create_denotes:
  "denotes A \<sigma> e kw a \<Longrightarrow> 0 < w \<Longrightarrow> off + w \<le> kw \<Longrightarrow>
   denotes A \<sigma> (Extract_create A e off w) w (take_bit w (drop_bit off a))"
proof (induction e arbitrary: kw a off w rule: measure_induct_rule [of size])
  case (less e)
  have kw [simp]: "getWidth A e = kw" using less.prems by (auto simp: denotes_def)
  have ok: "width_ok w" using less.prems width_ok_mono denotes_width_ok add_leD2 by blast
  have alloc: "denotes A \<sigma> (Extract_alloc_by (Extract_create A) A e off w) w (take_bit w (drop_bit off a))"
    by (rule Extract_alloc_by_denotes [OF less.prems]) (rule less.IH)
  note eq = Extract_create.simps [of A e off w]
  show ?case
  proof (cases "w = kw")
    case True
    then show ?thesis using less.prems denotes_take_bit unfolding eq by auto
  next
    case False
    have other: ?thesis if "dyn_cast_Constant e = None" "dyn_cast_ZExt e = None"
        "dyn_cast_Concat e = None" "dyn_cast_SExt e = None"
      unfolding eq using that False alloc by simp
    show ?thesis
    proof (cases e)
      case (ConstantExpr c)
      with False less.prems kw show ?thesis
        unfolding eq by (auto simp: ConstantExpr_Extract_denotes)
    next
      case (ZExtExpr x zw)
      then obtain xw where x: "denotes A \<sigma> x xw a" "xw \<le> kw" "zw = kw" "getWidth A x = xw"
        using less.prems(1) by (auto simp: denotes_ZExt) (auto simp: denotes_def)
      moreover have "denotes A \<sigma> (ZExt_by (Extract_create A) A x w) w (take_bit w a)"
        using less.IH [of x xw a w 0] x ok less.prems ZExtExpr
        by (intro ZExt_by_denotes [OF x(1)]) (auto simp: width_ok_def)
      ultimately show ?thesis
        using False ZExtExpr alloc denotes_take_bit [OF x(1)] unfolding eq by auto
    next
      case (SExtExpr x sw)
      then obtain xw b where x: "denotes A \<sigma> x xw b" "xw \<le> kw" "sw = kw" "getWidth A x = xw"
        and a: "a = take_bit kw (signed_take_bit (xw - Suc 0) b)"
        using less.prems(1) by (auto simp: denotes_SExt) (auto simp: denotes_def)
      have "denotes A \<sigma> (SExt_by (Extract_create A) A x w) w (take_bit w (signed_take_bit (xw - Suc 0) b))"
        using less.IH [of x xw b w 0] x ok less.prems SExtExpr
        by (intro SExt_by_denotes [OF x(1)]) (auto simp: width_ok_def)
      moreover have "take_bit w a = take_bit w (signed_take_bit (xw - Suc 0) b)"
        using less.prems by (simp add: a min_absorb2 min_absorb1)
      moreover have "take_bit 8 (signed_take_bit (8 - Suc 0) b) = b" if "xw = 8"
        using that denotes_take_bit [OF x(1)] by (simp add: take_bit_signed_take_bit)
      ultimately show ?thesis
        using False SExtExpr alloc x unfolding eq by auto
    next
      case (ConcatExpr l r)
      then obtain w1 w2 b c where l: "denotes A \<sigma> l w1 b" and r: "denotes A \<sigma> r w2 c"
        and k: "kw = w1 + w2" "a = cat_bits w2 b c" "getWidth A r = w2" "getWidth A l = w1"
        using less.prems(1) by (auto simp: denotes_Concat) (auto simp: denotes_def)
      note fits = denotes_fits [OF r]
      have IH: "denotes A \<sigma> (Extract_create A x off2 w') w' (take_bit w' (drop_bit off2 v))"
        if "denotes A \<sigma> x kw' v" "0 < w'" "off2 + w' \<le> kw'" "size x < size e" for x kw' v off2 w'
        using less.IH [of x kw' v w' off2] that by blast
      have mid: "denotes A \<sigma> (Concat_by (Extract_create A) A (Extract_create A l 0 (w + off - w2))
          (Extract_create A r off (w2 - off))) w (take_bit w (drop_bit off a))"
        if m: "off < w2" "w2 < off + w"
      proof -
        have "denotes A \<sigma> (Concat_by (Extract_create A) A (Extract_create A l 0 (w + off - w2))
            (Extract_create A r off (w2 - off))) ((w + off - w2) + (w2 - off))
            (cat_bits (w2 - off) (take_bit (w + off - w2) b) (take_bit (w2 - off) (drop_bit off c)))"
        proof (rule Concat_by_denotes)
          show "denotes A \<sigma> (Extract_create A l 0 (w + off - w2)) (w + off - w2) (take_bit (w + off - w2) b)"
            using m k less.prems ConcatExpr IH [OF l, of "w + off - w2" 0] by simp
          show "denotes A \<sigma> (Extract_create A r off (w2 - off)) (w2 - off) (take_bit (w2 - off) (drop_bit off c))"
            using m ConcatExpr by (intro IH [OF r]) auto
          show "width_ok ((w + off - w2) + (w2 - off))" using m ok by simp
          show "denotes A \<sigma> (Extract_create A x o2 w') w' (take_bit w' (drop_bit o2 v))"
            if "Extract_create A l 0 (w + off - w2) = ExtractExpr x ol wl" "denotes A \<sigma> x kw' v"
              "0 < w'" "o2 + w' \<le> kw'" for x ol wl kw' v o2 w'
          proof (rule IH [OF that(2-4)])
            show "size x < size e"
              using that(1) ConcatExpr Extract_create_dom_size [of A l 0 "w + off - w2"] by auto
          qed
        qed
        then show ?thesis using m k fits by (simp add: take_bit_drop_bit_cat_bits_mid)
      qed
      consider "w2 \<le> off" | "off < w2" "off + w \<le> w2" | "off < w2" "w2 < off + w" by linarith
      then show ?thesis
      proof cases
        case 1
        then show ?thesis
          using False ConcatExpr k fits IH [OF l, of w "off - w2"] less.prems unfolding eq
          by (simp add: drop_bit_cat_bits)
      next
        case 2
        then show ?thesis
          using False ConcatExpr k fits IH [OF r, of w off] less.prems unfolding eq
          by (simp add: take_bit_drop_bit_cat_bits_low)
      next
        case 3
        then show ?thesis using False ConcatExpr k mid unfolding eq by simp
      qed
    qed (rule other; simp)+
  qed
qed

lemma ZExt_create_denotes:
  assumes "denotes A \<sigma> e kw a" and "width_ok w"
  shows "denotes A \<sigma> (ZExt_create A e w) w (take_bit w a)"
  unfolding ZExt_create_def
  by (rule ZExt_by_denotes [OF assms])
    (use Extract_create_denotes [OF assms(1), of w 0] assms(2) in \<open>simp add: width_ok_def\<close>)

lemma SExt_create_denotes:
  assumes "denotes A \<sigma> e kw a" and "width_ok w"
  shows "denotes A \<sigma> (SExt_create A e w) w (take_bit w (signed_take_bit (kw - Suc 0) a))"
  unfolding SExt_create_def
  by (rule SExt_by_denotes [OF assms])
    (use Extract_create_denotes [OF assms(1), of w 0] assms(2) in \<open>simp add: width_ok_def\<close>)

lemma Concat_create_denotes:
  assumes "denotes A \<sigma> l w1 a" and "denotes A \<sigma> r w2 b" and "width_ok (w1 + w2)"
  shows "denotes A \<sigma> (Concat_create A l r) (w1 + w2) (cat_bits w2 a b)"
  unfolding Concat_create_def by (rule Concat_by_denotes [OF assms]) (rule Extract_create_denotes)

lemma Not_create_denotes:
  "denotes A \<sigma> e w a \<Longrightarrow> denotes A \<sigma> (Not_create A e) w (take_bit w (NOT a))"
  by (auto simp: Not_create_def ConstantExpr_Not_denotes intro: denotes_NotI split: option.split)

text \<open>\<open>createN\<close> on kids of equal width, most significant first.\<close>

lemma Concat_createN_denotes:
  assumes "list_all2 (\<lambda>k v. denotes A \<sigma> k w v) ks vs" and "ks \<noteq> []" and "width_ok (length ks * w)"
  shows "\<exists>e. Concat_createN A ks = Some e \<and> denotes A \<sigma> e (length ks * w) (cat_list w vs)"
  using assms
proof (induction ks arbitrary: vs)
  case (Cons k ks)
  then obtain v us where vs: "vs = v # us" "denotes A \<sigma> k w v"
    and us: "list_all2 (\<lambda>k v. denotes A \<sigma> k w v) ks us"
    by (auto simp: list_all2_Cons1)
  show ?case
  proof (cases ks)
    case Nil
    with us vs show ?thesis by (simp add: cat_bits_def)
  next
    case (Cons k2 ks2)
    have "0 < w" using vs(2) denotes_width_ok by (auto simp: width_ok_def)
    with Cons Cons.prems have "width_ok (length ks * w)" by (auto simp: width_ok_def)
    with Cons.IH [OF us] Cons obtain e where e: "Concat_createN A ks = Some e"
      "denotes A \<sigma> e (length ks * w) (cat_list w us)" by auto
    have "denotes A \<sigma> (Concat_create A k e) (w + length ks * w) (cat_bits (length ks * w) v (cat_list w us))"
      using vs(2) e(2) Cons.prems(3) by (intro Concat_create_denotes) auto
    then show ?thesis
      using e(1) vs(1) Cons list_all2_lengthD [OF us, symmetric] by simp
  qed
qed simp

end

end
