(* ===== verification/Expr_Logic.thy ===== *)
theory Expr_Logic
  imports Expr_Cast
begin

text \<open>
  \<open>AndExpr::create\<close> and \<open>OrExpr::create\<close> of \<open>klee/lib/Expr/Expr.cpp\<close>: constant folding, merging of
  constants, elimination of negated operands, and the rewrite of unaligned reads.
\<close>

section \<open>Conjunction\<close>

text \<open>
  The rewrites \<open>(!r || b) && r == b && r\<close> of \<open>AndExpr_create\<close> and their duals in \<open>OrExpr_create\<close>:
  the operands of the recursive call when one operand contains the negation of the other, with
  \<open>k\<close> the kind of the compound operand.  The left operand is tried first.
\<close>

definition absorb_args :: "'a ops \<Rightarrow> binkind \<Rightarrow> 'a expr \<Rightarrow> 'a expr \<Rightarrow> ('a expr \<times> 'a expr) option" where
  "absorb_args A k l r =
     (case (case dyn_cast_Bin k l of
              Some (al, ar) \<Rightarrow>
                if isNegationOf A al r then Some (ar, r)
                else if isNegationOf A ar r then Some (al, r) else None
            | None \<Rightarrow> None) of
        Some p \<Rightarrow> Some p
      | None \<Rightarrow>
          (case dyn_cast_Bin k r of
             Some (al, ar) \<Rightarrow>
               if isNegationOf A al l then Some (l, ar)
               else if isNegationOf A ar l then Some (l, al) else None
           | None \<Rightarrow> None))"

lemma absorb_args_Some:
  "absorb_args A k l r = Some (l', r') \<Longrightarrow>
     (\<exists>n. (l = BinaryExpr k n l' \<or> l = BinaryExpr k l' n) \<and> r' = r \<and> isNegationOf A n r) \<or>
     (\<exists>n. (r = BinaryExpr k n r' \<or> r = BinaryExpr k r' n) \<and> l' = l \<and> isNegationOf A n l)"
  by (auto simp: absorb_args_def split: option.splits if_splits)

lemma absorb_args_size [termination_simp]:
  "absorb_args A k l r = Some (l', r') \<Longrightarrow> size l' + size r' < size l + size r"
  by (drule absorb_args_Some) auto

text \<open>
  \<open>AndExpr::create\<close> (the macro \<open>BCREATE_R\<close>) with \<open>AndExpr_createPartial\<close> and \<open>AndExpr_create\<close>;
  \<open>AndExpr_createPartialR\<close> only swaps the arguments of \<open>AndExpr_createPartial\<close>.
\<close>

function And_create :: "'a ops \<Rightarrow> 'a expr \<Rightarrow> 'a expr \<Rightarrow> 'a expr"
and AndExpr_createPartial :: "'a ops \<Rightarrow> 'a expr \<Rightarrow> 'a \<Rightarrow> 'a expr"
and AndExpr_create :: "'a ops \<Rightarrow> 'a expr \<Rightarrow> 'a expr \<Rightarrow> 'a expr" where
  "And_create A l r =
     (case dyn_cast_Constant l of
        Some cl \<Rightarrow>
          (case dyn_cast_Constant r of
             Some cr \<Rightarrow> ConstantExpr (ConstantExpr_op A And cl cr)
           | None \<Rightarrow> AndExpr_createPartial A r cl)
      | None \<Rightarrow>
          (case dyn_cast_Constant r of
             Some cr \<Rightarrow> AndExpr_createPartial A l cr
           | None \<Rightarrow> AndExpr_create A l r))"
| "AndExpr_createPartial A l cr =
     (if const_isAllOnes A cr then l
      else if const_isZero A cr then ConstantExpr cr
      else case dyn_cast_Bin Or l of
        Some (a, k1) \<Rightarrow>
          (case dyn_cast_Constant k1 of
             Some b \<Rightarrow>
               if \<not> getBoolValue A (ap_and A cr b) then And_create A a (ConstantExpr cr)
               else BinaryExpr And l (ConstantExpr cr)
           | None \<Rightarrow> BinaryExpr And l (ConstantExpr cr))
      | None \<Rightarrow>
      (case dyn_cast_Bin And l of
        Some (a, k1) \<Rightarrow>
          (case dyn_cast_Constant k1 of
             Some c2 \<Rightarrow> And_create A a (ConstantExpr (ConstantExpr_op A And cr c2))
           | None \<Rightarrow> BinaryExpr And l (ConstantExpr cr))
      | None \<Rightarrow> BinaryExpr And l (ConstantExpr cr)))"
| "AndExpr_create A l r =
     (if isNegationOf A l r then ConstantExpr_alloc A 0 1
      else case absorb_args A Or l r of
        Some (l', r') \<Rightarrow> And_create A l' r'
      | None \<Rightarrow> BinaryExpr And l r)"
  by pat_completeness auto
termination
  by (relation "measures [case_sum (\<lambda>(A, l, r). size l + size r)
      (case_sum (\<lambda>(A, l, cr). size l) (\<lambda>(A, l, r). size l + size r)),
      case_sum (\<lambda>_. 1) (\<lambda>_. 0)]")
    (auto simp: absorb_args_size)

declare And_create.simps [simp del] AndExpr_createPartial.simps [simp del] AndExpr_create.simps [simp del]
context apint
begin

lemma bin_safe_other: "k \<notin> {And, Shl, LShr} \<Longrightarrow> bin_safe A k w r"
  by (simp add: bin_safe_def)

lemma bin_safe_And [simp]: "bin_safe A And w r \<longleftrightarrow> w \<le> 64"
  by (simp add: bin_safe_def)

lemma denotes_AndI: "denotes A \<sigma> l w a \<Longrightarrow> denotes A \<sigma> r w b \<Longrightarrow> w \<le> 64 \<Longrightarrow>
    denotes A \<sigma> (BinaryExpr And l r) w (a AND b)"
  by (auto intro: denotes_BinI)

lemma const_isAllOnes_denotes: "const_isAllOnes A c \<Longrightarrow> denotes A \<sigma> (ConstantExpr c) w v \<Longrightarrow> v = mask w"
  by (auto simp: const_isAllOnes_def apint_simps sem_simps)

lemma const_isZero_denotes: "denotes A \<sigma> (ConstantExpr c) w v \<Longrightarrow> const_isZero A c \<longleftrightarrow> v = 0"
  by (auto simp: const_isZero_def apint_simps sem_simps)

text \<open>Absorption, with \<open>f\<close> the operation and \<open>k\<close> its dual.\<close>

lemma absorb_args_denotes:
  assumes "absorb_args A k l r = Some (l', r')" and "denotes A \<sigma> l w a" and "denotes A \<sigma> r w b"
    and "k \<in> {And, Or}"
  shows "\<exists>a' b'. denotes A \<sigma> l' w a' \<and> denotes A \<sigma> r' w b' \<and> 
    (k = Or \<longrightarrow> a AND b = a' AND b') \<and> (k = And \<longrightarrow> a OR b = a' OR b')"
proof -
  have one: "\<exists>a'. denotes A \<sigma> x w a' \<and> (k = Or \<longrightarrow> c AND d = a' AND d) \<and> (k = And \<longrightarrow> c OR d = a' OR d)"
    if e: "e = BinaryExpr k n x \<or> e = BinaryExpr k x n" and ec: "denotes A \<sigma> e w c"
      and f: "denotes A \<sigma> f w d" and n: "isNegationOf A n f" for e x n c d f
  proof -
    obtain u v where "denotes A \<sigma> x w u" "denotes A \<sigma> n w v" "c = bin_sem k w u v"
      using e ec assms(4) by (auto simp: denotes_Bin bin_sem.simps and.commute or.commute)
    with isNegationOf_denotes [OF n this(2) f] denotes_fits [OF this(1)] fits_1_cases [of u] assms(4)
    show ?thesis by auto
  qed
  show ?thesis
    using absorb_args_Some [OF assms(1)] one [of l _ l' a r b] one [of r _ r' b l a] assms(2,3)
    by (metis and.commute or.commute)
qed

lemma And_create_denotes:
  "denotes A \<sigma> l w a \<Longrightarrow> denotes A \<sigma> r w b \<Longrightarrow> w \<le> 64 \<Longrightarrow> denotes A \<sigma> (And_create A l r) w (a AND b)"
proof (induction "size l + size r" arbitrary: l r a b rule: less_induct)
  case less
  have IH: "denotes A \<sigma> (And_create A x y) w (c AND d)"
    if "size x + size y < size l + size r" "denotes A \<sigma> x w c" "denotes A \<sigma> y w d" for x y c d
    using less that by blast
  have partial: "denotes A \<sigma> (AndExpr_createPartial A x cc) w (c AND d)"
    if sz: "size x \<le> size l + size r" and x: "denotes A \<sigma> x w c" and cc: "denotes A \<sigma> (ConstantExpr cc) w d"
    for x cc c d
  proof -
    have alloc: "denotes A \<sigma> (BinaryExpr And x (ConstantExpr cc)) w (c AND d)"
      using x cc less.prems(3) by (rule denotes_AndI)
    have ones: "c AND d = c" if "const_isAllOnes A cc"
      using that denotes_take_bit [OF x] const_isAllOnes_denotes [OF that cc] by (simp add: and_mask_take_bit)
    have o: "denotes A \<sigma> (And_create A y (ConstantExpr cc)) w (c AND d)"
      if xy: "x = BinaryExpr Or y (ConstantExpr b)" "\<not> getBoolValue A (ap_and A cc b)" for y b
    proof -
      obtain u where u: "denotes A \<sigma> y w u" "c = u OR ap_uint A b" "d AND ap_uint A b = 0"
        using xy x cc by (auto simp: sem_simps apint_simps)
      then have "c AND d = u AND d" by (simp add: and.commute bit.conj_disj_distrib)
      with u(1) sz xy(1) cc show ?thesis by (auto intro: IH)
    qed
    have n: "denotes A \<sigma> (And_create A y (ConstantExpr (ConstantExpr_op A And cc b))) w (c AND d)"
      if xy: "x = BinaryExpr And y (ConstantExpr b)" for y b
    proof -
      obtain u v where u: "denotes A \<sigma> y w u" "denotes A \<sigma> (ConstantExpr b) w v" "c = u AND v"
        using xy x by (auto simp: denotes_Bin)
      have "denotes A \<sigma> (ConstantExpr (ConstantExpr_op A And cc b)) w (d AND v)"
        using ConstantExpr_op_denotes [OF cc u(2), of And] by simp
      with u(1) sz xy have "denotes A \<sigma> (And_create A y (ConstantExpr (ConstantExpr_op A And cc b))) w (u AND (d AND v))"
        by (intro IH) auto
      then show ?thesis by (simp add: u(3) ac_simps)
    qed
    show ?thesis
      using x cc alloc ones o n const_isZero_denotes [OF cc]
      by (auto simp: AndExpr_createPartial.simps [of A x] split: option.split)
  qed
  have absorb: "denotes A \<sigma> (And_create A x y) w (a AND b)" if "absorb_args A Or l r = Some (x, y)" for x y
    using absorb_args_denotes [OF that less.prems(1,2)] IH [OF absorb_args_size [OF that]] by auto
  have create: "denotes A \<sigma> (AndExpr_create A l r) w (a AND b)"
    using isNegationOf_denotes [OF _ less.prems(1,2)] denotes_AndI [OF less.prems] absorb
    by (auto simp: AndExpr_create.simps [of A l r] split: option.split intro!: denotes_alloc)
  show ?case
    using less.prems partial [of r b _ a] partial [of l a _ b] create ConstantExpr_op_denotes [of \<sigma> _ w a _ b And]
    by (auto simp: And_create.simps [of A l r] and.commute split: option.split)
qed

end

section \<open>Disjunction\<close>

text \<open>
  \<open>SimplifyUnalignedReadPattern\<close>: \<open>or(shl(a, s11), lshr(c, s22))\<close> with byte-sized shifts that add up
  to the width becomes a concatenation of bytes.  The two loops collect the bytes of \<open>a\<close> and of
  \<open>c\<close>, most significant first.  \<open>None\<close> is the failing assert of \<open>createN\<close> on an empty list.
\<close>

function unaligned_hi :: "'a ops \<Rightarrow> 'a expr \<Rightarrow> nat \<Rightarrow> nat \<Rightarrow> nat \<Rightarrow> 'a expr list" where
  "unaligned_hi A x w s11 i =
     (if i < w - s11 then Extract_create A x (w - 8 - s11 - i) 8 # unaligned_hi A x w s11 (i + 8)
      else [])"
  by pat_completeness auto
termination
  by (relation "measure (\<lambda>(A, x, w, s11, i). w - s11 - i)") auto

function unaligned_lo :: "'a ops \<Rightarrow> 'a expr \<Rightarrow> nat \<Rightarrow> int \<Rightarrow> 'a expr list" where
  "unaligned_lo A y s22 i =
     (if int s22 \<le> i then Extract_create A y (nat i) 8 # unaligned_lo A y s22 (i - 8) else [])"
  by pat_completeness auto
termination
  by (relation "measure (\<lambda>(A, y, s22, i). nat (i + 8 - int s22))") auto

definition shl_lshr_args ::
    "'a expr \<Rightarrow> 'a expr \<Rightarrow> (('a expr \<times> 'a expr) \<times> ('a expr \<times> 'a expr)) option" where
  "shl_lshr_args l r =
     (case (dyn_cast_Bin Shl l, dyn_cast_Bin LShr r) of
        (Some shle, Some lshre) \<Rightarrow> Some (shle, lshre)
      | _ \<Rightarrow> (case (dyn_cast_Bin Shl r, dyn_cast_Bin LShr l) of
                (Some shle, Some lshre) \<Rightarrow> Some (shle, lshre) | _ \<Rightarrow> None))"

definition SimplifyUnalignedReadPattern :: "'a ops \<Rightarrow> 'a expr \<Rightarrow> 'a expr option" where
  "SimplifyUnalignedReadPattern A e =
     (case dyn_cast_Bin Or e of None \<Rightarrow> Some e
      | Some (l, r) \<Rightarrow>
          (case shl_lshr_args l r of None \<Rightarrow> Some e
           | Some ((shll, shlr), (lshrl, lshrr)) \<Rightarrow>
               (case dyn_cast_Constant shlr of None \<Rightarrow> Some e
                | Some s1 \<Rightarrow>
                    (case dyn_cast_Constant lshrr of None \<Rightarrow> Some e
                     | Some s2 \<Rightarrow>
                         (let s11 = ap_getZExtValue A s1; s22 = ap_getZExtValue A s2;
                              w = getWidth A e in
                          if s11 mod 8 \<noteq> 0 \<or> s22 mod 8 \<noteq> 0 then Some e
                          else if to_u64 (s11 + s22) \<noteq> w then Some e
                          else Concat_createN A
                            (unaligned_hi A shll w s11 0 @ unaligned_lo A lshrl s22 (int w - 8)))))))"

lemma shl_lshr_args_Some:
  "shl_lshr_args l r = Some ((a, b), (c, d)) \<Longrightarrow>
   (l = BinaryExpr Shl a b \<and> r = BinaryExpr LShr c d) \<or> (r = BinaryExpr Shl a b \<and> l = BinaryExpr LShr c d)"
  by (auto simp: shl_lshr_args_def split: option.splits)

declare unaligned_hi.simps [simp del] unaligned_lo.simps [simp del]

text \<open>
  \<open>OrExpr::create\<close> with \<open>OrExpr_createPartial\<close> and \<open>OrExpr_create\<close>.  The last alternative, for the
  failing assert, is unreachable on typed operands (\<open>SimplifyUnalignedReadPattern_denotes\<close>).
\<close>

function Or_create :: "'a ops \<Rightarrow> 'a expr \<Rightarrow> 'a expr \<Rightarrow> 'a expr"
and OrExpr_createPartial :: "'a ops \<Rightarrow> 'a expr \<Rightarrow> 'a \<Rightarrow> 'a expr"
and OrExpr_create :: "'a ops \<Rightarrow> 'a expr \<Rightarrow> 'a expr \<Rightarrow> 'a expr" where
  "Or_create A l r =
     (case dyn_cast_Constant l of
        Some cl \<Rightarrow>
          (case dyn_cast_Constant r of
             Some cr \<Rightarrow> ConstantExpr (ConstantExpr_op A Or cl cr)
           | None \<Rightarrow> OrExpr_createPartial A r cl)
      | None \<Rightarrow>
          (case dyn_cast_Constant r of
             Some cr \<Rightarrow> OrExpr_createPartial A l cr
           | None \<Rightarrow> OrExpr_create A l r))"
| "OrExpr_createPartial A l cr =
     (if const_isAllOnes A cr then ConstantExpr cr
      else if const_isZero A cr then l
      else case dyn_cast_Bin Or l of
        Some (a, k1) \<Rightarrow>
          (case dyn_cast_Constant k1 of
             Some const2 \<Rightarrow> Or_create A a (ConstantExpr (ConstantExpr_op A Or cr const2))
           | None \<Rightarrow> BinaryExpr Or l (ConstantExpr cr))
      | None \<Rightarrow> BinaryExpr Or l (ConstantExpr cr))"
| "OrExpr_create A l r =
     (if isNegationOf A l r then ConstantExpr_alloc A 1 1
      else case absorb_args A And l r of
        Some (l', r') \<Rightarrow> Or_create A l' r'
      | None \<Rightarrow>
          (case SimplifyUnalignedReadPattern A (BinaryExpr Or l r) of
             Some e \<Rightarrow> e
           | None \<Rightarrow> BinaryExpr Or l r))"
  by pat_completeness auto
termination
  by (relation "measures [case_sum (\<lambda>(A, l, r). size l + size r)
      (case_sum (\<lambda>(A, l, cr). size l) (\<lambda>(A, l, r). size l + size r)),
      case_sum (\<lambda>_. 1) (\<lambda>_. 0)]")
    (auto simp: absorb_args_size)

declare Or_create.simps [simp del] OrExpr_createPartial.simps [simp del] OrExpr_create.simps [simp del]

context apint
begin

lemma unaligned_hi_denotes:
  assumes "denotes A \<sigma> x w a"
  shows "8 * n \<le> w - s11 \<Longrightarrow> w - s11 = i + 8 * n \<Longrightarrow>
    list_all2 (\<lambda>k v. denotes A \<sigma> k 8 v) (unaligned_hi A x w s11 i)
      (map (\<lambda>j. take_bit 8 (drop_bit (8 * j) a)) (rev [0..<n]))"
proof (induction n arbitrary: i)
  case 0
  then show ?case by (simp add: unaligned_hi.simps)
next
  case (Suc n)
  have o: "w - 8 - s11 - i = 8 * n" using Suc.prems by simp
  have "denotes A \<sigma> (Extract_create A x (8 * n) 8) 8 (take_bit 8 (drop_bit (8 * n) a))"
    using Suc.prems by (intro Extract_create_denotes [OF assms]) auto
  moreover have "list_all2 (\<lambda>k v. denotes A \<sigma> k 8 v) (unaligned_hi A x w s11 (i + 8))
      (map (\<lambda>j. take_bit 8 (drop_bit (8 * j) a)) (rev [0..<n]))"
    using Suc.prems by (intro Suc.IH) auto
  ultimately show ?case
    using Suc.prems by (subst unaligned_hi.simps, subst o) auto
qed

lemma unaligned_lo_denotes:
  assumes "denotes A \<sigma> y w b"
  shows "s22 + 8 * n \<le> w \<Longrightarrow>
    list_all2 (\<lambda>k v. denotes A \<sigma> k 8 v) (unaligned_lo A y s22 (int (s22 + 8 * n) - 8))
      (map (\<lambda>j. take_bit 8 (drop_bit (8 * j) (drop_bit s22 b))) (rev [0..<n]))"
proof (induction n)
  case 0
  then show ?case by (simp add: unaligned_lo.simps)
next
  case (Suc n)
  have "denotes A \<sigma> (Extract_create A y (s22 + 8 * n) 8) 8 (take_bit 8 (drop_bit (s22 + 8 * n) b))"
    using Suc.prems by (intro Extract_create_denotes [OF assms]) auto
  moreover have "list_all2 (\<lambda>k v. denotes A \<sigma> k 8 v) (unaligned_lo A y s22 (int (s22 + 8 * n) - 8))
      (map (\<lambda>j. take_bit 8 (drop_bit (8 * j) (drop_bit s22 b))) (rev [0..<n]))"
    using Suc.prems by (intro Suc.IH) auto
  moreover have "nat (int (s22 + 8 * Suc n) - 8) = s22 + 8 * n" "int s22 \<le> int (s22 + 8 * Suc n) - 8"
    "int (s22 + 8 * Suc n) - 8 - 8 = int (s22 + 8 * n) - 8" by auto
  ultimately show ?case
    by (subst unaligned_lo.simps) (simp add: add.commute)
qed

lemma denotes_Shl_constD: "denotes A \<sigma> (BinaryExpr Shl x (ConstantExpr s)) w v \<Longrightarrow>
    \<exists>a a2. denotes A \<sigma> x w a \<and> denotes A \<sigma> (ConstantExpr s) w a2 \<and> a2 < 2 ^ 63 \<and>
      v = take_bit w (push_bit (nat a2) a)"
  by (auto simp: sem_simps bin_safe_def)

lemma denotes_LShr_constD: "denotes A \<sigma> (BinaryExpr LShr x (ConstantExpr s)) w v \<Longrightarrow>
    \<exists>a a2. denotes A \<sigma> x w a \<and> denotes A \<sigma> (ConstantExpr s) w a2 \<and> a2 < 2 ^ 63 \<and>
      v = drop_bit (nat a2) a"
  by (auto simp: sem_simps bin_safe_def)

lemma SimplifyUnalignedReadPattern_denotes:
  assumes "denotes A \<sigma> e w v" and "w \<le> 64"
  shows "\<exists>e'. SimplifyUnalignedReadPattern A e = Some e' \<and> denotes A \<sigma> e' w v"
proof -
  have key: "\<exists>e'. Concat_createN A (unaligned_hi A x w s11 0 @ unaligned_lo A y s22 (int w - 8)) = Some e' \<and>
      denotes A \<sigma> e' w (take_bit w (push_bit (nat a2) a) OR drop_bit (nat b2) b)"
    if x: "denotes A \<sigma> x w a" and s1: "denotes A \<sigma> (ConstantExpr s1) w a2" and a2: "a2 < 2 ^ 63"
      and y: "denotes A \<sigma> y w b" and s2: "denotes A \<sigma> (ConstantExpr s2) w b2" and b2: "b2 < 2 ^ 63"
      and s: "s11 = ap_getZExtValue A s1" "s22 = ap_getZExtValue A s2" "s11 mod 8 = 0" "s22 mod 8 = 0"
      and sum: "to_u64 (s11 + s22) = w" for x y a b s1 s2 a2 b2 s11 s22
  proof -
    have z: "int s11 = a2" "int s22 = b2"
      using s1 s2 assms(2) by (auto simp: s zext_value_int denotes_Constant)
    with a2 b2 have "int (s11 + s22) < int (2 ^ 64)" by simp
    then have "s11 + s22 < 2 ^ 64" by (simp only: of_nat_less_iff)
    then have w: "s11 + s22 = w" using sum by (simp add: to_u64_less)
    obtain m n where m: "s11 = 8 * m" and n: "s22 = 8 * n" using s(3,4) by (auto elim!: dvdE simp: mod_eq_0_iff_dvd)
    let ?vs = "map (\<lambda>j. take_bit 8 (drop_bit (8 * j) a)) (rev [0..<n])"
    let ?us = "map (\<lambda>j. take_bit 8 (drop_bit (8 * j) (drop_bit s22 b))) (rev [0..<m])"
    have hi: "list_all2 (\<lambda>k v. denotes A \<sigma> k 8 v) (unaligned_hi A x w s11 0) ?vs"
      using w m n by (intro unaligned_hi_denotes [OF x]) auto
    have lo: "list_all2 (\<lambda>k v. denotes A \<sigma> k 8 v) (unaligned_lo A y s22 (int w - 8)) ?us"
      using unaligned_lo_denotes [OF y, of s22 m] w m n by (auto simp: add.commute)
    let ?ks = "unaligned_hi A x w s11 0 @ unaligned_lo A y s22 (int w - 8)"
    have len: "length ?ks * 8 = w" using list_all2_lengthD [OF hi] list_all2_lengthD [OF lo] w m n by simp
    have ok: "width_ok w" using denotes_width_ok [OF x] .
    then have "?ks \<noteq> []" using len by (metis list.size(3) mult_zero_left width_ok_simps(4))
    then obtain e' where e': "Concat_createN A ?ks = Some e'" "denotes A \<sigma> e' w (cat_list 8 (?vs @ ?us))"
      using Concat_createN_denotes [OF list_all2_appendI [OF hi lo]] len ok by auto
    have "cat_list 8 (?vs @ ?us) = cat_bits (m * 8) (take_bit (n * 8) a) (take_bit (m * 8) (drop_bit s22 b))"
      by (subst cat_list_append) (auto simp: cat_list_fields simp del: drop_bit_drop_bit)
    also have "\<dots> = take_bit w (push_bit (nat a2) a) OR drop_bit (nat b2) b"
    proof -
      have "nat a2 = s11" "nat b2 = s22" using z by auto
      then show ?thesis
        using or_shifted_fields [OF denotes_fits [OF y] w, of a] m n by (simp add: mult.commute)
    qed
    finally show ?thesis using e' by simp
  qed
  show ?thesis
  proof (cases "SimplifyUnalignedReadPattern A e = Some e")
    case True
    with assms(1) show ?thesis by simp
  next
    case False
    then obtain l r x y s1 s2 where e: "e = BinaryExpr Or l r"
      and args: "shl_lshr_args l r = Some ((x, ConstantExpr s1), (y, ConstantExpr s2))"
      and m: "ap_getZExtValue A s1 mod 8 = 0" "ap_getZExtValue A s2 mod 8 = 0"
        "to_u64 (ap_getZExtValue A s1 + ap_getZExtValue A s2) = getWidth A e"
      and res: "SimplifyUnalignedReadPattern A e = Concat_createN A
        (unaligned_hi A x (getWidth A e) (ap_getZExtValue A s1) 0 @
         unaligned_lo A y (ap_getZExtValue A s2) (int (getWidth A e) - 8))"
      by (auto simp: SimplifyUnalignedReadPattern_def Let_def split: option.splits if_splits)
    have w: "getWidth A e = w" using assms(1) by (simp add: denotes_def)
    obtain p q where pq: "denotes A \<sigma> l w p" "denotes A \<sigma> r w q" "v = p OR q"
      using assms(1) unfolding e by (auto simp: denotes_Bin)
    obtain p' q' where "denotes A \<sigma> (BinaryExpr Shl x (ConstantExpr s1)) w p'"
      "denotes A \<sigma> (BinaryExpr LShr y (ConstantExpr s2)) w q'" and pq': "v = p' OR q'"
      using shl_lshr_args_Some [OF args] pq or.commute by metis
    then obtain a b a2 b2 where "denotes A \<sigma> x w a" "denotes A \<sigma> (ConstantExpr s1) w a2" "a2 < 2 ^ 63"
      "denotes A \<sigma> y w b" "denotes A \<sigma> (ConstantExpr s2) w b2" "b2 < 2 ^ 63"
      and v: "v = take_bit w (push_bit (nat a2) a) OR drop_bit (nat b2) b"
      by (blast dest: denotes_Shl_constD denotes_LShr_constD)
    from key [OF this(1-6) refl refl m [unfolded w]] show ?thesis
      unfolding res w v .
  qed
qed

lemma denotes_OrI: "denotes A \<sigma> l w a \<Longrightarrow> denotes A \<sigma> r w b \<Longrightarrow>
    denotes A \<sigma> (BinaryExpr Or l r) w (a OR b)"
  by (auto intro: denotes_BinI bin_safe_other)

lemma Or_create_denotes:
  "denotes A \<sigma> l w a \<Longrightarrow> denotes A \<sigma> r w b \<Longrightarrow> w \<le> 64 \<Longrightarrow> denotes A \<sigma> (Or_create A l r) w (a OR b)"
proof (induction "size l + size r" arbitrary: l r a b rule: less_induct)
  case less
  have IH: "denotes A \<sigma> (Or_create A x y) w (c OR d)"
    if "size x + size y < size l + size r" "denotes A \<sigma> x w c" "denotes A \<sigma> y w d" for x y c d
    using less that by blast
  have partial: "denotes A \<sigma> (OrExpr_createPartial A x cc) w (c OR d)"
    if sz: "size x \<le> size l + size r" and x: "denotes A \<sigma> x w c" and cc: "denotes A \<sigma> (ConstantExpr cc) w d"
    for x cc c d
  proof -
    have alloc: "denotes A \<sigma> (BinaryExpr Or x (ConstantExpr cc)) w (c OR d)"
      using x cc by (rule denotes_OrI)
    have ones: "c OR d = d" if "const_isAllOnes A cc"
      using or_mask [OF denotes_fits [OF x]] const_isAllOnes_denotes [OF that cc] by simp
    have n: "denotes A \<sigma> (Or_create A y (ConstantExpr (ConstantExpr_op A Or cc b))) w (c OR d)"
      if xy: "x = BinaryExpr Or y (ConstantExpr b)" for y b
    proof -
      obtain u v where u: "denotes A \<sigma> y w u" "denotes A \<sigma> (ConstantExpr b) w v" "c = u OR v"
        using xy x by (auto simp: denotes_Bin)
      have "denotes A \<sigma> (ConstantExpr (ConstantExpr_op A Or cc b)) w (d OR v)"
        using ConstantExpr_op_denotes [OF cc u(2), of Or] by simp
      with u(1) sz xy have "denotes A \<sigma> (Or_create A y (ConstantExpr (ConstantExpr_op A Or cc b))) w (u OR (d OR v))"
        by (intro IH) auto
      then show ?thesis by (simp add: u(3) ac_simps)
    qed
    show ?thesis
      using x cc alloc ones n const_isZero_denotes [OF cc]
      by (auto simp: OrExpr_createPartial.simps [of A x] split: option.split)
  qed
  have absorb: "denotes A \<sigma> (Or_create A x y) w (a OR b)" if "absorb_args A And l r = Some (x, y)" for x y
    using absorb_args_denotes [OF that less.prems(1,2)] IH [OF absorb_args_size [OF that]] by auto
  have create: "denotes A \<sigma> (OrExpr_create A l r) w (a OR b)"
    using isNegationOf_denotes [OF _ less.prems(1,2)] absorb
      SimplifyUnalignedReadPattern_denotes [OF denotes_OrI [OF less.prems(1,2)] less.prems(3)]
    by (auto simp: OrExpr_create.simps [of A l r] split: option.split intro!: denotes_alloc)
  show ?case
    using less.prems partial [of r b _ a] partial [of l a _ b] create ConstantExpr_op_denotes [of \<sigma> _ w a _ b Or]
    by (auto simp: Or_create.simps [of A l r] or.commute split: option.split)
qed

end

end
