(* ===== verification/Expr_Eq.thy ===== *)
theory Expr_Eq
  imports Expr_Logic
begin

text \<open>
  \<open>EqExpr::create\<close> of \<open>klee/lib/Expr/Expr.cpp\<close> with its rewrites of an equality with a constant, and
  the constructors built from it: \<open>createIsZero\<close>, \<open>createImplies\<close>, \<open>NeExpr::create\<close> and \<open>XorExpr::create\<close>.
\<close>

section \<open>Definitions\<close>

definition EqExpr_create :: "'a ops \<Rightarrow> 'a expr \<Rightarrow> 'a expr \<Rightarrow> 'a expr" where
  "EqExpr_create A l r = (if l = r then ConstantExpr_alloc A 1 1 else BinaryExpr Eq l r)"

text \<open>
  \<open>TryConstArrayOpt\<close>: equality of a constant and a read of a constant array as a disjunction over
  the positions that hold the constant.  \<open>eqIndex i\<close> is \<open>EqExpr::create(rd->getIndex(), i)\<close>.  The loop
  gives up, with \<open>None\<close>, at the 101st match.
\<close>

fun TryConstArrayOpt_loop ::
    "'a ops \<Rightarrow> (nat \<Rightarrow> 'a expr) \<Rightarrow> 'a \<Rightarrow> 'a list \<Rightarrow> nat \<Rightarrow> nat \<Rightarrow> 'a expr \<Rightarrow> 'a expr option" where
  "TryConstArrayOpt_loop A eqIndex cl [] i numMatches res = Some res"
| "TryConstArrayOpt_loop A eqIndex cl (v # vs) i numMatches res =
     (if cl = v then
        if numMatches + 1 > 100 then None
        else TryConstArrayOpt_loop A eqIndex cl vs (i + 1) (numMatches + 1)
               (Or_create A res (eqIndex i))
      else TryConstArrayOpt_loop A eqIndex cl vs (i + 1) numMatches res)"

definition TryConstArrayOpt_by ::
    "'a ops \<Rightarrow> (nat \<Rightarrow> 'a expr) \<Rightarrow> 'a \<Rightarrow> 'a array_obj \<Rightarrow> 'a update_node \<Rightarrow> 'a expr \<Rightarrow> 'a expr" where
  "TryConstArrayOpt_by A eqIndex cl root us idx =
     (let eq = EqExpr_create A (ConstantExpr cl) (ReadExpr root us idx) in
      if isSymbolicArray root \<or> us \<noteq> NoUpdate then eq
      else case TryConstArrayOpt_loop A eqIndex cl (constantValues root) 0 0 (ConstantExpr_alloc A 0 1) of
        Some res \<Rightarrow> res
      | None \<Rightarrow> eq)"

text \<open>
  \<open>EqExpr::create\<close> (the macro \<open>CMPCREATE_T\<close>) with \<open>EqExpr_createPartialR\<close>; \<open>EqExpr_createPartial\<close>
  only swaps its arguments.  \<open>Expr::createIsZero(e)\<close> is written out as the equality of \<open>e\<close> with zero.
\<close>

function Eq_create :: "'a ops \<Rightarrow> 'a expr \<Rightarrow> 'a expr \<Rightarrow> 'a expr"
and EqExpr_createPartialR :: "'a ops \<Rightarrow> 'a \<Rightarrow> 'a expr \<Rightarrow> 'a expr" where
  "Eq_create A l r =
     (case dyn_cast_Constant l of
        Some cl \<Rightarrow>
          (case dyn_cast_Constant r of
             Some cr \<Rightarrow> ConstantExpr (ConstantExpr_op A Eq cl cr)
           | None \<Rightarrow> EqExpr_createPartialR A cl r)
      | None \<Rightarrow>
          (case dyn_cast_Constant r of
             Some cr \<Rightarrow> EqExpr_createPartialR A cr l
           | None \<Rightarrow> EqExpr_create A l r))"
| "EqExpr_createPartialR A cl r =
     (if getBitWidth A cl = 1 then
        if const_isTrue A cl then r
        else case dyn_cast_Bin Eq r of
          Some (rl, rr) \<Rightarrow>
            (case dyn_cast_Constant rl of
               Some CE \<Rightarrow>
                 if getBitWidth A CE = 1 \<and> const_isFalse A CE then rr
                 else EqExpr_create A (ConstantExpr cl) r
             | None \<Rightarrow> EqExpr_create A (ConstantExpr cl) r)
        | None \<Rightarrow>
        (case dyn_cast_Bin Or r of
          Some (rl, rr) \<Rightarrow>
            And_create A
              (Eq_create A rl (ConstantExpr_alloc A 0 (getWidth A rl)))
              (Eq_create A rr (ConstantExpr_alloc A 0 (getWidth A rr)))
        | None \<Rightarrow> EqExpr_create A (ConstantExpr cl) r)
      else case dyn_cast_SExt r of
        Some (src, w) \<Rightarrow>
          (let trunc = ConstantExpr_ZExt A cl (getWidth A src) in
           if cl = ConstantExpr_SExt A trunc (getBitWidth A cl)
           then Eq_create A src (ConstantExpr trunc) else ConstantExpr_alloc A 0 1)
      | None \<Rightarrow>
      (case dyn_cast_ZExt r of
        Some (src, w) \<Rightarrow>
          (let trunc = ConstantExpr_ZExt A cl (getWidth A src) in
           if cl = ConstantExpr_ZExt A trunc (getBitWidth A cl)
           then Eq_create A src (ConstantExpr trunc) else ConstantExpr_alloc A 0 1)
      | None \<Rightarrow>
      (case dyn_cast_Bin Add r of
        Some (rl, rr) \<Rightarrow>
          (case dyn_cast_Constant rl of
             Some c1 \<Rightarrow> EqExpr_createPartialR A (ConstantExpr_op A Sub cl c1) rr
           | None \<Rightarrow> EqExpr_create A (ConstantExpr cl) r)
      | None \<Rightarrow>
      (case dyn_cast_Bin Sub r of
        Some (rl, rr) \<Rightarrow>
          (case dyn_cast_Constant rl of
             Some c1 \<Rightarrow> EqExpr_createPartialR A (ConstantExpr_op A Sub c1 cl) rr
           | None \<Rightarrow> EqExpr_create A (ConstantExpr cl) r)
      | None \<Rightarrow>
      (case dyn_cast_Read r of
        Some (root, us, idx) \<Rightarrow>
          if ConstArrayOpt A
          then TryConstArrayOpt_by A
                 (\<lambda>i. Eq_create A idx (ConstantExpr_alloc A i (getWidth A idx))) cl root us idx
          else EqExpr_create A (ConstantExpr cl) r
      | None \<Rightarrow> EqExpr_create A (ConstantExpr cl) r)))))"
  by pat_completeness auto
termination
  by (relation "measures [case_sum (\<lambda>(A, l, r). max (size l) (size r)) (\<lambda>(A, cl, r). size r),
      case_sum (\<lambda>_. 1) (\<lambda>_. 0)]")
    (auto simp: ConstantExpr_alloc_def less_Suc_eq_le expr_size_pos)

declare Eq_create.simps [simp del] EqExpr_createPartialR.simps [simp del]
definition createIsZero :: "'a ops \<Rightarrow> 'a expr \<Rightarrow> 'a expr" where
  "createIsZero A e = Eq_create A e (ConstantExpr_alloc A 0 (getWidth A e))"

definition createImplies :: "'a ops \<Rightarrow> 'a expr \<Rightarrow> 'a expr \<Rightarrow> 'a expr" where
  "createImplies A hyp conc = Or_create A (createIsZero A hyp) conc"

definition Ne_create :: "'a ops \<Rightarrow> 'a expr \<Rightarrow> 'a expr \<Rightarrow> 'a expr" where
  "Ne_create A l r = Eq_create A (ConstantExpr_alloc A 0 1) (Eq_create A l r)"

definition XorExpr_createPartialR :: "'a ops \<Rightarrow> 'a \<Rightarrow> 'a expr \<Rightarrow> 'a expr" where
  "XorExpr_createPartialR A cl r =
     (if const_isZero A cl then r
      else if getBitWidth A cl = 1 then EqExpr_createPartialR A (ap_of A 1 0) r
      else BinaryExpr Xor (ConstantExpr cl) r)"

text \<open>\<open>XorExpr_create\<close> compares the operands as pointers.\<close>

definition XorExpr_create :: "'a ops \<Rightarrow> 'a expr \<Rightarrow> 'a expr \<Rightarrow> 'a expr" where
  "XorExpr_create A l r =
     (if same_object A l r then ConstantExpr_alloc A 0 (getWidth A l)
      else if isNegationOf A l r then ConstantExpr_alloc A 1 1
      else BinaryExpr Xor l r)"

definition Xor_create :: "'a ops \<Rightarrow> 'a expr \<Rightarrow> 'a expr \<Rightarrow> 'a expr" where
  "Xor_create A l r =
     (case dyn_cast_Constant l of
        Some cl \<Rightarrow>
          (case dyn_cast_Constant r of
             Some cr \<Rightarrow> ConstantExpr (ConstantExpr_op A Xor cl cr)
           | None \<Rightarrow> XorExpr_createPartialR A cl r)
      | None \<Rightarrow>
          (case dyn_cast_Constant r of
             Some cr \<Rightarrow> XorExpr_createPartialR A cr l
           | None \<Rightarrow> XorExpr_create A l r))"

section \<open>The constructors compute the operation they name\<close>

lemma Eq_create_const_r: "Eq_create A x (ConstantExpr k) =
    (case dyn_cast_Constant x of
       Some c \<Rightarrow> ConstantExpr (ConstantExpr_op A Eq c k) | None \<Rightarrow> EqExpr_createPartialR A k x)"
  by (simp add: Eq_create.simps split: option.split)

context apint
begin

lemma EqExpr_create_denotes:
  "denotes A \<sigma> l w a \<Longrightarrow> denotes A \<sigma> r w b \<Longrightarrow> denotes A \<sigma> (EqExpr_create A l r) (Suc 0) (of_bool (a = b))"
  by (auto simp: EqExpr_create_def dest: denotes_fun intro!: denotes_alloc denotes_BinI bin_safe_other)

lemma TryConstArrayOpt_loop_denotes:
  assumes "\<And>j. j < i + length vs \<Longrightarrow> denotes A \<sigma> (eqIndex j) (Suc 0) (of_bool (iv = int j))"
    and "denotes A \<sigma> res (Suc 0) (of_bool b)"
    and "TryConstArrayOpt_loop A eqIndex cl vs i n res = Some e"
  shows "denotes A \<sigma> e (Suc 0) (of_bool (b \<or> (\<exists>j < length vs. vs ! j = cl \<and> iv = int (i + j))))"
  using assms
proof (induction vs arbitrary: i n res b)
  case (Cons v vs)
  have ex: "(\<exists>j < length (v # vs). (v # vs) ! j = cl \<and> iv = int (i + j)) \<longleftrightarrow>
      (v = cl \<and> iv = int i) \<or> (\<exists>j < length vs. vs ! j = cl \<and> iv = int (Suc i + j))"
    by (auto simp: less_Suc_eq_0_disj)
  show ?case
  proof (cases "cl = v")
    case True
    have "denotes A \<sigma> (Or_create A res (eqIndex i)) (Suc 0) (of_bool b OR of_bool (iv = int i))"
      using Cons.prems by (intro Or_create_denotes) auto
    then have d: "denotes A \<sigma> (Or_create A res (eqIndex i)) (Suc 0) (of_bool (b \<or> iv = int i))"
      by (cases b; cases "iv = int i") auto
    have "TryConstArrayOpt_loop A eqIndex cl vs (Suc i) (Suc n) (Or_create A res (eqIndex i)) = Some e"
      using Cons.prems(3) True by (simp split: if_splits)
    from Cons.IH [OF Cons.prems(1) d this]
    have "denotes A \<sigma> e (Suc 0) (of_bool ((b \<or> iv = int i) \<or> (\<exists>j < length vs. vs ! j = cl \<and> iv = int (Suc i + j))))"
      by simp
    then show ?thesis unfolding ex using True by (simp add: disj_assoc)
  next
    case False
    then have "TryConstArrayOpt_loop A eqIndex cl vs (Suc i) n res = Some e" using Cons.prems(3) by simp
    from Cons.IH [OF Cons.prems(1,2) this] show ?thesis unfolding ex using False by simp
  qed
qed simp

lemma TryConstArrayOpt_denotes:
  assumes "ConstArrayOpt A" and cl: "denotes A \<sigma> (ConstantExpr cl) w c"
    and rd: "denotes A \<sigma> (ReadExpr root us idx) w v"
    and eq: "\<And>i iv. denotes A \<sigma> idx 32 iv \<Longrightarrow> i < 2 ^ 32 \<Longrightarrow>
      denotes A \<sigma> (eqIndex i) (Suc 0) (of_bool (iv = int i))"
  shows "denotes A \<sigma> (TryConstArrayOpt_by A eqIndex cl root us idx) (Suc 0) (of_bool (c = v))"
proof (cases "isSymbolicArray root \<or> us \<noteq> NoUpdate")
  case True
  then show ?thesis using EqExpr_create_denotes [OF cl rd] by (simp add: TryConstArrayOpt_by_def)
next
  case False
  then have us: "us = NoUpdate" and ca: "isConstantArray root" by (auto simp: isConstantArray_def)
  obtain iv where iv: "denotes A \<sigma> idx 32 iv" and v: "v = array_value A \<sigma> root iv" and "w = 8"
    and lt: "iv < int (array_size root)" and wa: "wt_array A root"
    using rd ca assms(1) us by (auto simp: denotes_Read)
  have len: "length (constantValues root) = array_size root" "array_size root < 2 ^ 32"
    using wa ca by (auto simp: wt_array_def)
  have "0 \<le> iv" using denotes_fits [OF iv] by (simp add: fits_def)
  then have n: "nat iv < length (constantValues root)" "int (nat iv) = iv" using lt len by auto
  have c: "getBitWidth A cl = 8" "ap_uint A cl = c" using cl \<open>w = 8\<close> by (auto simp: denotes_Constant)
  have w8: "getBitWidth A (constantValues root ! nat iv) = 8" using wa n by (auto simp: wt_array_def)
  have v': "v = ap_uint A (constantValues root ! nat iv)" using n by (simp add: v array_value_def)
  have veq: "c = v \<longleftrightarrow> constantValues root ! nat iv = cl"
    using w8 c uint_inj v' by metis
  have "denotes A \<sigma> e (Suc 0) (of_bool (c = v))"
    if "TryConstArrayOpt_loop A eqIndex cl (constantValues root) 0 0 (ConstantExpr_alloc A 0 1) = Some e" for e
  proof -
    have "denotes A \<sigma> e (Suc 0) (of_bool (False \<or> (\<exists>j < length (constantValues root).
        constantValues root ! j = cl \<and> iv = int (0 + j))))"
      by (rule TryConstArrayOpt_loop_denotes [OF _ _ that]) (use eq [OF iv] len in \<open>auto intro!: denotes_alloc\<close>)
    moreover have "(\<exists>j < length (constantValues root). constantValues root ! j = cl \<and> iv = int (0 + j)) \<longleftrightarrow> c = v"
      using veq n by (auto simp: nat_eq_iff)
    ultimately show ?thesis by simp
  qed
  then show ?thesis
    using EqExpr_create_denotes [OF cl rd] False by (auto simp: TryConstArrayOpt_by_def Let_def split: option.split)
qed

lemma const_isTrue_denotes: "denotes A \<sigma> (ConstantExpr c) (Suc 0) v \<Longrightarrow> const_isTrue A c \<longleftrightarrow> v \<noteq> 0"
  by (auto simp: const_isTrue_def apint_simps sem_simps)

lemma const_isFalse_denotes: "const_isFalse A c \<Longrightarrow> denotes A \<sigma> (ConstantExpr c) w v \<Longrightarrow> w = Suc 0 \<and> v = 0"
  by (auto simp: const_isFalse_def apint_simps sem_simps)

lemma ConstantExpr_eq_iff:
  assumes "denotes A \<sigma> (ConstantExpr x) w a" and "denotes A \<sigma> (ConstantExpr y) w b"
  shows "x = y \<longleftrightarrow> a = b"
  using assms uint_inj [of x y] by (auto simp: denotes_Constant)

text \<open>Equality with a constant against a node whose operand comparison is already known to be right.\<close>

lemma Eq_const_SExt:
  assumes cl: "denotes A \<sigma> (ConstantExpr cl) w c" and r: "denotes A \<sigma> (SExtExpr src sw) w v"
    and eq: "\<And>k u d. denotes A \<sigma> src k u \<Longrightarrow> denotes A \<sigma> (ConstantExpr trunc) k d \<Longrightarrow>
      denotes A \<sigma> e (Suc 0) (of_bool (u = d))"
    and trunc: "trunc = ConstantExpr_ZExt A cl (getWidth A src)"
  shows "denotes A \<sigma> (if cl = ConstantExpr_SExt A trunc (getBitWidth A cl) then e
    else ConstantExpr_alloc A 0 1) (Suc 0) (of_bool (c = v))"
proof -
  obtain kw u where u: "denotes A \<sigma> src kw u" "kw \<le> w" and v: "v = take_bit w (signed_take_bit (kw - Suc 0) u)"
    using r by (auto simp: denotes_SExt)
  have kw: "getWidth A src = kw" "width_ok kw" "width_ok w" "getBitWidth A cl = w"
    using u cl denotes_width_ok [OF u(1)] denotes_width_ok [OF cl] by (auto simp: denotes_def)
  have t: "denotes A \<sigma> (ConstantExpr trunc) kw (take_bit kw c)"
    using ConstantExpr_ZExt_denotes [OF cl kw(2)] kw(1) by (simp add: trunc)
  have "denotes A \<sigma> (ConstantExpr (ConstantExpr_SExt A trunc w)) w
      (take_bit w (signed_take_bit (kw - Suc 0) (take_bit kw c)))"
    using ConstantExpr_SExt_denotes [OF t kw(3)] by simp
  note cmp = ConstantExpr_eq_iff [OF cl this]
  have fits: "fits kw u" "fits w c" "0 < kw"
    using denotes_fits [OF u(1)] denotes_fits [OF cl] kw(2) by (auto simp: width_ok_def)
  show ?thesis
  proof (cases "c = take_bit w (signed_take_bit (kw - Suc 0) (take_bit kw c))")
    case True
    from eq [OF u(1) t] eq_sext_iff [OF fits(1,2) u(2) fits(3) True] show ?thesis
      using cmp True kw(4) v by simp
  next
    case False
    from neq_sext [OF fits(1) u(2) fits(3) this] show ?thesis
      using cmp False kw(4) v by (auto intro!: denotes_alloc)
  qed
qed

lemma Eq_const_ZExt:
  assumes cl: "denotes A \<sigma> (ConstantExpr cl) w c" and r: "denotes A \<sigma> (ZExtExpr src zw) w v"
    and eq: "\<And>k u d. denotes A \<sigma> src k u \<Longrightarrow> denotes A \<sigma> (ConstantExpr trunc) k d \<Longrightarrow>
      denotes A \<sigma> e (Suc 0) (of_bool (u = d))"
    and trunc: "trunc = ConstantExpr_ZExt A cl (getWidth A src)"
  shows "denotes A \<sigma> (if cl = ConstantExpr_ZExt A trunc (getBitWidth A cl) then e
    else ConstantExpr_alloc A 0 1) (Suc 0) (of_bool (c = v))"
proof -
  obtain kw where u: "denotes A \<sigma> src kw v" "kw \<le> w"
    using r by (auto simp: denotes_ZExt)
  have kw: "getWidth A src = kw" "width_ok kw" "width_ok w" "getBitWidth A cl = w"
    using u cl denotes_width_ok [OF u(1)] denotes_width_ok [OF cl] by (auto simp: denotes_def)
  have t: "denotes A \<sigma> (ConstantExpr trunc) kw (take_bit kw c)"
    using ConstantExpr_ZExt_denotes [OF cl kw(2)] kw(1) by (simp add: trunc)
  have "denotes A \<sigma> (ConstantExpr (ConstantExpr_ZExt A trunc w)) w (take_bit kw c)"
    using ConstantExpr_ZExt_denotes [OF t kw(3)] u(2) by (simp add: min_absorb2)
  note cmp = ConstantExpr_eq_iff [OF cl this]
  have "take_bit kw v = v" using denotes_take_bit [OF u(1)] .
  then have "c = take_bit kw c" if "c = v" using that by simp
  then show ?thesis
    using cmp kw(4) eq [OF u(1) t] by (auto intro!: denotes_alloc)
qed

lemma EqExpr_createPartialR_denotes:
  "denotes A \<sigma> (ConstantExpr cl) w c \<Longrightarrow> denotes A \<sigma> r w v \<Longrightarrow>
   denotes A \<sigma> (EqExpr_createPartialR A cl r) (Suc 0) (of_bool (c = v))"
proof (induction r arbitrary: cl w c v rule: measure_induct_rule [of size])
  case (less r)
  note cl = less.prems(1) and r = less.prems(2)
  have w: "getBitWidth A cl = w" using cl by (simp add: denotes_Constant)
  have other: "denotes A \<sigma> (EqExpr_create A (ConstantExpr cl) r) (Suc 0) (of_bool (c = v))"
    by (rule EqExpr_create_denotes [OF cl r])
  have eqc: "denotes A \<sigma> (Eq_create A x (ConstantExpr k)) (Suc 0) (of_bool (u = d))"
    if "size x < size r" and x: "denotes A \<sigma> x kw u" and k: "denotes A \<sigma> (ConstantExpr k) kw d" for x k kw u d
  proof (cases "dyn_cast_Constant x")
    case None
    then show ?thesis
      using less.IH [OF that(1) k x] by (simp add: Eq_create_const_r eq_commute [of u d])
  next
    case (Some y)
    then show ?thesis
      using ConstantExpr_op_denotes [of \<sigma> y kw u k d Eq] x k by (simp add: Eq_create_const_r)
  qed
  note eqn = EqExpr_createPartialR.simps [of A cl r]
  show ?case
  proof (cases "w = Suc 0")
    case True
    have cv: "c = 0 \<or> c = 1" "v = 0 \<or> v = 1"
      using denotes_fits [OF cl] denotes_fits [OF r] fits_1_cases by (auto simp: True)
    have tr: "const_isTrue A cl \<longleftrightarrow> c \<noteq> 0" using const_isTrue_denotes cl by (simp add: True)
    have e: "denotes A \<sigma> y (Suc 0) (of_bool (c = v))"
      if ky: "r = BinaryExpr Eq (ConstantExpr k) y" "const_isFalse A k" "c = 0" for k y
    proof -
      obtain kw a b where "denotes A \<sigma> (ConstantExpr k) kw a" "denotes A \<sigma> y kw b" "v = of_bool (a = b)"
        using r unfolding ky(1) by (auto simp: denotes_Bin)
      with const_isFalse_denotes [OF ky(2) this(1)] fits_1_cases denotes_fits [OF this(2)] ky(3)
      show ?thesis by auto
    qed
    have o: "denotes A \<sigma> (And_create A (Eq_create A x (ConstantExpr_alloc A 0 (getWidth A x)))
        (Eq_create A y (ConstantExpr_alloc A 0 (getWidth A y)))) (Suc 0) (of_bool (c = v))"
      if xy: "r = BinaryExpr Or x y" and "c = 0" for x y
    proof -
      obtain a b where a: "denotes A \<sigma> x (Suc 0) a" and b: "denotes A \<sigma> y (Suc 0) b" and v: "v = a OR b"
        using r True unfolding xy by (auto simp: denotes_Bin)
      have "getWidth A x = Suc 0" "getWidth A y = Suc 0" using a b by (auto simp: denotes_def)
      moreover have z: "denotes A \<sigma> (ConstantExpr (ap_of A (Suc 0) 0)) (Suc 0) 0"
        using denotes_alloc [of "Suc 0" 0 0] by (simp add: ConstantExpr_alloc_def)
      ultimately have "denotes A \<sigma> (And_create A (Eq_create A x (ConstantExpr_alloc A 0 (getWidth A x)))
          (Eq_create A y (ConstantExpr_alloc A 0 (getWidth A y)))) (Suc 0) (of_bool (a = 0) AND of_bool (b = 0))"
        using eqc [OF _ a z] eqc [OF _ b z] xy
        by (intro And_create_denotes) (auto simp: ConstantExpr_alloc_def)
      then show ?thesis using that(2) v by (auto simp: or_eq_0_iff split: if_splits)
    qed
    show ?thesis
    proof (cases "c = 0")
      case False
      with cv r True show ?thesis unfolding eqn by (auto simp: w tr)
    next
      case c: True
      show ?thesis
      proof (cases r)
        case (BinaryExpr k x y)
        then show ?thesis
          using other e [OF _ _ c] o [OF _ c] unfolding eqn by (auto simp: w tr c True split: option.split)
      qed (unfold eqn, use other c in \<open>simp_all add: w tr True\<close>)
    qed
  next
    case False
    have add: "denotes A \<sigma> (EqExpr_createPartialR A (ConstantExpr_op A Sub cl k) y) (Suc 0) (of_bool (c = v))"
      if ky: "r = BinaryExpr Add (ConstantExpr k) y" for k y
    proof -
      obtain a b where k: "denotes A \<sigma> (ConstantExpr k) w a" and y: "denotes A \<sigma> y w b" and v: "v = take_bit w (a + b)"
        using r unfolding ky by (auto simp: denotes_Bin)
      have "denotes A \<sigma> (ConstantExpr (ConstantExpr_op A Sub cl k)) w (take_bit w (c - a))"
        using ConstantExpr_op_denotes [OF cl k, of Sub] by simp
      from less.IH [OF _ this y] show ?thesis
        using take_bit_eq_iff_move [OF denotes_fits [OF cl] denotes_fits [OF y], of a] ky v by simp
    qed
    have sub: "denotes A \<sigma> (EqExpr_createPartialR A (ConstantExpr_op A Sub k cl) y) (Suc 0) (of_bool (c = v))"
      if ky: "r = BinaryExpr Sub (ConstantExpr k) y" for k y
    proof -
      obtain a b where k: "denotes A \<sigma> (ConstantExpr k) w a" and y: "denotes A \<sigma> y w b" and v: "v = take_bit w (a - b)"
        using r unfolding ky by (auto simp: denotes_Bin)
      have "denotes A \<sigma> (ConstantExpr (ConstantExpr_op A Sub k cl)) w (take_bit w (a - c))"
        using ConstantExpr_op_denotes [OF k cl, of Sub] by simp
      from less.IH [OF _ this y] show ?thesis
        using eq_sub_iff [OF denotes_fits [OF cl] denotes_fits [OF y], of a] ky v by simp
    qed
    have rd: "denotes A \<sigma> (TryConstArrayOpt_by A
        (\<lambda>i. Eq_create A idx (ConstantExpr_alloc A i (getWidth A idx))) cl root us idx) (Suc 0) (of_bool (c = v))"
      if rk: "r = ReadExpr root us idx" and opt: "ConstArrayOpt A" for root us idx
    proof (rule TryConstArrayOpt_denotes [OF opt cl r [unfolded rk]])
      fix i iv
      assume idx: "denotes A \<sigma> idx 32 iv" and i: "i < (2::nat) ^ 32"
      have "getWidth A idx = 32" using idx by (simp add: denotes_def)
      moreover have "take_bit 32 (int i) = int i" using i by (simp add: take_bit_int_eq_self)
      then have "denotes A \<sigma> (ConstantExpr (ap_of A 32 i)) 32 (int i)"
        using denotes_alloc [of 32 "int i" i] by (simp add: ConstantExpr_alloc_def)
      ultimately show "denotes A \<sigma> (Eq_create A idx (ConstantExpr_alloc A i (getWidth A idx))) (Suc 0)
          (of_bool (iv = int i))"
        using eqc [OF _ idx] rk by (simp add: ConstantExpr_alloc_def)
    qed
    show ?thesis
    proof (cases r)
      case (SExtExpr src sw)
      let ?t = "ConstantExpr_ZExt A cl (getWidth A src)"
      have "denotes A \<sigma> (if cl = ConstantExpr_SExt A ?t (getBitWidth A cl)
          then Eq_create A src (ConstantExpr ?t) else ConstantExpr_alloc A 0 1) (Suc 0) (of_bool (c = v))"
        by (rule Eq_const_SExt [OF cl r [unfolded SExtExpr] eqc refl]) (use SExtExpr in auto)
      then show ?thesis unfolding eqn Let_def using SExtExpr False w by simp
    next
      case (ZExtExpr src zw)
      let ?t = "ConstantExpr_ZExt A cl (getWidth A src)"
      have "denotes A \<sigma> (if cl = ConstantExpr_ZExt A ?t (getBitWidth A cl)
          then Eq_create A src (ConstantExpr ?t) else ConstantExpr_alloc A 0 1) (Suc 0) (of_bool (c = v))"
        by (rule Eq_const_ZExt [OF cl r [unfolded ZExtExpr] eqc refl]) (use ZExtExpr in auto)
      then show ?thesis unfolding eqn Let_def using ZExtExpr False w by simp
    next
      case (ReadExpr root us idx)
      then show ?thesis unfolding eqn using rd other False w by simp
    next
      case (BinaryExpr k x y)
      then show ?thesis unfolding eqn using add sub other False w by (auto split: option.split)
    qed (unfold eqn, use other False w in simp_all)
  qed
qed
lemma Eq_create_denotes:
  assumes l: "denotes A \<sigma> l w a" and r: "denotes A \<sigma> r w b"
  shows "denotes A \<sigma> (Eq_create A l r) (Suc 0) (of_bool (a = b))"
proof (cases "dyn_cast_Constant l")
  case None
  then show ?thesis
    using EqExpr_create_denotes [OF l r] EqExpr_createPartialR_denotes [of \<sigma> _ w b l a] l r
    by (auto simp: Eq_create.simps [of A l r] eq_commute [of a b] split: option.split)
next
  case (Some cl)
  then show ?thesis
    using EqExpr_createPartialR_denotes [of \<sigma> cl w a r b] ConstantExpr_op_denotes [of \<sigma> cl w a _ b Eq] l r
    by (auto simp: Eq_create.simps [of A "ConstantExpr cl" r] simp del: ConstantExpr_op.simps
        split: option.split)
qed

lemma createIsZero_denotes:
  assumes "denotes A \<sigma> e w a"
  shows "denotes A \<sigma> (createIsZero A e) (Suc 0) (of_bool (a = 0))"
proof -
  have "getWidth A e = w" using assms by (simp add: denotes_def)
  then show ?thesis
    unfolding createIsZero_def
    by (intro Eq_create_denotes [OF assms]) (use denotes_width_ok [OF assms] in \<open>auto intro!: denotes_alloc\<close>)
qed

lemma createImplies_denotes:
  assumes "denotes A \<sigma> h (Suc 0) a" and "denotes A \<sigma> c (Suc 0) b"
  shows "denotes A \<sigma> (createImplies A h c) (Suc 0) (of_bool (a \<noteq> 0 \<longrightarrow> b \<noteq> 0))"
proof -
  have "denotes A \<sigma> (createImplies A h c) (Suc 0) (of_bool (a = 0) OR b)"
    unfolding createImplies_def by (intro Or_create_denotes createIsZero_denotes [OF assms(1)] assms(2)) auto
  moreover have "of_bool (a = 0) OR b = of_bool (a \<noteq> 0 \<longrightarrow> b \<noteq> 0)"
    using fits_1_cases [OF denotes_fits [OF assms(2)]] by auto
  ultimately show ?thesis by simp
qed

lemma Ne_create_denotes:
  assumes "denotes A \<sigma> l w a" and "denotes A \<sigma> r w b"
  shows "denotes A \<sigma> (Ne_create A l r) (Suc 0) (of_bool (a \<noteq> b))"
proof -
  have "denotes A \<sigma> (Ne_create A l r) (Suc 0) (of_bool (0 = (of_bool (a = b) :: int)))"
    unfolding Ne_create_def
    by (intro Eq_create_denotes [OF _ Eq_create_denotes [OF assms]] denotes_alloc) auto
  then show ?thesis by (simp add: of_bool_def split: if_splits)
qed

lemma denotes_XorI: "denotes A \<sigma> l w a \<Longrightarrow> denotes A \<sigma> r w b \<Longrightarrow> denotes A \<sigma> (BinaryExpr Xor l r) w (a XOR b)"
  by (auto intro: denotes_BinI bin_safe_other)

lemma XorExpr_createPartialR_denotes:
  assumes cl: "denotes A \<sigma> (ConstantExpr cl) w a" and r: "denotes A \<sigma> r w b"
  shows "denotes A \<sigma> (XorExpr_createPartialR A cl r) w (a XOR b)"
proof -
  have w: "getBitWidth A cl = w" using cl by (simp add: denotes_Constant)
  have "denotes A \<sigma> (ConstantExpr (ap_of A (Suc 0) 0)) (Suc 0) 0"
    using denotes_alloc [of "Suc 0" 0 0] by (simp add: ConstantExpr_alloc_def)
  then have "denotes A \<sigma> (EqExpr_createPartialR A (ap_of A (Suc 0) 0) r) w (a XOR b)" if "w = Suc 0" "a \<noteq> 0"
    using EqExpr_createPartialR_denotes [of \<sigma> "ap_of A (Suc 0) 0" w 0 r b] r that
      fits_1_cases [of a] fits_1_cases [of b] denotes_fits [OF cl] denotes_fits [OF r] by auto
  then show ?thesis
    using const_isZero_denotes [OF cl] r denotes_XorI [OF cl r] by (auto simp: XorExpr_createPartialR_def w)
qed

lemma XorExpr_create_denotes:
  assumes l: "denotes A \<sigma> l w a" and r: "denotes A \<sigma> r w b"
  shows "denotes A \<sigma> (XorExpr_create A l r) w (a XOR b)"
proof -
  have "getWidth A l = w" using l by (simp add: denotes_def)
  moreover have "a = b" if "same_object A l r" using same_object_eq [OF that] denotes_fun [OF l] r by auto
  ultimately show ?thesis
    using isNegationOf_denotes [OF _ l r] denotes_XorI [OF l r] denotes_width_ok [OF l]
    by (auto simp: XorExpr_create_def intro!: denotes_alloc)
qed

lemma Xor_create_denotes:
  assumes l: "denotes A \<sigma> l w a" and r: "denotes A \<sigma> r w b"
  shows "denotes A \<sigma> (Xor_create A l r) w (a XOR b)"
  using l r XorExpr_createPartialR_denotes [of \<sigma> _ w a r b] XorExpr_createPartialR_denotes [of \<sigma> _ w b l a]
    XorExpr_create_denotes [OF l r] ConstantExpr_op_denotes [of \<sigma> _ w a _ b Xor]
  by (auto simp: Xor_create_def xor.commute split: option.split)

end

end
