(* ===== verification/Expr_Arith.thy ===== *)
theory Expr_Arith
  imports Expr_Eq
begin

text \<open>
  The arithmetic, shift and comparison constructors of \<open>klee/lib/Expr/Expr.cpp\<close>, and \<open>Bin_create\<close>,
  which collects \<open>create\<close> of every binary kind.  \<open>Bin_create_denotes\<close> is the correctness of all of
  them: the result is typed, has the width of the operation and its value.
\<close>

section \<open>Addition and subtraction\<close>

text \<open>
  \<open>AddExpr::create\<close> and \<open>SubExpr::create\<close> on a constant left operand, with \<open>AddExpr_createPartialR\<close>
  and \<open>SubExpr_createPartialR\<close>.  In the source these call \<open>AddExpr::create\<close> and \<open>SubExpr::create\<close>
  again; the left operand of the call is then the constant computed from the two constants, so
  the recursion stays among the four functions.
\<close>

function Add_create_const :: "'a ops \<Rightarrow> 'a \<Rightarrow> 'a expr \<Rightarrow> 'a expr"
and AddExpr_createPartialR :: "'a ops \<Rightarrow> 'a \<Rightarrow> 'a expr \<Rightarrow> 'a expr"
and Sub_create_const :: "'a ops \<Rightarrow> 'a \<Rightarrow> 'a expr \<Rightarrow> 'a expr"
and SubExpr_createPartialR :: "'a ops \<Rightarrow> 'a \<Rightarrow> 'a expr \<Rightarrow> 'a expr" where
  "Add_create_const A cl r =
     (case dyn_cast_Constant r of
        Some cr \<Rightarrow> ConstantExpr (ConstantExpr_op A Add cl cr)
      | None \<Rightarrow> AddExpr_createPartialR A cl r)"
| "AddExpr_createPartialR A cl r =
     (if getBitWidth A cl = 1 then XorExpr_createPartialR A cl r
      else if const_isZero A cl then r
      else case dyn_cast_Bin Add r of
        Some (k0, k1) \<Rightarrow>
          (case dyn_cast_Constant k0 of
             Some c \<Rightarrow> Add_create_const A (ConstantExpr_op A Add cl c) k1
           | None \<Rightarrow> BinaryExpr Add (ConstantExpr cl) r)
      | None \<Rightarrow>
      (case dyn_cast_Bin Sub r of
        Some (k0, k1) \<Rightarrow>
          (case dyn_cast_Constant k0 of
             Some c \<Rightarrow> Sub_create_const A (ConstantExpr_op A Add cl c) k1
           | None \<Rightarrow> BinaryExpr Add (ConstantExpr cl) r)
      | None \<Rightarrow> BinaryExpr Add (ConstantExpr cl) r))"
| "Sub_create_const A cl r =
     (case dyn_cast_Constant r of
        Some cr \<Rightarrow> ConstantExpr (ConstantExpr_op A Sub cl cr)
      | None \<Rightarrow> SubExpr_createPartialR A cl r)"
| "SubExpr_createPartialR A cl r =
     (if getBitWidth A cl = 1 then XorExpr_createPartialR A cl r
      else case dyn_cast_Bin Add r of
        Some (k0, k1) \<Rightarrow>
          (case dyn_cast_Constant k0 of
             Some c \<Rightarrow> Sub_create_const A (ConstantExpr_op A Sub cl c) k1
           | None \<Rightarrow> BinaryExpr Sub (ConstantExpr cl) r)
      | None \<Rightarrow>
      (case dyn_cast_Bin Sub r of
        Some (k0, k1) \<Rightarrow>
          (case dyn_cast_Constant k0 of
             Some c \<Rightarrow> Add_create_const A (ConstantExpr_op A Sub cl c) k1
           | None \<Rightarrow> BinaryExpr Sub (ConstantExpr cl) r)
      | None \<Rightarrow> BinaryExpr Sub (ConstantExpr cl) r))"
  by pat_completeness auto
termination
  by (relation "measures [case_sum (case_sum (\<lambda>(A, cl, r). size r) (\<lambda>(A, cl, r). size r))
        (case_sum (\<lambda>(A, cl, r). size r) (\<lambda>(A, cl, r). size r)),
      case_sum (case_sum (\<lambda>_. 1) (\<lambda>_. 0)) (case_sum (\<lambda>_. 1) (\<lambda>_. 0))]")
    auto

declare Add_create_const.simps [simp del] AddExpr_createPartialR.simps [simp del]
  Sub_create_const.simps [simp del] SubExpr_createPartialR.simps [simp del]

definition SubExpr_createPartial :: "'a ops \<Rightarrow> 'a expr \<Rightarrow> 'a \<Rightarrow> 'a expr" where
  "SubExpr_createPartial A l cr =
     AddExpr_createPartialR A (ConstantExpr_op A Sub (ap_of A (getBitWidth A cr) 0) cr) l"

text \<open>\<open>SubExpr::create\<close> with a constant right operand.\<close>

definition Sub_create_const_r :: "'a ops \<Rightarrow> 'a expr \<Rightarrow> 'a \<Rightarrow> 'a expr" where
  "Sub_create_const_r A l cr =
     (case dyn_cast_Constant l of
        Some cl \<Rightarrow> ConstantExpr (ConstantExpr_op A Sub cl cr)
      | None \<Rightarrow> SubExpr_createPartial A l cr)"

text \<open>\<open>(k + a)\<close> or \<open>(k - a)\<close> with a constant \<open>k\<close>.\<close>

fun const_addend :: "'a expr \<Rightarrow> (binkind \<times> 'a \<times> 'a expr) option" where
  "const_addend (BinaryExpr k (ConstantExpr c) x) = (if k = Add \<or> k = Sub then Some (k, c, x) else None)"
| "const_addend _ = None"

lemma const_addend_Some: "const_addend e = Some (k, c, x) \<longleftrightarrow>
    e = BinaryExpr k (ConstantExpr c) x \<and> k \<in> {Add, Sub}"
  by (cases e rule: const_addend.cases) auto

text \<open>
  \<open>AddExpr::create\<close> and \<open>SubExpr::create\<close> with \<open>AddExpr_create\<close> and \<open>SubExpr_create\<close>.  Where the source
  nests two calls, the inner one is recursive and the outer one has a constant operand
  (\<open>Add_create_constant\<close>, \<open>Sub_create_constant\<close>, \<open>Sub_create_constant_r\<close>).
\<close>

function Add_create :: "'a ops \<Rightarrow> 'a expr \<Rightarrow> 'a expr \<Rightarrow> 'a expr"
and AddExpr_create :: "'a ops \<Rightarrow> 'a expr \<Rightarrow> 'a expr \<Rightarrow> 'a expr"
and Sub_create :: "'a ops \<Rightarrow> 'a expr \<Rightarrow> 'a expr \<Rightarrow> 'a expr"
and SubExpr_create :: "'a ops \<Rightarrow> 'a expr \<Rightarrow> 'a expr \<Rightarrow> 'a expr" where
  "Add_create A l r =
     (case dyn_cast_Constant l of
        Some cl \<Rightarrow> Add_create_const A cl r
      | None \<Rightarrow>
          (case dyn_cast_Constant r of
             Some cr \<Rightarrow> AddExpr_createPartialR A cr l
           | None \<Rightarrow> AddExpr_create A l r))"
| "AddExpr_create A l r =
     (if getWidth A l = 1 then XorExpr_create A l r
      else case const_addend l of
        Some (k, c, a) \<Rightarrow>
          if k = Add then Add_create_const A c (Add_create A a r)
          else Add_create_const A c (Sub_create A r a)
      | None \<Rightarrow>
      (case const_addend r of
        Some (k, c, b) \<Rightarrow>
          if k = Add then Add_create_const A c (Add_create A l b)
          else Add_create_const A c (Sub_create A l b)
      | None \<Rightarrow> BinaryExpr Add l r))"
| "Sub_create A l r =
     (case dyn_cast_Constant l of
        Some cl \<Rightarrow> Sub_create_const A cl r
      | None \<Rightarrow>
          (case dyn_cast_Constant r of
             Some cr \<Rightarrow> SubExpr_createPartial A l cr
           | None \<Rightarrow> SubExpr_create A l r))"
| "SubExpr_create A l r =
     (if getWidth A l = 1 then XorExpr_create A l r
      else if l = r then ConstantExpr_alloc A 0 (getWidth A l)
      else case const_addend l of
        Some (k, c, a) \<Rightarrow>
          if k = Add then Add_create_const A c (Sub_create A a r)
          else Sub_create_const A c (Add_create A a r)
      | None \<Rightarrow>
      (case const_addend r of
        Some (k, c, b) \<Rightarrow>
          if k = Add then Sub_create_const_r A (Sub_create A l b) c
          else Sub_create_const_r A (Add_create A l b) c
      | None \<Rightarrow> BinaryExpr Sub l r))"
  by pat_completeness auto
termination
  by (relation "measures [case_sum (case_sum (\<lambda>(A, l, r). size l + size r) (\<lambda>(A, l, r). size l + size r))
        (case_sum (\<lambda>(A, l, r). size l + size r) (\<lambda>(A, l, r). size l + size r)),
      case_sum (case_sum (\<lambda>_. 1) (\<lambda>_. 0)) (case_sum (\<lambda>_. 1) (\<lambda>_. 0))]")
    (auto simp: const_addend_Some)

declare Add_create.simps [simp del] AddExpr_create.simps [simp del]
  Sub_create.simps [simp del] SubExpr_create.simps [simp del]

lemma Add_create_constant: "Add_create A (ConstantExpr c) r = Add_create_const A c r"
  by (simp add: Add_create.simps)

lemma Sub_create_constant: "Sub_create A (ConstantExpr c) r = Sub_create_const A c r"
  by (simp add: Sub_create.simps)

lemma Sub_create_constant_r: "Sub_create A l (ConstantExpr c) = Sub_create_const_r A l c"
  by (simp add: Sub_create.simps Sub_create_const_r_def Sub_create_const.simps split: option.split)

section \<open>The other binary constructors\<close>

definition MulExpr_createPartialR :: "'a ops \<Rightarrow> 'a \<Rightarrow> 'a expr \<Rightarrow> 'a expr" where
  "MulExpr_createPartialR A cl r =
     (if getBitWidth A cl = 1 then AndExpr_createPartial A r cl
      else if const_isOne A cl then r
      else if const_isZero A cl then ConstantExpr cl
      else BinaryExpr Mul (ConstantExpr cl) r)"

definition MulExpr_create :: "'a ops \<Rightarrow> 'a expr \<Rightarrow> 'a expr \<Rightarrow> 'a expr" where
  "MulExpr_create A l r = (if getWidth A l = 1 then BinaryExpr And l r else BinaryExpr Mul l r)"

definition Mul_create :: "'a ops \<Rightarrow> 'a expr \<Rightarrow> 'a expr \<Rightarrow> 'a expr" where
  "Mul_create A l r =
     (case dyn_cast_Constant l of
        Some cl \<Rightarrow>
          (case dyn_cast_Constant r of
             Some cr \<Rightarrow> ConstantExpr (ConstantExpr_op A Mul cl cr)
           | None \<Rightarrow> MulExpr_createPartialR A cl r)
      | None \<Rightarrow>
          (case dyn_cast_Constant r of
             Some cr \<Rightarrow> MulExpr_createPartialR A cr l
           | None \<Rightarrow> MulExpr_create A l r))"

text \<open>The macros \<open>BCREATE\<close> and \<open>CMPCREATE\<close>: fold two constants, otherwise call the static function.\<close>

definition bcreate ::
    "'a ops \<Rightarrow> binkind \<Rightarrow> ('a ops \<Rightarrow> 'a expr \<Rightarrow> 'a expr \<Rightarrow> 'a expr) \<Rightarrow> 'a expr \<Rightarrow> 'a expr \<Rightarrow> 'a expr" where
  "bcreate A k create l r =
     (case dyn_cast_Constant l of
        Some cl \<Rightarrow>
          (case dyn_cast_Constant r of
             Some cr \<Rightarrow> ConstantExpr (ConstantExpr_op A k cl cr)
           | None \<Rightarrow> create A l r)
      | None \<Rightarrow> create A l r)"

definition UDivExpr_create :: "'a ops \<Rightarrow> 'a expr \<Rightarrow> 'a expr \<Rightarrow> 'a expr" where
  "UDivExpr_create A l r = (if getWidth A l = 1 then l else BinaryExpr UDiv l r)"

definition SDivExpr_create :: "'a ops \<Rightarrow> 'a expr \<Rightarrow> 'a expr \<Rightarrow> 'a expr" where
  "SDivExpr_create A l r = (if getWidth A l = 1 then l else BinaryExpr SDiv l r)"

definition URemExpr_create :: "'a ops \<Rightarrow> 'a expr \<Rightarrow> 'a expr \<Rightarrow> 'a expr" where
  "URemExpr_create A l r =
     (if getWidth A l = 1 then ConstantExpr_alloc A 0 1 else BinaryExpr URem l r)"

definition SRemExpr_create :: "'a ops \<Rightarrow> 'a expr \<Rightarrow> 'a expr \<Rightarrow> 'a expr" where
  "SRemExpr_create A l r =
     (if getWidth A l = 1 then ConstantExpr_alloc A 0 1 else BinaryExpr SRem l r)"

definition ShlExpr_create :: "'a ops \<Rightarrow> 'a expr \<Rightarrow> 'a expr \<Rightarrow> 'a expr" where
  "ShlExpr_create A l r =
     (if getWidth A l = 1 then And_create A l (createIsZero A r)
      else case dyn_cast_Constant r of
        Some ce \<Rightarrow> if isMinValue A ce then l else BinaryExpr Shl l r
      | None \<Rightarrow> BinaryExpr Shl l r)"

definition LShrExpr_create :: "'a ops \<Rightarrow> 'a expr \<Rightarrow> 'a expr \<Rightarrow> 'a expr" where
  "LShrExpr_create A l r =
     (if getWidth A l = 1 then And_create A l (createIsZero A r) else BinaryExpr LShr l r)"

definition AShrExpr_create :: "'a ops \<Rightarrow> 'a expr \<Rightarrow> 'a expr \<Rightarrow> 'a expr" where
  "AShrExpr_create A l r = (if getWidth A l = 1 then l else BinaryExpr AShr l r)"

definition UltExpr_create :: "'a ops \<Rightarrow> 'a expr \<Rightarrow> 'a expr \<Rightarrow> 'a expr" where
  "UltExpr_create A l r =
     (if getWidth A l = 1 then And_create A (createIsZero A l) r else BinaryExpr Ult l r)"

definition UleExpr_create :: "'a ops \<Rightarrow> 'a expr \<Rightarrow> 'a expr \<Rightarrow> 'a expr" where
  "UleExpr_create A l r =
     (if getWidth A l = 1 then Or_create A (createIsZero A l) r else BinaryExpr Ule l r)"

definition SltExpr_create :: "'a ops \<Rightarrow> 'a expr \<Rightarrow> 'a expr \<Rightarrow> 'a expr" where
  "SltExpr_create A l r =
     (if getWidth A l = 1 then And_create A l (createIsZero A r) else BinaryExpr Slt l r)"

definition SleExpr_create :: "'a ops \<Rightarrow> 'a expr \<Rightarrow> 'a expr \<Rightarrow> 'a expr" where
  "SleExpr_create A l r =
     (if getWidth A l = 1 then Or_create A l (createIsZero A r) else BinaryExpr Sle l r)"

text \<open>\<open>create\<close> of every binary kind.\<close>

fun Bin_create :: "'a ops \<Rightarrow> binkind \<Rightarrow> 'a expr \<Rightarrow> 'a expr \<Rightarrow> 'a expr" where
  "Bin_create A Add l r = Add_create A l r"
| "Bin_create A Sub l r = Sub_create A l r"
| "Bin_create A Mul l r = Mul_create A l r"
| "Bin_create A UDiv l r = bcreate A UDiv UDivExpr_create l r"
| "Bin_create A SDiv l r = bcreate A SDiv SDivExpr_create l r"
| "Bin_create A URem l r = bcreate A URem URemExpr_create l r"
| "Bin_create A SRem l r = bcreate A SRem SRemExpr_create l r"
| "Bin_create A And l r = And_create A l r"
| "Bin_create A Or l r = Or_create A l r"
| "Bin_create A Xor l r = Xor_create A l r"
| "Bin_create A Shl l r = bcreate A Shl ShlExpr_create l r"
| "Bin_create A LShr l r = bcreate A LShr LShrExpr_create l r"
| "Bin_create A AShr l r = bcreate A AShr AShrExpr_create l r"
| "Bin_create A Eq l r = Eq_create A l r"
| "Bin_create A Ne l r = Ne_create A l r"
| "Bin_create A Ult l r = bcreate A Ult UltExpr_create l r"
| "Bin_create A Ule l r = bcreate A Ule UleExpr_create l r"
| "Bin_create A Ugt l r = bcreate A Ult UltExpr_create r l"
| "Bin_create A Uge l r = bcreate A Ule UleExpr_create r l"
| "Bin_create A Slt l r = bcreate A Slt SltExpr_create l r"
| "Bin_create A Sle l r = bcreate A Sle SleExpr_create l r"
| "Bin_create A Sgt l r = bcreate A Slt SltExpr_create r l"
| "Bin_create A Sge l r = bcreate A Sle SleExpr_create r l"

text \<open>When the operands of a constructor are in the domain on which it is right.\<close>

definition bin_pre :: "'a ops \<Rightarrow> binkind \<Rightarrow> nat \<Rightarrow> 'a expr \<Rightarrow> int \<Rightarrow> bool" where
  "bin_pre A k w r b \<longleftrightarrow> bin_safe A k w r \<and> (k = Or \<longrightarrow> w \<le> 64) \<and>
     (k \<in> {UDiv, SDiv, URem, SRem} \<longrightarrow> w = 1 \<or> dyn_cast_Constant r \<noteq> None \<longrightarrow> b \<noteq> 0)"

section \<open>The constructors compute the operation they name\<close>

context apint
begin

lemma denotes_AddI: "denotes A \<sigma> l w a \<Longrightarrow> denotes A \<sigma> r w b \<Longrightarrow> v = take_bit w (a + b) \<Longrightarrow>
    denotes A \<sigma> (BinaryExpr Add l r) w v"
  by (auto intro: denotes_BinI bin_safe_other)

lemma denotes_SubI: "denotes A \<sigma> l w a \<Longrightarrow> denotes A \<sigma> r w b \<Longrightarrow> v = take_bit w (a - b) \<Longrightarrow>
    denotes A \<sigma> (BinaryExpr Sub l r) w v"
  by (auto intro: denotes_BinI bin_safe_other)

lemma const_addend_denotes:
  assumes "const_addend e = Some (k, c, x)" and "denotes A \<sigma> e w v"
  shows "\<exists>a b. denotes A \<sigma> (ConstantExpr c) w a \<and> denotes A \<sigma> x w b \<and>
    (k = Add \<and> v = take_bit w (a + b) \<or> k = Sub \<and> v = take_bit w (a - b))"
  using assms by (auto simp: const_addend_Some denotes_Bin) blast+

lemma XorPartialR_bool:
  assumes cl: "denotes A \<sigma> (ConstantExpr cl) w a" and r: "denotes A \<sigma> r w b" and "w = Suc 0"
  shows "denotes A \<sigma> (XorExpr_createPartialR A cl r) w (take_bit w (a + b))"
    "denotes A \<sigma> (XorExpr_createPartialR A cl r) w (take_bit w (a - b))"
  using XorExpr_createPartialR_denotes [OF cl r] denotes_fits [OF cl] denotes_fits [OF r] assms(3)
    take_bit_1_add_xor [of a b] take_bit_1_sub_xor [of a b] by simp_all

lemma AddSubExpr_createPartialR_denotes:
  "denotes A \<sigma> (ConstantExpr cl) w a \<Longrightarrow> denotes A \<sigma> r w b \<Longrightarrow>
   denotes A \<sigma> (AddExpr_createPartialR A cl r) w (take_bit w (a + b)) \<and>
   denotes A \<sigma> (SubExpr_createPartialR A cl r) w (take_bit w (a - b))"
proof (induction r arbitrary: cl a b rule: measure_induct_rule [of size])
  case (less r)
  note cl = less.prems(1) and r = less.prems(2)
  have w: "getBitWidth A cl = w" using cl by (simp add: denotes_Constant)
  have IH: "denotes A \<sigma> (Add_create_const A k x) w (take_bit w (c + d)) \<and>
      denotes A \<sigma> (Sub_create_const A k x) w (take_bit w (c - d))"
    if "size x < size r" and k: "denotes A \<sigma> (ConstantExpr k) w c" and x: "denotes A \<sigma> x w d" for k x c d
  proof (cases "dyn_cast_Constant x")
    case None
    then show ?thesis
      using less.IH [OF that] by (simp add: Add_create_const.simps Sub_create_const.simps)
  next
    case (Some y)
    then show ?thesis
      using ConstantExpr_op_denotes [of \<sigma> k w c y d Add] ConstantExpr_op_denotes [of \<sigma> k w c y d Sub] k x
      by (simp add: Add_create_const.simps Sub_create_const.simps)
  qed
  have alloc: "denotes A \<sigma> (BinaryExpr Add (ConstantExpr cl) r) w (take_bit w (a + b))"
    "denotes A \<sigma> (BinaryExpr Sub (ConstantExpr cl) r) w (take_bit w (a - b))"
    using cl r by (auto intro: denotes_AddI denotes_SubI)
  have zero: "take_bit w (a + b) = b" if "const_isZero A cl"
    using that const_isZero_denotes [OF cl] denotes_take_bit [OF r] by simp
  have nested: "denotes A \<sigma> (Add_create_const A (ConstantExpr_op A Add cl c) x) w (take_bit w (a + b))"
      "denotes A \<sigma> (Sub_create_const A (ConstantExpr_op A Sub cl c) x) w (take_bit w (a - b))"
    if e: "r = BinaryExpr Add (ConstantExpr c) x" for c x
  proof -
    obtain u v where c: "denotes A \<sigma> (ConstantExpr c) w u" and x: "denotes A \<sigma> x w v" and b: "b = take_bit w (u + v)"
      using r unfolding e by (auto simp: denotes_Bin)
    show "denotes A \<sigma> (Add_create_const A (ConstantExpr_op A Add cl c) x) w (take_bit w (a + b))"
      using IH [OF _ _ x] ConstantExpr_op_denotes [OF cl c, of Add] e b by (fastforce simp: ac_simps)
    show "denotes A \<sigma> (Sub_create_const A (ConstantExpr_op A Sub cl c) x) w (take_bit w (a - b))"
      using IH [OF _ _ x] ConstantExpr_op_denotes [OF cl c, of Sub] e b by (fastforce simp: algebra_simps)
  qed
  have nested': "denotes A \<sigma> (Sub_create_const A (ConstantExpr_op A Add cl c) x) w (take_bit w (a + b))"
      "denotes A \<sigma> (Add_create_const A (ConstantExpr_op A Sub cl c) x) w (take_bit w (a - b))"
    if e: "r = BinaryExpr Sub (ConstantExpr c) x" for c x
  proof -
    obtain u v where c: "denotes A \<sigma> (ConstantExpr c) w u" and x: "denotes A \<sigma> x w v" and b: "b = take_bit w (u - v)"
      using r unfolding e by (auto simp: denotes_Bin)
    show "denotes A \<sigma> (Sub_create_const A (ConstantExpr_op A Add cl c) x) w (take_bit w (a + b))"
      using IH [OF _ _ x] ConstantExpr_op_denotes [OF cl c, of Add] e b by (fastforce simp: algebra_simps)
    show "denotes A \<sigma> (Add_create_const A (ConstantExpr_op A Sub cl c) x) w (take_bit w (a - b))"
      using IH [OF _ _ x] ConstantExpr_op_denotes [OF cl c, of Sub] e b by (fastforce simp: algebra_simps)
  qed
  show ?case
    unfolding AddExpr_createPartialR.simps [of A cl r] SubExpr_createPartialR.simps [of A cl r]
    using XorPartialR_bool [OF cl r] alloc zero nested nested' w r by (auto split: option.split)
qed

lemma Add_create_const_denotes:
  assumes "denotes A \<sigma> (ConstantExpr k) w c" and "denotes A \<sigma> x w d"
  shows "denotes A \<sigma> (Add_create_const A k x) w (take_bit w (c + d))"
    and "denotes A \<sigma> (Sub_create_const A k x) w (take_bit w (c - d))"
proof -
  have "denotes A \<sigma> (Add_create_const A k x) w (take_bit w (c + d)) \<and>
      denotes A \<sigma> (Sub_create_const A k x) w (take_bit w (c - d))"
  proof (cases "dyn_cast_Constant x")
    case None
    then show ?thesis
      using AddSubExpr_createPartialR_denotes [OF assms] by (simp add: Add_create_const.simps Sub_create_const.simps)
  next
    case (Some y)
    then show ?thesis
      using ConstantExpr_op_denotes [of \<sigma> k w c y d Add] ConstantExpr_op_denotes [of \<sigma> k w c y d Sub] assms
      by (simp add: Add_create_const.simps Sub_create_const.simps)
  qed
  then show "denotes A \<sigma> (Add_create_const A k x) w (take_bit w (c + d))"
    and "denotes A \<sigma> (Sub_create_const A k x) w (take_bit w (c - d))" by auto
qed

lemma SubExpr_createPartial_denotes:
  assumes l: "denotes A \<sigma> l w a" and cr: "denotes A \<sigma> (ConstantExpr cr) w c"
  shows "denotes A \<sigma> (SubExpr_createPartial A l cr) w (take_bit w (a - c))"
proof -
  have w: "getBitWidth A cr = w" "width_ok w" using cr by (auto simp: denotes_Constant)
  have "denotes A \<sigma> (ConstantExpr (ap_of A w 0)) w 0"
    using denotes_alloc [OF w(2), of 0 0] by (simp add: ConstantExpr_alloc_def)
  from ConstantExpr_op_denotes [OF this cr, of Sub]
  have "denotes A \<sigma> (ConstantExpr (ConstantExpr_op A Sub (ap_of A w 0) cr)) w (take_bit w (0 - c))"
    by simp
  from AddSubExpr_createPartialR_denotes [OF this l] show ?thesis
    by (simp add: SubExpr_createPartial_def w del: ConstantExpr_op.simps)
qed

lemma Sub_create_const_r_denotes:
  assumes l: "denotes A \<sigma> l w a" and cr: "denotes A \<sigma> (ConstantExpr cr) w c"
  shows "denotes A \<sigma> (Sub_create_const_r A l cr) w (take_bit w (a - c))"
  using SubExpr_createPartial_denotes [OF l cr] ConstantExpr_op_denotes [of \<sigma> _ w a cr c Sub] l cr
  by (auto simp: Sub_create_const_r_def simp del: ConstantExpr_op.simps split: option.split)

lemma XorExpr_create_bool:
  assumes l: "denotes A \<sigma> l w a" and r: "denotes A \<sigma> r w b" and "w = Suc 0"
  shows "denotes A \<sigma> (XorExpr_create A l r) w (take_bit w (a + b))"
    "denotes A \<sigma> (XorExpr_create A l r) w (take_bit w (a - b))"
  using XorExpr_create_denotes [OF l r] denotes_fits [OF l] denotes_fits [OF r] assms(3)
    take_bit_1_add_xor [of a b] take_bit_1_sub_xor [of a b] by simp_all

lemma AddSub_create_denotes:
  "denotes A \<sigma> l w a \<Longrightarrow> denotes A \<sigma> r w b \<Longrightarrow>
   denotes A \<sigma> (Add_create A l r) w (take_bit w (a + b)) \<and>
   denotes A \<sigma> (Sub_create A l r) w (take_bit w (a - b))"
proof (induction "size l + size r" arbitrary: l r a b rule: less_induct)
  case less
  note l = less.prems(1) and r = less.prems(2)
  have w: "getWidth A l = w" "width_ok w" using l denotes_width_ok by (auto simp: denotes_def)
  have IH: "denotes A \<sigma> (Add_create A x y) w (take_bit w (c + d))"
      "denotes A \<sigma> (Sub_create A x y) w (take_bit w (c - d))"
    if "size x + size y < size l + size r" "denotes A \<sigma> x w c" "denotes A \<sigma> y w d" for x y c d
    using less.hyps that by blast+
  have left: "denotes A \<sigma> (if k = Add then Add_create_const A c (Add_create A x r)
        else Add_create_const A c (Sub_create A r x)) w (take_bit w (a + b))"
      "denotes A \<sigma> (if k = Add then Add_create_const A c (Sub_create A x r)
        else Sub_create_const A c (Add_create A x r)) w (take_bit w (a - b))"
    if ca: "const_addend l = Some (k, c, x)" for k c x
  proof -
    obtain u v where c: "denotes A \<sigma> (ConstantExpr c) w u" and x: "denotes A \<sigma> x w v"
      and a: "k = Add \<and> a = take_bit w (u + v) \<or> k = Sub \<and> a = take_bit w (u - v)"
      using const_addend_denotes [OF ca l] by auto
    have "size x + size r < size l + size r" using ca by (auto simp: const_addend_Some)
    note IHs = IH [OF this x r] IH(2) [OF _ r x] this
    show "denotes A \<sigma> (if k = Add then Add_create_const A c (Add_create A x r)
        else Add_create_const A c (Sub_create A r x)) w (take_bit w (a + b))"
      using a IHs(4) Add_create_const_denotes(1) [OF c IHs(1)] Add_create_const_denotes(1) [OF c IHs(3)]
      by (auto simp: algebra_simps)
    show "denotes A \<sigma> (if k = Add then Add_create_const A c (Sub_create A x r)
        else Sub_create_const A c (Add_create A x r)) w (take_bit w (a - b))"
      using a Add_create_const_denotes(1) [OF c IHs(2)] Add_create_const_denotes(2) [OF c IHs(1)]
      by (auto simp: algebra_simps)
  qed
  have right: "denotes A \<sigma> (if k = Add then Add_create_const A c (Add_create A l x)
        else Add_create_const A c (Sub_create A l x)) w (take_bit w (a + b))"
      "denotes A \<sigma> (if k = Add then Sub_create_const_r A (Sub_create A l x) c
        else Sub_create_const_r A (Add_create A l x) c) w (take_bit w (a - b))"
    if ca: "const_addend r = Some (k, c, x)" for k c x
  proof -
    obtain u v where c: "denotes A \<sigma> (ConstantExpr c) w u" and x: "denotes A \<sigma> x w v"
      and b: "k = Add \<and> b = take_bit w (u + v) \<or> k = Sub \<and> b = take_bit w (u - v)"
      using const_addend_denotes [OF ca r] by auto
    have "size l + size x < size l + size r" using ca by (auto simp: const_addend_Some)
    note IHs = IH [OF this l x]
    show "denotes A \<sigma> (if k = Add then Add_create_const A c (Add_create A l x)
        else Add_create_const A c (Sub_create A l x)) w (take_bit w (a + b))"
      using b Add_create_const_denotes(1) [OF c IHs(1)] Add_create_const_denotes(1) [OF c IHs(2)]
      by (auto simp: algebra_simps)
    show "denotes A \<sigma> (if k = Add then Sub_create_const_r A (Sub_create A l x) c
        else Sub_create_const_r A (Add_create A l x) c) w (take_bit w (a - b))"
      using b Sub_create_const_r_denotes [OF IHs(2) c] Sub_create_const_r_denotes [OF IHs(1) c]
      by (auto simp: algebra_simps)
  qed
  have alloc: "denotes A \<sigma> (BinaryExpr Add l r) w (take_bit w (a + b))"
    "denotes A \<sigma> (BinaryExpr Sub l r) w (take_bit w (a - b))"
    using l r by (auto intro: denotes_AddI denotes_SubI)
  have same: "denotes A \<sigma> (ConstantExpr_alloc A 0 (getWidth A r)) w (take_bit w (a - b))" if "l = r"
    using that denotes_fun [OF l, of w b] r w denotes_alloc [OF w(2), of 0 0] by simp
  have cr: "denotes A \<sigma> (AddExpr_create A l r) w (take_bit w (a + b))"
      "denotes A \<sigma> (SubExpr_create A l r) w (take_bit w (a - b))"
  proof -
    consider (bool) "w = Suc 0" | (l) k c x where "w \<noteq> Suc 0" "const_addend l = Some (k, c, x)"
      | (r) k c x where "w \<noteq> Suc 0" "const_addend l = None" "const_addend r = Some (k, c, x)"
      | (none) "w \<noteq> Suc 0" "const_addend l = None" "const_addend r = None"
      by (metis not_Some_eq prod_cases3)
    then have "denotes A \<sigma> (AddExpr_create A l r) w (take_bit w (a + b)) \<and>
      denotes A \<sigma> (SubExpr_create A l r) w (take_bit w (a - b))"
    proof cases
      case bool
      then show ?thesis
        unfolding AddExpr_create.simps [of A l r] SubExpr_create.simps [of A l r]
        using XorExpr_create_bool [OF l r] w by simp
    next
      case l: (l k c x)
      then show ?thesis
        unfolding AddExpr_create.simps [of A l r] SubExpr_create.simps [of A l r]
        using left [OF l(2)] same w by simp
    next
      case r: (r k c x)
      then show ?thesis
        unfolding AddExpr_create.simps [of A l r] SubExpr_create.simps [of A l r]
        using right [OF r(3)] same w by simp
    next
      case none
      then show ?thesis
        unfolding AddExpr_create.simps [of A l r] SubExpr_create.simps [of A l r]
        using alloc same w by simp
    qed
    then show "denotes A \<sigma> (AddExpr_create A l r) w (take_bit w (a + b))"
      "denotes A \<sigma> (SubExpr_create A l r) w (take_bit w (a - b))" by auto
  qed
  show ?case
  proof (cases "dyn_cast_Constant l")
    case (Some cl)
    with l show ?thesis
      using Add_create_const_denotes [OF _ r] by (simp add: Add_create_constant Sub_create_constant)
  next
    case None
    show ?thesis
    proof (cases "dyn_cast_Constant r")
      case None
      with \<open>dyn_cast_Constant l = None\<close> cr show ?thesis by (simp add: Add_create.simps Sub_create.simps)
    next
      case (Some cc)
      with \<open>dyn_cast_Constant l = None\<close> r show ?thesis
        using AddSubExpr_createPartialR_denotes [OF _ l, of cc b] SubExpr_createPartial_denotes [OF l, of cc b]
        by (simp add: Add_create.simps Sub_create.simps add.commute)
    qed
  qed
qed

lemmas Add_create_denotes = AddSub_create_denotes [THEN conjunct1]
lemmas Sub_create_denotes = AddSub_create_denotes [THEN conjunct2]

lemma bcreate_denotes:
  assumes l: "denotes A \<sigma> l w a" and r: "denotes A \<sigma> r w b"
    and "k \<in> {UDiv, SDiv, URem, SRem} \<Longrightarrow> dyn_cast_Constant r \<noteq> None \<Longrightarrow> b \<noteq> 0"
    and "denotes A \<sigma> (create A l r) (if is_cmp k then Suc 0 else w) (bin_sem k w a b)"
  shows "denotes A \<sigma> (bcreate A k create l r) (if is_cmp k then Suc 0 else w) (bin_sem k w a b)"
proof -
  have "denotes A \<sigma> (ConstantExpr (ConstantExpr_op A k cl cr)) (if is_cmp k then Suc 0 else w) (bin_sem k w a b)"
    if "l = ConstantExpr cl" "r = ConstantExpr cr" for cl cr
    using ConstantExpr_op_denotes [OF l [unfolded that] r [unfolded that], of k] assms(3) that by auto
  then show ?thesis using assms(4) by (auto simp: bcreate_def split: option.split)
qed

lemma denotes_bool_cases: "denotes A \<sigma> e (Suc 0) v \<Longrightarrow> v = 0 \<or> v = 1"
  using denotes_fits fits_1_cases by blast

lemma AndExpr_createPartial_denotes:
  assumes "denotes A \<sigma> l w a" and "denotes A \<sigma> (ConstantExpr cr) w b" and "w \<le> 64" and "dyn_cast_Constant l = None"
  shows "denotes A \<sigma> (AndExpr_createPartial A l cr) w (a AND b)"
  using And_create_denotes [OF assms(1-3)] assms(4) by (simp add: And_create.simps)

lemma Mul_create_denotes:
  assumes l: "denotes A \<sigma> l w a" and r: "denotes A \<sigma> r w b"
  shows "denotes A \<sigma> (Mul_create A l r) w (take_bit w (a * b))"
proof -
  have partial: "denotes A \<sigma> (MulExpr_createPartialR A cl x) w (take_bit w (c * d))"
    if cl: "denotes A \<sigma> (ConstantExpr cl) w c" and x: "denotes A \<sigma> x w d" and n: "dyn_cast_Constant x = None"
    for cl x c d
  proof -
    have w: "getBitWidth A cl = w" using cl by (simp add: denotes_Constant)
    have "0 \<le> c" using denotes_fits [OF cl] by (simp add: fits_def)
    have one: "c = 1" if "const_isOne A cl"
      using that cl \<open>0 \<le> c\<close> by (auto simp: const_isOne_def limited_value denotes_Constant UINT64_MAX_def min_def split: if_splits)
    have bool: "denotes A \<sigma> (AndExpr_createPartial A x cl) w (take_bit w (c * d))" if "w = Suc 0"
      using AndExpr_createPartial_denotes [OF x cl _ n] take_bit_1_mult_and [of c d] that
        denotes_fits [OF cl] denotes_fits [OF x] by (simp add: and.commute)
    have alloc: "denotes A \<sigma> (BinaryExpr Mul (ConstantExpr cl) x) w (take_bit w (c * d))"
      using cl x by (auto intro: denotes_BinI bin_safe_other)
    show ?thesis
      using one bool alloc const_isZero_denotes [OF cl] cl x denotes_take_bit [OF x] w
      by (auto simp: MulExpr_createPartialR_def)
  qed
  have create: "denotes A \<sigma> (MulExpr_create A l r) w (take_bit w (a * b))"
  proof (cases "w = Suc 0")
    case True
    then show ?thesis
      using denotes_AndI [OF l r] take_bit_1_mult_and [of a b] denotes_fits [OF l] denotes_fits [OF r] l
      by (simp add: MulExpr_create_def denotes_def)
  next
    case False
    have "getWidth A l = w" using l by (simp add: denotes_def)
    with False l r show ?thesis by (auto simp: MulExpr_create_def intro: denotes_BinI bin_safe_other)
  qed
  show ?thesis
    using partial [OF _ r, of _ a] partial [OF _ l, of _ b] create l r ConstantExpr_op_denotes [of \<sigma> _ w a _ b Mul]
    by (auto simp: Mul_create_def mult.commute split: option.split)
qed

lemma plain_alloc:
  assumes "denotes A \<sigma> l w a" and "denotes A \<sigma> r w b" and "bin_safe A k w r"
  shows "denotes A \<sigma> (BinaryExpr k l r) (if is_cmp k then Suc 0 else w) (bin_sem k w a b)"
  using assms by (auto intro: denotes_BinI)

text \<open>The Boolean special cases of the static functions, on values.\<close>

lemma bool_div_rem:
  assumes "a = 0 \<or> a = 1"
  shows "bin_sem UDiv (Suc 0) a 1 = a" "bin_sem SDiv (Suc 0) a 1 = a"
    "bin_sem URem (Suc 0) a 1 = 0" "bin_sem SRem (Suc 0) a 1 = 0"
  using assms by (auto simp: signed_take_bit_rec signed_modulo_int_def)

lemma bool_shifts:
  assumes "a = 0 \<or> a = 1" and "b = 0 \<or> b = 1"
  shows "bin_sem Shl (Suc 0) a b = a AND of_bool (b = 0)"
    "bin_sem LShr (Suc 0) a b = a AND of_bool (b = 0)"
    "bin_sem AShr (Suc 0) a b = a"
  using assms by (auto simp: signed_take_bit_rec)

lemma bool_cmps:
  assumes "a = 0 \<or> a = 1" and "b = 0 \<or> b = 1"
  shows "bin_sem Ult (Suc 0) a b = of_bool (a = 0) AND b"
    "bin_sem Ule (Suc 0) a b = of_bool (a = 0) OR b"
    "bin_sem Slt (Suc 0) a b = a AND of_bool (b = 0)"
    "bin_sem Sle (Suc 0) a b = a OR of_bool (b = 0)"
  using assms by (auto simp: signed_take_bit_rec)

lemma div_rem_create_denotes:
  assumes l: "denotes A \<sigma> l w a" and r: "denotes A \<sigma> r w b"
    and "w = Suc 0 \<or> dyn_cast_Constant r \<noteq> None \<Longrightarrow> b \<noteq> 0"
  shows "denotes A \<sigma> (bcreate A UDiv UDivExpr_create l r) w (bin_sem UDiv w a b)"
    "denotes A \<sigma> (bcreate A SDiv SDivExpr_create l r) w (bin_sem SDiv w a b)"
    "denotes A \<sigma> (bcreate A URem URemExpr_create l r) w (bin_sem URem w a b)"
    "denotes A \<sigma> (bcreate A SRem SRemExpr_create l r) w (bin_sem SRem w a b)"
proof -
  have w: "getWidth A l = w" using l by (simp add: denotes_def)
  have bool: "a = 0 \<or> a = 1" "b = 1" if "w = Suc 0"
    using denotes_bool_cases l r that assms(3) by auto
  note al = plain_alloc [OF l r bin_safe_other]
  note bc = bcreate_denotes [OF l r]
  have "denotes A \<sigma> (UDivExpr_create A l r) w (bin_sem UDiv w a b)"
    using bool bool_div_rem(1) [of a] al [of UDiv] l w by (cases "w = Suc 0") (simp_all add: UDivExpr_create_def)
  with bc [of UDiv UDivExpr_create] assms(3)
  show "denotes A \<sigma> (bcreate A UDiv UDivExpr_create l r) w (bin_sem UDiv w a b)" by simp
  have "denotes A \<sigma> (SDivExpr_create A l r) w (bin_sem SDiv w a b)"
    using bool bool_div_rem(2) [of a] al [of SDiv] l w by (cases "w = Suc 0") (simp_all add: SDivExpr_create_def)
  with bc [of SDiv SDivExpr_create] assms(3)
  show "denotes A \<sigma> (bcreate A SDiv SDivExpr_create l r) w (bin_sem SDiv w a b)" by simp
  have "denotes A \<sigma> (URemExpr_create A l r) w (bin_sem URem w a b)"
    using bool bool_div_rem(3) [of a] al [of URem] l w
    by (cases "w = Suc 0") (simp_all add: URemExpr_create_def denotes_alloc)
  with bc [of URem URemExpr_create] assms(3)
  show "denotes A \<sigma> (bcreate A URem URemExpr_create l r) w (bin_sem URem w a b)" by simp
  have "denotes A \<sigma> (SRemExpr_create A l r) w (bin_sem SRem w a b)"
    using bool bool_div_rem(4) [of a] al [of SRem] l w
    by (cases "w = Suc 0") (simp_all add: SRemExpr_create_def denotes_alloc)
  with bc [of SRem SRemExpr_create] assms(3)
  show "denotes A \<sigma> (bcreate A SRem SRemExpr_create l r) w (bin_sem SRem w a b)" by simp
qed

lemma shift_create_denotes:
  assumes l: "denotes A \<sigma> l w a" and r: "denotes A \<sigma> r w b"
  shows "bin_safe A Shl w r \<Longrightarrow> denotes A \<sigma> (bcreate A Shl ShlExpr_create l r) w (bin_sem Shl w a b)"
    "bin_safe A LShr w r \<Longrightarrow> denotes A \<sigma> (bcreate A LShr LShrExpr_create l r) w (bin_sem LShr w a b)"
    "denotes A \<sigma> (bcreate A AShr AShrExpr_create l r) w (bin_sem AShr w a b)"
proof -
  have w: "getWidth A l = w" using l by (simp add: denotes_def)
  have bool: "a = 0 \<or> a = 1" "b = 0 \<or> b = 1" if "w = Suc 0"
    using denotes_bool_cases l r that by auto
  have conj: "denotes A \<sigma> (And_create A l (createIsZero A r)) w (a AND of_bool (b = 0))" if "w = Suc 0"
    using And_create_denotes [OF l, of "createIsZero A r"] createIsZero_denotes [OF r] that by simp
  note bc = bcreate_denotes [OF l r]
  show "denotes A \<sigma> (bcreate A Shl ShlExpr_create l r) w (bin_sem Shl w a b)" if s: "bin_safe A Shl w r"
  proof -
    have "denotes A \<sigma> (ShlExpr_create A l r) w (bin_sem Shl w a b)"
    proof (cases "w = Suc 0")
      case True
      then show ?thesis using conj bool bool_shifts(1) [of a b] w by (simp add: ShlExpr_create_def)
    next
      case False
      have "denotes A \<sigma> l w (take_bit w (push_bit (nat b) a))" if "r = ConstantExpr c" "isMinValue A c" for c
        using that r l denotes_take_bit [OF l] by (simp add: sem_simps apint_simps)
      then show ?thesis
        using False w plain_alloc [OF l r s] by (auto simp: ShlExpr_create_def split: option.split)
    qed
    with bc [of Shl ShlExpr_create] show ?thesis by simp
  qed
  show "denotes A \<sigma> (bcreate A LShr LShrExpr_create l r) w (bin_sem LShr w a b)" if s: "bin_safe A LShr w r"
  proof -
    have "denotes A \<sigma> (LShrExpr_create A l r) w (bin_sem LShr w a b)"
      using conj bool bool_shifts(2) [of a b] w plain_alloc [OF l r s]
      by (cases "w = Suc 0") (simp_all add: LShrExpr_create_def)
    with bc [of LShr LShrExpr_create] show ?thesis by simp
  qed
  have "denotes A \<sigma> (AShrExpr_create A l r) w (bin_sem AShr w a b)"
    using bool bool_shifts(3) [of a b] l w plain_alloc [OF l r bin_safe_other, of AShr]
    by (cases "w = Suc 0") (simp_all add: AShrExpr_create_def del: bin_sem.simps)
  with bc [of AShr AShrExpr_create]
  show "denotes A \<sigma> (bcreate A AShr AShrExpr_create l r) w (bin_sem AShr w a b)" by simp
qed

lemma cmp_create_denotes:
  assumes l: "denotes A \<sigma> l w a" and r: "denotes A \<sigma> r w b"
  shows "denotes A \<sigma> (bcreate A Ult UltExpr_create l r) (Suc 0) (bin_sem Ult w a b)"
    "denotes A \<sigma> (bcreate A Ule UleExpr_create l r) (Suc 0) (bin_sem Ule w a b)"
    "denotes A \<sigma> (bcreate A Slt SltExpr_create l r) (Suc 0) (bin_sem Slt w a b)"
    "denotes A \<sigma> (bcreate A Sle SleExpr_create l r) (Suc 0) (bin_sem Sle w a b)"
proof -
  have w: "getWidth A l = w" using l by (simp add: denotes_def)
  have bool: "a = 0 \<or> a = 1" "b = 0 \<or> b = 1" if "w = Suc 0"
    using denotes_bool_cases l r that by auto
  note z = createIsZero_denotes [OF l] createIsZero_denotes [OF r]
  note al = plain_alloc [OF l r bin_safe_other]
  note bc = bcreate_denotes [OF l r]
  note simps = UltExpr_create_def UleExpr_create_def SltExpr_create_def SleExpr_create_def
  have "denotes A \<sigma> (UltExpr_create A l r) (Suc 0) (bin_sem Ult w a b)"
    using And_create_denotes [OF z(1), of r b] bool bool_cmps(1) [of a b] r w al [of Ult]
    by (cases "w = Suc 0") (simp_all add: simps del: bin_sem.simps)
  with bc [of Ult UltExpr_create]
  show "denotes A \<sigma> (bcreate A Ult UltExpr_create l r) (Suc 0) (bin_sem Ult w a b)" by simp
  have "denotes A \<sigma> (UleExpr_create A l r) (Suc 0) (bin_sem Ule w a b)"
    using Or_create_denotes [OF z(1), of r b] bool bool_cmps(2) [of a b] r w al [of Ule]
    by (cases "w = Suc 0") (simp_all add: simps del: bin_sem.simps)
  with bc [of Ule UleExpr_create]
  show "denotes A \<sigma> (bcreate A Ule UleExpr_create l r) (Suc 0) (bin_sem Ule w a b)" by simp
  have "denotes A \<sigma> (SltExpr_create A l r) (Suc 0) (bin_sem Slt w a b)"
    using And_create_denotes [OF _ z(2), of l a] bool bool_cmps(3) [of a b] l w al [of Slt]
    by (cases "w = Suc 0") (simp_all add: simps del: bin_sem.simps)
  with bc [of Slt SltExpr_create]
  show "denotes A \<sigma> (bcreate A Slt SltExpr_create l r) (Suc 0) (bin_sem Slt w a b)" by simp
  have "denotes A \<sigma> (SleExpr_create A l r) (Suc 0) (bin_sem Sle w a b)"
    using Or_create_denotes [OF _ z(2), of l a] bool bool_cmps(4) [of a b] l w al [of Sle]
    by (cases "w = Suc 0") (simp_all add: simps del: bin_sem.simps)
  with bc [of Sle SleExpr_create]
  show "denotes A \<sigma> (bcreate A Sle SleExpr_create l r) (Suc 0) (bin_sem Sle w a b)" by simp
qed

lemma Bin_create_denotes:
  assumes l: "denotes A \<sigma> l w a" and r: "denotes A \<sigma> r w b" and pre: "bin_pre A k w r b"
  shows "denotes A \<sigma> (Bin_create A k l r) (if is_cmp k then Suc 0 else w) (bin_sem k w a b)"
proof -
  have s: "bin_safe A k w r" using pre by (simp add: bin_pre_def)
  have d: "k \<in> {UDiv, SDiv, URem, SRem} \<Longrightarrow> w = Suc 0 \<or> dyn_cast_Constant r \<noteq> None \<Longrightarrow> b \<noteq> 0"
    using pre by (simp add: bin_pre_def)
  show ?thesis
  proof (cases k)
    case UDiv then show ?thesis using div_rem_create_denotes(1) [OF l r] d by simp next
    case SDiv then show ?thesis using div_rem_create_denotes(2) [OF l r] d by simp next
    case URem then show ?thesis using div_rem_create_denotes(3) [OF l r] d by simp next
    case SRem then show ?thesis using div_rem_create_denotes(4) [OF l r] d by simp next
    case And then show ?thesis using And_create_denotes [OF l r] s by simp next
    case Or then show ?thesis using Or_create_denotes [OF l r] pre by (simp add: bin_pre_def)
  qed (use s Add_create_denotes [OF l r] Sub_create_denotes [OF l r] Mul_create_denotes [OF l r]
      Xor_create_denotes [OF l r] shift_create_denotes [OF l r] Eq_create_denotes [OF l r]
      Ne_create_denotes [OF l r] cmp_create_denotes [OF l r] cmp_create_denotes [OF r l] in simp_all)
qed

end

end
