(* ===== verification/Expr_Read.thy ===== *)
theory Expr_Read
  imports Expr_Arith
begin

text \<open>
  \<open>SelectExpr::create\<close>, \<open>ReadExpr::create\<close> and \<open>ReadExpr::createTempRead\<close> of \<open>klee/lib/Expr/Expr.cpp\<close>.
\<close>

section \<open>Definitions\<close>

text \<open>\<open>SelectExpr::create\<close>.\<close>

function Select_create :: "'a ops \<Rightarrow> 'a expr \<Rightarrow> 'a expr \<Rightarrow> 'a expr \<Rightarrow> 'a expr" where
  "Select_create A c t f =
     (case dyn_cast_Constant c of
        Some CE \<Rightarrow> if const_isTrue A CE then t else f
      | None \<Rightarrow>
      if t = f then t
      else case dyn_cast_Select t of
        Some (c2, t2, f2) \<Rightarrow>
          if f = f2 then Select_create A (And_create A c c2) t2 f
          else if f = t2 then Select_create A (And_create A c (Not_create A c2)) f2 f
          else SelectExpr c t f
      | None \<Rightarrow>
      (case dyn_cast_Select f of
        Some (c2, t2, f2) \<Rightarrow>
          if t = t2 then Select_create A (Or_create A c c2) t f2
          else if t = f2 then Select_create A (Or_create A c (Not_create A c2)) t t2
          else SelectExpr c t f
      | None \<Rightarrow>
      if getWidth A t = 1 then
        (case dyn_cast_Constant t of
           Some CE \<Rightarrow>
             if const_isTrue A CE then Or_create A c f else And_create A (createIsZero A c) f
         | None \<Rightarrow>
         (case dyn_cast_Constant f of
            Some CE \<Rightarrow>
              if const_isTrue A CE then Or_create A (createIsZero A c) t else And_create A c t
          | None \<Rightarrow> SelectExpr c t f))
      else SelectExpr c t f))"
  by pat_completeness auto
termination
  by (relation "measure (\<lambda>(A, c, t, f). size t + size f)") auto

declare Select_create.simps [simp del]

text \<open>\<open>SelectExpr::isConstantCases\<close> and \<open>SelectExpr::hasConstantCases\<close>.\<close>

fun isConstantCases :: "'a expr \<Rightarrow> bool" where
  "isConstantCases (SelectExpr c t f) \<longleftrightarrow>
     (if dyn_cast_Select t \<noteq> None then isConstantCases t else dyn_cast_Constant t \<noteq> None) \<and>
     (if dyn_cast_Select f \<noteq> None then isConstantCases f else dyn_cast_Constant f \<noteq> None)"
| "isConstantCases _ = False"

fun hasConstantCases :: "'a expr \<Rightarrow> bool" where
  "hasConstantCases (SelectExpr c t f) \<longleftrightarrow>
     dyn_cast_Constant t \<noteq> None \<or> dyn_cast_Constant f \<noteq> None \<or>
     hasConstantCases t \<or> hasConstantCases f"
| "hasConstantCases _ = False"

text \<open>
  \<open>ReadExpr::create\<close>: the loop over the update list returns the value of the newest update whose index
  is equal to the index read, as long as every comparison folds to a constant.
\<close>

fun ReadExpr_lookup :: "'a ops \<Rightarrow> 'a expr \<Rightarrow> 'a update_node \<Rightarrow> 'a expr option" where
  "ReadExpr_lookup A index NoUpdate = None"
| "ReadExpr_lookup A index (UpdateNode nxt ui uv) =
     (case dyn_cast_Constant (Eq_create A index ui) of
        Some CE \<Rightarrow> if const_isTrue A CE then Some uv else ReadExpr_lookup A index nxt
      | None \<Rightarrow> None)"

function Read_create :: "'a ops \<Rightarrow> 'a array_obj \<Rightarrow> 'a update_node \<Rightarrow> 'a expr \<Rightarrow> 'a expr" where
  "Read_create A root us index =
     (case (if hasConstantCases index then dyn_cast_Select index else None) of
        Some (c, t, f) \<Rightarrow> Select_create A c (Read_create A root us t) (Read_create A root us f)
      | None \<Rightarrow>
          (case ReadExpr_lookup A index us of
             Some v \<Rightarrow> v
           | None \<Rightarrow> ReadExpr root us index))"
  by pat_completeness auto
termination
  by (relation "measure (\<lambda>(A, root, us, index). size index)") (auto split: if_splits)

declare Read_create.simps [simp del]

text \<open>\<open>ReadExpr::createTempRead\<close>; \<open>None\<close> is the \<open>pabort\<close> on an invalid width.\<close>

definition createTempRead :: "'a ops \<Rightarrow> 'a array_obj \<Rightarrow> nat \<Rightarrow> 'a expr option" where
  "createTempRead A root w =
     (let rd = (\<lambda>i. Read_create A root NoUpdate (ConstantExpr_alloc A i 32)) in
      if w = 1 then Some (ZExt_create A (rd 0) 1)
      else if w = 8 then Some (rd 0)
      else if w = 16 then Some (Concat_create A (rd 1) (rd 0))
      else if w = 32 then Some (Concat_create4 A (rd 3) (rd 2) (rd 1) (rd 0))
      else if w = 64 then
        Some (Concat_create8 A (rd 7) (rd 6) (rd 5) (rd 4) (rd 3) (rd 2) (rd 1) (rd 0))
      else if w = 128 then Concat_createN A (map rd (rev [0..<16]))
      else None)"

section \<open>The constructors compute the operation they name\<close>

context apint
begin

lemma Select_create_denotes:
  "denotes A \<sigma> c (Suc 0) b \<Longrightarrow> denotes A \<sigma> t w x \<Longrightarrow> denotes A \<sigma> f w y \<Longrightarrow>
   denotes A \<sigma> (Select_create A c t f) w (if b \<noteq> 0 then x else y)"
proof (induction "size t + size f" arbitrary: c t f b x y rule: less_induct)
  case less
  note c = less.prems(1) and t = less.prems(2) and f = less.prems(3)
  have b: "b = 0 \<or> b = 1" by (rule denotes_bool_cases [OF c])
  have w: "getWidth A t = w" using t by (simp add: denotes_def)
  have alloc: "denotes A \<sigma> (SelectExpr c t f) w (if b \<noteq> 0 then x else y)"
    using c t f by (rule denotes_SelectI) simp
  have IH: "denotes A \<sigma> (Select_create A c' t' f') w (if b' \<noteq> 0 then x' else y')"
    if "size t' + size f' < size t + size f" "denotes A \<sigma> c' (Suc 0) b'" "denotes A \<sigma> t' w x'" "denotes A \<sigma> f' w y'"
    for c' t' f' b' x' y'
    using less.hyps that by blast
  note notc = Not_create_denotes [where w = "Suc 0"]
  have inner: "\<exists>b2 x2 y2. denotes A \<sigma> c2 (Suc 0) b2 \<and> denotes A \<sigma> t2 w x2 \<and> denotes A \<sigma> f2 w y2 \<and>
      z = (if b2 \<noteq> 0 then x2 else y2) \<and> (b2 = 0 \<or> b2 = 1)"
    if "denotes A \<sigma> (SelectExpr c2 t2 f2) w z" for c2 t2 f2 z
    using that denotes_bool_cases by (fastforce simp: denotes_Select)
  have t1: "denotes A \<sigma> (Select_create A (And_create A c c2) t2 f) w (if b \<noteq> 0 then x else y)"
    if "t = SelectExpr c2 t2 f" for c2 t2
  proof -
    obtain b2 x2 y2 where d: "denotes A \<sigma> c2 (Suc 0) b2" "denotes A \<sigma> t2 w x2" "denotes A \<sigma> f w y2"
      "x = (if b2 \<noteq> 0 then x2 else y2)" "b2 = 0 \<or> b2 = 1"
      using inner t unfolding \<open>t = SelectExpr c2 t2 f\<close> by blast
    then have "y2 = y" using denotes_fun [OF f] by blast
    from IH [OF _ And_create_denotes [OF c d(1)] d(2) f] d(4,5) b this \<open>t = SelectExpr c2 t2 f\<close>
    show ?thesis by auto
  qed
  have t2: "denotes A \<sigma> (Select_create A (And_create A c (Not_create A c2)) f2 f) w (if b \<noteq> 0 then x else y)"
    if "t = SelectExpr c2 f f2" for c2 f2
  proof -
    obtain b2 x2 y2 where d: "denotes A \<sigma> c2 (Suc 0) b2" "denotes A \<sigma> f w x2" "denotes A \<sigma> f2 w y2"
      "x = (if b2 \<noteq> 0 then x2 else y2)" "b2 = 0 \<or> b2 = 1"
      using inner t unfolding \<open>t = SelectExpr c2 f f2\<close> by blast
    then have "x2 = y" using denotes_fun [OF f] by blast
    from IH [OF _ And_create_denotes [OF c notc [OF d(1)]] d(3) f] d(4,5) b this \<open>t = SelectExpr c2 f f2\<close>
    show ?thesis by auto
  qed
  have f1: "denotes A \<sigma> (Select_create A (Or_create A c c2) t f2) w (if b \<noteq> 0 then x else y)"
    if "f = SelectExpr c2 t f2" for c2 f2
  proof -
    obtain b2 x2 y2 where d: "denotes A \<sigma> c2 (Suc 0) b2" "denotes A \<sigma> t w x2" "denotes A \<sigma> f2 w y2"
      "y = (if b2 \<noteq> 0 then x2 else y2)" "b2 = 0 \<or> b2 = 1"
      using inner f unfolding \<open>f = SelectExpr c2 t f2\<close> by blast
    then have "x2 = x" using denotes_fun [OF t] by blast
    from IH [OF _ Or_create_denotes [OF c d(1)] t d(3)] d(4,5) b this \<open>f = SelectExpr c2 t f2\<close>
    show ?thesis by auto
  qed
  have f2: "denotes A \<sigma> (Select_create A (Or_create A c (Not_create A c2)) t t2) w (if b \<noteq> 0 then x else y)"
    if "f = SelectExpr c2 t2 t" for c2 t2
  proof -
    obtain b2 x2 y2 where d: "denotes A \<sigma> c2 (Suc 0) b2" "denotes A \<sigma> t2 w x2" "denotes A \<sigma> t w y2"
      "y = (if b2 \<noteq> 0 then x2 else y2)" "b2 = 0 \<or> b2 = 1"
      using inner f unfolding \<open>f = SelectExpr c2 t2 t\<close> by blast
    then have "y2 = x" using denotes_fun [OF t] by blast
    from IH [OF _ Or_create_denotes [OF c notc [OF d(1)]] t d(2)] d(4,5) b this \<open>f = SelectExpr c2 t2 t\<close>
    show ?thesis by auto
  qed
  have k: "denotes A \<sigma> (if const_isTrue A CE then t else f) w (if b \<noteq> 0 then x else y)" if "c = ConstantExpr CE" for CE
    using c t f const_isTrue_denotes [of \<sigma> CE b] that by simp
  have eq: "x = y" if "t = f" using that denotes_fun [OF t, of w y] f by simp
  have bt: "denotes A \<sigma> (if const_isTrue A CE then Or_create A c f else And_create A (createIsZero A c) f) w
      (if b \<noteq> 0 then x else y)" if "t = ConstantExpr CE" "w = Suc 0" for CE
    using Or_create_denotes [OF c, of f y] And_create_denotes [OF createIsZero_denotes [OF c], of f y]
      const_isTrue_denotes [of \<sigma> CE x] t f that b denotes_bool_cases [of \<sigma> t x] denotes_bool_cases [of \<sigma> f y]
    by auto
  have bf: "denotes A \<sigma> (if const_isTrue A CE then Or_create A (createIsZero A c) t else And_create A c t) w
      (if b \<noteq> 0 then x else y)" if "f = ConstantExpr CE" "w = Suc 0" for CE
    using Or_create_denotes [OF createIsZero_denotes [OF c], of t x] And_create_denotes [OF c, of t x]
      const_isTrue_denotes [of \<sigma> CE y] t f that b denotes_bool_cases [of \<sigma> t x] denotes_bool_cases [of \<sigma> f y]
    by auto
  show ?case
  proof (cases "dyn_cast_Constant c = None \<and> t \<noteq> f")
    case False
    then show ?thesis
      unfolding Select_create.simps [of A c t f] using k eq t by (cases "dyn_cast_Constant c") simp_all
  next
    case True
    show ?thesis
    proof (cases "dyn_cast_Select t")
      case (Some p)
      then show ?thesis
        unfolding Select_create.simps [of A c t f] using True t1 t2 alloc by (cases p) auto
    next
      case t: None
      show ?thesis
      proof (cases "dyn_cast_Select f")
        case (Some p)
        then show ?thesis
          unfolding Select_create.simps [of A c t f] using True t f1 f2 alloc by (cases p) auto
      next
        case None
        show ?thesis
        proof (cases "w = Suc 0")
          case False
          then show ?thesis
            unfolding Select_create.simps [of A c t f] using True t None alloc w by simp
        next
          case b: True
          show ?thesis
            using bt [OF _ b] bf [OF _ b]
            unfolding Select_create.simps [of A c t f]
            by (cases "dyn_cast_Constant t"; cases "dyn_cast_Constant f") (use True t None alloc w b in simp_all)
        qed
      qed
    qed
  qed
qed

lemma ReadExpr_lookup_denotes:
  assumes i: "denotes A \<sigma> index 32 iv" and "wt_upd A us" and "safe_upd A \<sigma> us"
    and "ReadExpr_lookup A index us = Some v"
  shows "denotes A \<sigma> v 8 (sem_read A \<sigma> us iv base)"
  using assms(2-4)
proof (induction us rule: update_plain_induct)
  case (UpdateNode nxt ui uv)
  then have ui: "denotes A \<sigma> ui 32 (sem A \<sigma> ui)" and uv: "denotes A \<sigma> uv 8 (sem A \<sigma> uv)"
    by (auto simp: denotes_def)
  obtain CE where CE: "Eq_create A index ui = ConstantExpr CE"
    using UpdateNode.prems(3) by (auto split: option.splits)
  have "const_isTrue A CE \<longleftrightarrow> iv = sem A \<sigma> ui"
    using Eq_create_denotes [OF i ui] const_isTrue_denotes [of \<sigma> CE] unfolding CE by fastforce
  with UpdateNode CE uv show ?case by (auto split: if_splits)
qed simp

lemma denotes_ReadI:
  assumes "wt_array A root" and "wt_upd A us" and "safe_upd A \<sigma> us" and "denotes A \<sigma> i 32 iv"
    and "ConstArrayOpt A \<Longrightarrow> isConstantArray root \<Longrightarrow> us = NoUpdate \<Longrightarrow> iv < int (array_size root)"
  shows "denotes A \<sigma> (ReadExpr root us i) 8 (sem_read A \<sigma> us iv (array_value A \<sigma> root iv))"
  using assms by (auto simp: denotes_Read)

lemma Read_create_denotes:
  assumes "wt_array A root" and "wt_upd A us" and "safe_upd A \<sigma> us"
  shows "denotes A \<sigma> i 32 iv \<Longrightarrow>
    (ConstArrayOpt A \<Longrightarrow> isConstantArray root \<Longrightarrow> us = NoUpdate \<Longrightarrow>
       \<not> hasConstantCases i \<and> iv < int (array_size root)) \<Longrightarrow>
    denotes A \<sigma> (Read_create A root us i) 8 (sem_read A \<sigma> us iv (array_value A \<sigma> root iv))"
proof (induction i arbitrary: iv rule: measure_induct_rule [of size])
  case (less i)
  note eqn = Read_create.simps [of A root us i]
  show ?case
  proof (cases "hasConstantCases i")
    case False
    have "denotes A \<sigma> (ReadExpr root us i) 8 (sem_read A \<sigma> us iv (array_value A \<sigma> root iv))"
      using assms less.prems by (intro denotes_ReadI) auto
    with False ReadExpr_lookup_denotes [OF less.prems(1) assms(2,3)] show ?thesis
      unfolding eqn by (auto split: option.split)
  next
    case True
    then obtain c t f where i: "i = SelectExpr c t f" by (cases i) auto
    from less.prems(1) obtain b x y where c: "denotes A \<sigma> c (Suc 0) b" and t: "denotes A \<sigma> t 32 x"
      and f: "denotes A \<sigma> f 32 y" and iv: "iv = (if b \<noteq> 0 then x else y)"
      unfolding i by (auto simp: denotes_Select)
    have "denotes A \<sigma> (Read_create A root us t) 8 (sem_read A \<sigma> us x (array_value A \<sigma> root x))"
      "denotes A \<sigma> (Read_create A root us f) 8 (sem_read A \<sigma> us y (array_value A \<sigma> root y))"
      by (rule less.IH; use t f i less.prems(2) True in force)+
    from Select_create_denotes [OF c this] show ?thesis
      unfolding eqn using True i iv by (auto split: if_splits)
  qed
qed

text \<open>A temporary read is the little-endian number in the first bytes of the array.\<close>

lemma createTempRead_denotes:
  assumes "wt_array A root" and "w = n * 8" and "w \<in> {8, 16, 32, 64, 128}"
    and "ConstArrayOpt A \<Longrightarrow> isConstantArray root \<Longrightarrow> n \<le> array_size root"
  shows "\<exists>e. createTempRead A root w = Some e \<and>
    denotes A \<sigma> e w (cat_list 8 (map (\<lambda>i. array_value A \<sigma> root (int i)) (rev [0..<n])))"
proof -
  define rd where "rd i = Read_create A root NoUpdate (ConstantExpr_alloc A i 32)" for i
  have n: "n \<in> {1, 2, 4, 8, 16}" using assms(2,3) by auto
  have "denotes A \<sigma> (rd i) 8 (array_value A \<sigma> root (int i))" if "i < n" for i
  proof -
    have "i < 2 ^ 32" using that n by auto
    then have "denotes A \<sigma> (ConstantExpr_alloc A i 32) 32 (int i)"
      by (intro denotes_alloc) (auto simp: take_bit_int_eq_self)
    moreover have "i < array_size root" if "ConstArrayOpt A" "isConstantArray root"
      using assms(4) [OF that] \<open>i < n\<close> by simp
    ultimately show ?thesis
      using Read_create_denotes [OF assms(1), of NoUpdate \<sigma> "ConstantExpr_alloc A i 32" "int i"]
      by (simp add: rd_def ConstantExpr_alloc_def)
  qed
  then have all: "list_all2 (\<lambda>k v. denotes A \<sigma> k 8 v) (map rd (rev [0..<n]))
      (map (\<lambda>i. array_value A \<sigma> root (int i)) (rev [0..<n]))"
    by (auto simp: list_all2_map1 list_all2_map2 list.rel_refl_strong intro!: list.rel_refl_strong)
  have "\<exists>e. Concat_createN A (map rd (rev [0..<n])) = Some e \<and>
      denotes A \<sigma> e w (cat_list 8 (map (\<lambda>i. array_value A \<sigma> root (int i)) (rev [0..<n])))"
    using Concat_createN_denotes [OF all] n assms(2) by (auto simp: width_ok_def)
  moreover have "createTempRead A root w = Concat_createN A (map rd (rev [0..<n]))"
    using n assms(2)
    by (auto simp: createTempRead_def rd_def Let_def Concat_create4_def Concat_create8_def
        upt_conv_Cons numeral_eq_Suc)
  ultimately show ?thesis by simp
qed

end

end
