(* ===== verification/Expr_Compare.thy ===== *)
theory Expr_Compare
  imports Expr_Sem
begin

text \<open>
  Hashing and comparison of expressions (\<open>Expr::compare\<close>, the \<open>computeHash\<close> methods of
  \<open>klee/lib/Expr/Expr.cpp\<close> and \<open>klee/include/klee/Expr.h\<close>, and \<open>klee/lib/Expr/Updates.cpp\<close>).

  Hash values are the 32-bit unsigned numbers of the code.  Two arrays are told apart by their name
  and then by their address.  The tests on addresses of expressions and of update nodes in the code
  (\<open>this == &b\<close>, \<open>an == bn\<close>) only skip comparisons of an object with itself; \<open>compare_refl\<close> shows
  that the result is the same without them.

  The comparison is the lexicographic order on a sequence of numbers, \<open>key\<close>; it is a total order
  (the locale \<open>total_compare\<close>), and equality of the order is structural equality.
\<close>

section \<open>Definitions\<close>

fun bin_code :: "binkind \<Rightarrow> nat" where
  "bin_code Add = 8" | "bin_code Sub = 9" | "bin_code Mul = 10" | "bin_code UDiv = 11"
| "bin_code SDiv = 12" | "bin_code URem = 13" | "bin_code SRem = 14" | "bin_code And = 15"
| "bin_code Or = 16" | "bin_code Xor = 17" | "bin_code Shl = 18" | "bin_code LShr = 19"
| "bin_code AShr = 20" | "bin_code Eq = 21" | "bin_code Ne = 22" | "bin_code Ult = 23"
| "bin_code Ule = 24" | "bin_code Ugt = 25" | "bin_code Uge = 26" | "bin_code Slt = 27"
| "bin_code Sle = 28" | "bin_code Sgt = 29" | "bin_code Sge = 30"

fun getKind :: "'a expr \<Rightarrow> nat" where
  "getKind (ConstantExpr c) = 0"
| "getKind (ReadExpr root us i) = 1"
| "getKind (SelectExpr c t f) = 2"
| "getKind (ConcatExpr l r) = 3"
| "getKind (ExtractExpr e off w) = 4"
| "getKind (NotExpr e) = 5"
| "getKind (ZExtExpr e w) = 6"
| "getKind (SExtExpr e w) = 7"
| "getKind (BinaryExpr k l r) = bin_code k"

definition hash_name :: "string \<Rightarrow> 32 word" where
  "hash_name s = foldl (\<lambda>res ch. res * 39 + word_of_int (signed_take_bit 7 (of_char ch))) 0 s"

fun hash :: "'a ops \<Rightarrow> 'a expr \<Rightarrow> 32 word"
and hash_upd :: "'a ops \<Rightarrow> 'a update_node \<Rightarrow> 32 word" where
  "hash A (ConstantExpr c) =
     word_of_nat (if getBitWidth A c \<le> 64 then ap_getZExtValue A c else ap_rawWord A c)"
| "hash A (ReadExpr root us i) = ((hash A i * 39) XOR (hash_name (array_name root) XOR hash_upd A us)) XOR 1"
| "hash A (SelectExpr c t f) = hash A c XOR hash A t XOR hash A f XOR 2"
| "hash A (ConcatExpr l r) = hash A l XOR hash A r XOR 3"
| "hash A (ExtractExpr e off w) =
     (word_of_nat off * 39) XOR (word_of_nat w * 39) XOR 4 XOR (hash A e * 39)"
| "hash A (NotExpr e) = (hash A e * 39 * 5) XOR 5"
| "hash A (ZExtExpr e w) = ((word_of_nat w * 39) XOR (hash A e * 39)) XOR 6"
| "hash A (SExtExpr e w) = ((word_of_nat w * 39) XOR (hash A e * 39)) XOR 7"
| "hash A (BinaryExpr k l r) = ((hash A l XOR hash A r) * 39) XOR word_of_nat (bin_code k)"
| "hash_upd A NoUpdate = 0"
| "hash_upd A (UpdateNode nxt ui uv) = (hash A ui XOR hash A uv) XOR hash_upd A nxt"

text \<open>Three-way comparison of two values of a linear order, and \<open>if (int res = a) return res;\<close>.\<close>

definition cmp3 :: "'b::linorder \<Rightarrow> 'b \<Rightarrow> int" where
  "cmp3 x y = (if x = y then 0 else if x < y then - 1 else 1)"

definition cmp_then :: "int \<Rightarrow> int \<Rightarrow> int" where
  "cmp_then r s = (if r \<noteq> 0 then r else s)"

fun cmp_name :: "string \<Rightarrow> string \<Rightarrow> int" where
  "cmp_name [] [] = 0"
| "cmp_name [] (y # ys) = - 1"
| "cmp_name (x # xs) [] = 1"
| "cmp_name (x # xs) (y # ys) = cmp_then (cmp3 (of_char x :: nat) (of_char y)) (cmp_name xs ys)"

fun upd_size :: "'a update_node \<Rightarrow> nat" where
  "upd_size NoUpdate = 0"
| "upd_size (UpdateNode nxt ui uv) = 1 + upd_size nxt"

definition compare_contents_const :: "'a ops \<Rightarrow> 'a \<Rightarrow> 'a \<Rightarrow> int" where
  "compare_contents_const A x y =
     (if getBitWidth A x \<noteq> getBitWidth A y then if getBitWidth A x < getBitWidth A y then - 1 else 1
      else if ap_eq A x y then 0
      else if ap_ult A x y then - 1 else 1)"

function compare :: "'a ops \<Rightarrow> 'a expr \<Rightarrow> 'a expr \<Rightarrow> int"
and compare_kids :: "'a ops \<Rightarrow> 'a expr \<Rightarrow> 'a expr \<Rightarrow> int"
and compare_upd :: "'a ops \<Rightarrow> 'a update_node \<Rightarrow> 'a update_node \<Rightarrow> int" where
  "compare A a b =
     (if getKind a \<noteq> getKind b then if getKind a < getKind b then - 1 else 1
      else if hash A a \<noteq> hash A b then if hash A a < hash A b then - 1 else 1
      else compare_kids A a b)"
| "compare_kids A a b =
     (case a of
        ConstantExpr x \<Rightarrow> (case b of ConstantExpr y \<Rightarrow> compare_contents_const A x y | _ \<Rightarrow> 0)
      | ReadExpr root us i \<Rightarrow>
          (case b of ReadExpr root' us' i' \<Rightarrow>
             cmp_then
               (if array_name root \<noteq> array_name root' then cmp_name (array_name root) (array_name root')
                else if array_addr root \<noteq> array_addr root' then
                  if array_addr root < array_addr root' then - 1 else 1
                else if upd_size us < upd_size us' then - 1
                else if upd_size us > upd_size us' then 1
                else compare_upd A us us')
               (compare A i i')
           | _ \<Rightarrow> 0)
      | SelectExpr c t f \<Rightarrow>
          (case b of SelectExpr c' t' f' \<Rightarrow>
             cmp_then (compare A c c') (cmp_then (compare A t t') (compare A f f'))
           | _ \<Rightarrow> 0)
      | ConcatExpr l r \<Rightarrow>
          (case b of ConcatExpr l' r' \<Rightarrow> cmp_then (compare A l l') (compare A r r') | _ \<Rightarrow> 0)
      | ExtractExpr e off w \<Rightarrow>
          (case b of ExtractExpr e' off' w' \<Rightarrow>
             cmp_then (cmp_then (cmp3 off off') (cmp3 w w')) (compare A e e')
           | _ \<Rightarrow> 0)
      | NotExpr e \<Rightarrow>
          (case b of NotExpr e' \<Rightarrow>
             cmp_then (if compare A e e' \<noteq> 0 then if compare A e e' < 0 then - 1 else 1 else 0)
               (compare A e e')
           | _ \<Rightarrow> 0)
      | ZExtExpr e w \<Rightarrow>
          (case b of ZExtExpr e' w' \<Rightarrow> cmp_then (cmp3 w w') (compare A e e') | _ \<Rightarrow> 0)
      | SExtExpr e w \<Rightarrow>
          (case b of SExtExpr e' w' \<Rightarrow> cmp_then (cmp3 w w') (compare A e e') | _ \<Rightarrow> 0)
      | BinaryExpr k l r \<Rightarrow>
          (case b of BinaryExpr k' l' r' \<Rightarrow> cmp_then (compare A l l') (compare A r r') | _ \<Rightarrow> 0))"
| "compare_upd A us us' =
     (case us of
        NoUpdate \<Rightarrow> 0
      | UpdateNode nxt ui uv \<Rightarrow>
          (case us' of
             NoUpdate \<Rightarrow> 0
           | UpdateNode nxt' ui' uv' \<Rightarrow>
               cmp_then (cmp_then (compare A ui ui') (compare A uv uv')) (compare_upd A nxt nxt')))"

  by pat_completeness auto
termination
  by (relation "measures [case_sum (\<lambda>(A, a, b). size a) (case_sum (\<lambda>(A, a, b). size a) (\<lambda>(A, us, us'). size us)),
      case_sum (\<lambda>_. 1) (\<lambda>_. 0)]") auto

declare compare.simps [simp del] compare_kids.simps [simp del] compare_upd.simps [simp del]

section \<open>The comparison is lexicographic\<close>

fun lexc :: "int list \<Rightarrow> int list \<Rightarrow> int" where
  "lexc [] [] = 0"
| "lexc [] (y # ys) = - 1"
| "lexc (x # xs) [] = 1"
| "lexc (x # xs) (y # ys) = cmp_then (cmp3 x y) (lexc xs ys)"

lemma cmp_then_0 [simp]: "cmp_then 0 s = s" "cmp_then r 0 = r"
  by (auto simp: cmp_then_def)

lemma cmp_then_assoc: "cmp_then (cmp_then a b) c = cmp_then a (cmp_then b c)"
  by (simp add: cmp_then_def)

lemma cmp_then_eq_0 [simp]: "cmp_then r s = 0 \<longleftrightarrow> r = 0 \<and> s = 0"
  by (auto simp: cmp_then_def)

lemma cmp3_refl [simp]: "cmp3 x x = 0" and cmp3_eq_0 [simp]: "cmp3 x y = 0 \<longleftrightarrow> x = y"
  by (auto simp: cmp3_def)

lemma cmp3_if: "(if x \<noteq> y then if x < y then - 1 else 1 else r) = cmp_then (cmp3 x y) r"
  by (auto simp: cmp3_def cmp_then_def)

lemma lexc_0: "lexc xs ys = 0 \<longleftrightarrow> xs = ys"
  by (induction xs ys rule: lexc.induct) auto

lemma lexc_range: "lexc xs ys = - 1 \<or> lexc xs ys = 0 \<or> lexc xs ys = 1"
  by (induction xs ys rule: lexc.induct) (auto simp: cmp3_def cmp_then_def)

lemma lexc_antisym: "lexc ys xs = - lexc xs ys"
  by (induction xs ys rule: lexc.induct) (auto simp: cmp3_def cmp_then_def)

lemma lexc_trans: "lexc xs ys < 0 \<Longrightarrow> lexc ys zs < 0 \<Longrightarrow> lexc xs zs < 0"
proof (induction xs ys arbitrary: zs rule: lexc.induct)
  case (2 y ys)
  then show ?case by (cases zs) auto
next
  case (4 x xs y ys)
  then show ?case by (cases zs) (auto simp: cmp3_def cmp_then_def split: if_splits)
qed auto

text \<open>The sequence of numbers the comparison looks at.\<close>

definition key_name :: "string \<Rightarrow> int list" where
  "key_name s = map (\<lambda>ch. int (of_char ch) + 1) s @ [0]"

fun key :: "'a ops \<Rightarrow> 'a expr \<Rightarrow> int list"
and key_upd :: "'a ops \<Rightarrow> 'a update_node \<Rightarrow> int list" where
  "key A (ConstantExpr c) =
     [0, uint (hash A (ConstantExpr c)), int (getBitWidth A c), ap_uint A c]"
| "key A (ReadExpr root us i) =
     [1, uint (hash A (ReadExpr root us i))] @ key_name (array_name root) @
     [int (array_addr root), int (upd_size us)] @ key_upd A us @ key A i"
| "key A (SelectExpr c t f) =
     [2, uint (hash A (SelectExpr c t f))] @ key A c @ key A t @ key A f"
| "key A (ConcatExpr l r) = [3, uint (hash A (ConcatExpr l r))] @ key A l @ key A r"
| "key A (ExtractExpr e off w) =
     [4, uint (hash A (ExtractExpr e off w)), int off, int w] @ key A e"
| "key A (NotExpr e) = [5, uint (hash A (NotExpr e))] @ key A e"
| "key A (ZExtExpr e w) = [6, uint (hash A (ZExtExpr e w)), int w] @ key A e"
| "key A (SExtExpr e w) = [7, uint (hash A (SExtExpr e w)), int w] @ key A e"
| "key A (BinaryExpr k l r) =
     [int (bin_code k), uint (hash A (BinaryExpr k l r))] @ key A l @ key A r"
| "key_upd A NoUpdate = []"
| "key_upd A (UpdateNode nxt ui uv) = key A ui @ key A uv @ key_upd A nxt"

lemma bin_code_inj [simp]: "bin_code k = bin_code k' \<longleftrightarrow> k = k'"
  by (cases k; cases k'; simp)

lemma bin_code_ge: "8 \<le> bin_code k"
  by (cases k) simp_all

lemma bin_code_not [simp]: "bin_code k \<noteq> 0" "bin_code k \<noteq> Suc 0" "bin_code k \<noteq> 2" "bin_code k \<noteq> 3"
  "bin_code k \<noteq> 4" "bin_code k \<noteq> 5" "bin_code k \<noteq> 6" "bin_code k \<noteq> 7"
  "0 \<noteq> bin_code k" "Suc 0 \<noteq> bin_code k" "2 \<noteq> bin_code k" "3 \<noteq> bin_code k"
  "4 \<noteq> bin_code k" "5 \<noteq> bin_code k" "6 \<noteq> bin_code k" "7 \<noteq> bin_code k"
  using bin_code_ge [of k] by auto

lemma key_head: "\<exists>rest. key A e = int (getKind e) # uint (hash A e) # rest"
  by (cases e) auto

lemma cmp3_int [simp]: "cmp3 (int x) (int y) = cmp3 x y"
  by (simp add: cmp3_def)

lemma cmp3_uint [simp]: "cmp3 (uint x) (uint y) = cmp3 x y"
  by (simp add: cmp3_def word_less_def word_uint_eq_iff)

lemma cmp3_add1 [simp]: "cmp3 (x + 1) (y + 1 :: int) = cmp3 x y"
  by (simp add: cmp3_def)

lemma lexc_name: "lexc (key_name s @ xs) (key_name t @ ys) = cmp_then (cmp_name s t) (lexc xs ys)"
proof (induction s t rule: cmp_name.induct)
  case (4 x xs y ys)
  then show ?case by (simp add: key_name_def cmp_then_assoc cmp3_int [symmetric] del: cmp3_int)
qed (auto simp: key_name_def cmp3_def cmp_then_def)

lemma cmp_name_0: "cmp_name s t = 0 \<longleftrightarrow> s = t"
  by (induction s t rule: cmp_name.induct) auto

lemma lexc_same_prefix: "lexc (xs @ ys) (xs @ zs) = lexc ys zs"
  by (induction xs) auto

context apint
begin

lemma const_compare: "compare_contents_const A x y =
    cmp_then (cmp3 (getBitWidth A x) (getBitWidth A y)) (cmp3 (ap_uint A x) (ap_uint A y))"
  by (auto simp: compare_contents_const_def cmp3_def cmp_then_def apint_simps)

lemma lexc_key_step:
  assumes "getKind a = getKind b \<Longrightarrow> hash A a = hash A b \<Longrightarrow>
      lexc (drop 2 (key A a) @ xs) (drop 2 (key A b) @ ys) = cmp_then (compare_kids A a b) (lexc xs ys)"
  shows "lexc (key A a @ xs) (key A b @ ys) = cmp_then (compare A a b) (lexc xs ys)"
proof -
  obtain r r' where "key A a = int (getKind a) # uint (hash A a) # r"
    "key A b = int (getKind b) # uint (hash A b) # r'"
    using key_head by metis
  with assms show ?thesis
    by (simp add: compare.simps [of A a b] cmp3_if cmp_then_assoc) (auto simp: cmp_then_def)
qed

lemma lexc_key:
  "lexc (key A a @ xs) (key A b @ ys) = cmp_then (compare A a b) (lexc xs ys)"
and lexc_key_upd:
  "upd_size us = upd_size us' \<Longrightarrow>
   lexc (key_upd A us @ xs) (key_upd A us' @ ys) = cmp_then (compare_upd A us us') (lexc xs ys)"
proof (induction a and us arbitrary: b xs ys and us' xs ys)
  case (ConstantExpr x)
  show ?case by (rule lexc_key_step, cases b) (auto simp: compare_kids.simps const_compare cmp_then_assoc)
next
  case (ReadExpr root us i)
  show ?case
    by (rule lexc_key_step, cases b)
      (auto simp: compare_kids.simps ReadExpr.IH lexc_name cmp_then_assoc cmp3_def cmp_then_def cmp_name_0)
next
  case (NotExpr e)
  have "compare A e e' = - 1 \<or> compare A e e' = 0 \<or> compare A e e' = 1" for e'
    using NotExpr.IH [of "[]" e' "[]"] lexc_range [of "key A e" "key A e'"] by simp
  then have "(if compare A e e' \<noteq> 0 then if compare A e e' < 0 then - 1 else 1 else 0) = compare A e e'" for e'
    by (metis less_numeral_extra(1) neg_less_0_iff_less not_less_iff_gr_or_eq zero_neq_one)
  then show ?case
    by (intro lexc_key_step, cases b) (auto simp: compare_kids.simps NotExpr.IH cmp_then_def)
next
  case (BinaryExpr k l r)
  show ?case by (rule lexc_key_step, cases b) (auto simp: compare_kids.simps BinaryExpr.IH cmp_then_assoc)
next
  case (UpdateNode nxt ui uv)
  then show ?case
    by (cases us') (auto simp: compare_upd.simps cmp_then_assoc)
next
  case NoUpdate
  then show ?case by (cases us') (auto simp: compare_upd.simps)
next
  case (SelectExpr c t f)
  show ?case
    by (rule lexc_key_step, cases b) (auto simp: compare_kids.simps SelectExpr.IH cmp_then_assoc)
next
  case (ConcatExpr l r)
  show ?case
    by (rule lexc_key_step, cases b) (auto simp: compare_kids.simps ConcatExpr.IH cmp_then_assoc)
next
  case (ExtractExpr e off w)
  show ?case
    by (rule lexc_key_step, cases b) (auto simp: compare_kids.simps ExtractExpr.IH cmp_then_assoc)
next
  case (ZExtExpr e w)
  show ?case
    by (rule lexc_key_step, cases b) (auto simp: compare_kids.simps ZExtExpr.IH cmp_then_assoc)
next
  case (SExtExpr e w)
  show ?case
    by (rule lexc_key_step, cases b) (auto simp: compare_kids.simps SExtExpr.IH cmp_then_assoc)
qed

end

section \<open>A total order\<close>

fun arrays :: "'a expr \<Rightarrow> 'a array_obj set"
and arrays_upd :: "'a update_node \<Rightarrow> 'a array_obj set" where
  "arrays (ConstantExpr c) = {}"
| "arrays (ReadExpr root us i) = {root} \<union> arrays_upd us \<union> arrays i"
| "arrays (SelectExpr c t f) = arrays c \<union> arrays t \<union> arrays f"
| "arrays (ConcatExpr l r) = arrays l \<union> arrays r"
| "arrays (ExtractExpr e off w) = arrays e"
| "arrays (NotExpr e) = arrays e"
| "arrays (ZExtExpr e w) = arrays e"
| "arrays (SExtExpr e w) = arrays e"
| "arrays (BinaryExpr k l r) = arrays l \<union> arrays r"
| "arrays_upd NoUpdate = {}"
| "arrays_upd (UpdateNode nxt ui uv) = arrays_upd nxt \<union> arrays ui \<union> arrays uv"

locale total_compare =
  fixes cmp :: "'b \<Rightarrow> 'b \<Rightarrow> int"
  assumes cmp_refl: "cmp x x = 0"
    and cmp_antisym: "cmp y x = - cmp x y"
    and cmp_trans: "cmp x y < 0 \<Longrightarrow> cmp y z < 0 \<Longrightarrow> cmp x z < 0"
begin

lemma cmp_total: "cmp x y < 0 \<or> cmp x y = 0 \<or> cmp y x < 0"
  using cmp_antisym [of y x] by linarith

lemma cmp_irrefl: "\<not> cmp x x < 0"
  by (simp add: cmp_refl)

lemma cmp_asym: "cmp x y < 0 \<Longrightarrow> \<not> cmp y x < 0"
  using cmp_antisym [of y x] by linarith

end

context apint
begin

lemma compare_lexc: "compare A a b = lexc (key A a) (key A b)"
  using lexc_key [of a "[]" b "[]"] by simp

lemma compare_antisym: "compare A b a = - compare A a b"
  unfolding compare_lexc by (rule lexc_antisym)

lemma compare_trans: "compare A a b < 0 \<Longrightarrow> compare A b c < 0 \<Longrightarrow> compare A a c < 0"
  unfolding compare_lexc by (rule lexc_trans)

lemma compare_refl: "compare A a a = 0"
  by (simp add: compare_lexc lexc_0)

lemma compare_total_compare: "total_compare (compare A)"
  by unfold_locales (fact compare_refl, fact compare_antisym, fact compare_trans)

lemma compare_0D: "compare A a b = 0 \<Longrightarrow> getKind a = getKind b \<and> compare_kids A a b = 0"
  by (auto simp: compare.simps [of A a b] split: if_splits)

lemma compare_0_imp_eq:
  "compare A a b = 0 \<Longrightarrow> inj_on array_addr (arrays a \<union> arrays b) \<Longrightarrow> a = b"
and compare_upd_0_imp_eq:
  "compare_upd A us us' = 0 \<Longrightarrow> upd_size us = upd_size us' \<Longrightarrow>
   inj_on array_addr (arrays_upd us \<union> arrays_upd us') \<Longrightarrow> us = us'"
proof (induction a and us arbitrary: b and us')
  case (ConstantExpr x)
  from compare_0D [OF this(1)] obtain y where "b = ConstantExpr y"
      "getBitWidth A x = getBitWidth A y" "ap_uint A x = ap_uint A y"
    by (cases b) (auto simp: compare_kids.simps const_compare)
  then show ?case using uint_inj by auto
next
  case (ReadExpr root us i)
  from compare_0D [OF ReadExpr.prems(1)] obtain root' us' i' where b: "b = ReadExpr root' us' i'"
    by (cases b) auto
  from compare_0D [OF ReadExpr.prems(1)] b
  have *: "array_addr root = array_addr root'" "upd_size us = upd_size us'"
      "compare_upd A us us' = 0" "compare A i i' = 0"
    by (auto simp: compare_kids.simps [of A "ReadExpr root us i"] cmp_name_0 split: if_splits)
  have "root = root'" by (rule inj_onD [OF ReadExpr.prems(2) *(1)]) (simp_all add: b)
  moreover have "us = us'"
    by (rule ReadExpr.IH(1) [OF *(3,2)], rule inj_on_subset [OF ReadExpr.prems(2)]) (auto simp: b)
  moreover have "i = i'"
    by (rule ReadExpr.IH(2) [OF *(4)], rule inj_on_subset [OF ReadExpr.prems(2)]) (auto simp: b)
  ultimately show ?case using b by simp
next
  case (UpdateNode nxt ui uv)
  from UpdateNode.prems(2) obtain nxt' ui' uv' where us': "us' = UpdateNode nxt' ui' uv'"
    by (cases us') auto
  with UpdateNode.prems have "compare A ui ui' = 0" "compare A uv uv' = 0" "compare_upd A nxt nxt' = 0"
      "upd_size nxt = upd_size nxt'"
    by (auto simp: compare_upd.simps [of A "UpdateNode nxt ui uv"])
  then show ?case using us' UpdateNode.IH UpdateNode.prems(3)
    by (auto intro: inj_on_subset)
next
  case NoUpdate
  then show ?case by (cases us') auto
next
  case (SelectExpr c t f)
  from compare_0D [OF SelectExpr.prems(1)] SelectExpr.prems(2) show ?case
    by (cases b) (auto simp: compare_kids.simps [of A "SelectExpr c t f"] intro!: SelectExpr.IH elim: inj_on_subset)
next
  case (ConcatExpr l r)
  from compare_0D [OF ConcatExpr.prems(1)] ConcatExpr.prems(2) show ?case
    by (cases b) (auto simp: compare_kids.simps [of A "ConcatExpr l r"] intro!: ConcatExpr.IH elim: inj_on_subset)
next
  case (ExtractExpr e off w)
  from compare_0D [OF ExtractExpr.prems(1)] ExtractExpr.prems(2) show ?case
    by (cases b) (auto simp: compare_kids.simps [of A "ExtractExpr e off w"] intro!: ExtractExpr.IH elim: inj_on_subset)
next
  case (NotExpr e)
  from compare_0D [OF NotExpr.prems(1)] NotExpr.prems(2) show ?case
    by (cases b) (auto simp: compare_kids.simps [of A "NotExpr e"] intro!: NotExpr.IH elim: inj_on_subset)
next
  case (ZExtExpr e w)
  from compare_0D [OF ZExtExpr.prems(1)] ZExtExpr.prems(2) show ?case
    by (cases b) (auto simp: compare_kids.simps [of A "ZExtExpr e w"] intro!: ZExtExpr.IH elim: inj_on_subset)
next
  case (SExtExpr e w)
  from compare_0D [OF SExtExpr.prems(1)] SExtExpr.prems(2) show ?case
    by (cases b) (auto simp: compare_kids.simps [of A "SExtExpr e w"] intro!: SExtExpr.IH elim: inj_on_subset)
next
  case (BinaryExpr k l r)
  from compare_0D [OF BinaryExpr.prems(1)] BinaryExpr.prems(2) show ?case
    by (cases b) (auto simp: compare_kids.simps [of A "BinaryExpr k l r"] intro!: BinaryExpr.IH elim: inj_on_subset)
qed

lemma compare_eq_iff:
  "inj_on array_addr (arrays a \<union> arrays b) \<Longrightarrow> compare A a b = 0 \<longleftrightarrow> a = b"
  using compare_0_imp_eq compare_refl by blast

end

interpretation bv_compare: total_compare "compare (bv_ops opt)"
  by (rule bv.compare_total_compare)

end
