(* ===== verification/BitfieldSimplifier.thy ===== *)
theory BitfieldSimplifier
  imports Expr_Read "HOL-Library.Monad_Syntax"
begin

text \<open>
  The simplifier of bit field expressions (\<open>klee/lib/Expr/BitfieldSimplifier.cpp\<close>).

  \<open>doSimplifyBits\<close> computes, bottom up, which bits of an expression are known to be one or zero and,
  top down, which bits nobody looks at (the mask \<open>ign\<close>).  An expression whose bits are all known or
  ignored becomes a constant.  The recursion also runs on rebuilt expressions, so its depth has no
  bound in the size of the input; the argument \<open>n\<close> of the model bounds it, and \<open>None\<close> is a run that
  needs more.

  The second half of the theory shows that the cases of the switch are right about the known bits and
  about which bits of the kids may be ignored (\<open>transfer_sound\<close>).
\<close>

unbundle bit_operations_syntax

section \<open>Definitions\<close>

text \<open>\<open>getNumKids\<close> and \<open>getKid\<close>, and \<open>rebuild\<close>, of each class of expressions.\<close>

fun getKids :: "'a expr \<Rightarrow> 'a expr list" where
  "getKids (ConstantExpr c) = []"
| "getKids (ReadExpr root us i) = [i]"
| "getKids (SelectExpr c t f) = [c, t, f]"
| "getKids (ConcatExpr l r) = [l, r]"
| "getKids (ExtractExpr e off w) = [e]"
| "getKids (NotExpr e) = [e]"
| "getKids (ZExtExpr e w) = [e]"
| "getKids (SExtExpr e w) = [e]"
| "getKids (BinaryExpr k l r) = [l, r]"

fun rebuild :: "'a ops \<Rightarrow> 'a expr \<Rightarrow> 'a expr list \<Rightarrow> 'a expr" where
  "rebuild A (ConstantExpr c) kids = ConstantExpr c"
| "rebuild A (ReadExpr root us i) kids = Read_create A root us (kids ! 0)"
| "rebuild A (SelectExpr c t f) kids = Select_create A (kids ! 0) (kids ! 1) (kids ! 2)"
| "rebuild A (ConcatExpr l r) kids = Concat_create A (kids ! 0) (kids ! 1)"
| "rebuild A (ExtractExpr e off w) kids = Extract_create A (kids ! 0) off w"
| "rebuild A (NotExpr e) kids = Not_create A (kids ! 0)"
| "rebuild A (ZExtExpr e w) kids = ZExt_create A (kids ! 0) w"
| "rebuild A (SExtExpr e w) kids = SExt_create A (kids ! 0) w"
| "rebuild A (BinaryExpr k l r) kids = Bin_create A k (kids ! 0) (kids ! 1)"

record 'a bits_info =
  ignoredBits :: 'a
  knownOneBits :: 'a
  knownZeroBits :: 'a

text \<open>
  The state of a simplifier.  \<open>history\<close> and \<open>visited\<close> are not in the code: they record, for the
  statements below, the entries that were put into the cache and the expressions that were taken
  apart.
\<close>

record 'a simplifier =
  m_bitsInfoCache :: "'a expr \<Rightarrow> 'a bits_info option"
  m_simplifiedExpressions :: "'a expr \<Rightarrow> ('a expr \<times> 'a bits_info) option"
  m_cacheHits :: nat
  m_cacheMisses :: nat
  history :: "('a expr \<times> 'a bits_info) list"
  visited :: "'a expr list"

text \<open>The test \<open>~x == 0\<close>.\<close>

definition all_set :: "'a ops \<Rightarrow> 'a \<Rightarrow> bool" where
  "all_set A x \<longleftrightarrow> ap_eq A (ap_not A x) (ap_of A (getBitWidth A x) 0)"

text \<open>The cases of the switch of \<open>doSimplifyBits\<close>: the known bits of the node and the kids' masks.\<close>

definition and_bits :: "'a ops \<Rightarrow> nat \<Rightarrow> 'a \<Rightarrow> 'a bits_info \<Rightarrow> 'a bits_info \<Rightarrow> 'a \<times> 'a \<times> 'a bits_info list" where
  "and_bits A w ign b0 b1 =
     (let one = ap_and A (knownOneBits b0) (knownOneBits b1);
          zero = ap_or A (knownZeroBits b0) (knownZeroBits b1);
          b0 = b0\<lparr>ignoredBits := ap_or A ign (knownZeroBits b1)\<rparr>;
          b1 = b1\<lparr>ignoredBits := ap_or A ign (ap_and A (knownZeroBits b0) (ap_not A (knownZeroBits b1)))\<rparr>;
          by_ones = (\<lambda>b. if all_set A (ap_or A (knownOneBits b) (ignoredBits b))
                        then b\<lparr>knownOneBits := getAllOnesValue A w, knownZeroBits := getNullValue A w\<rparr> else b)
      in (one, zero, [by_ones b0, by_ones b1]))"

definition or_bits :: "'a ops \<Rightarrow> nat \<Rightarrow> 'a \<Rightarrow> 'a bits_info \<Rightarrow> 'a bits_info \<Rightarrow> 'a \<times> 'a \<times> 'a bits_info list" where
  "or_bits A w ign b0 b1 =
     (let one = ap_or A (knownOneBits b0) (knownOneBits b1);
          zero = ap_and A (knownZeroBits b0) (knownZeroBits b1);
          b0 = b0\<lparr>ignoredBits := ap_or A ign (knownOneBits b1)\<rparr>;
          b1 = b1\<lparr>ignoredBits := ap_or A ign (ap_and A (knownOneBits b0) (ap_not A (knownOneBits b1)))\<rparr>;
          by_zeros = (\<lambda>b. if all_set A (ap_or A (knownZeroBits b) (ignoredBits b))
                        then b\<lparr>knownOneBits := getNullValue A w, knownZeroBits := getAllOnesValue A w\<rparr> else b)
      in (one, zero, [by_zeros b0, by_zeros b1]))"

definition xor_bits :: "'a ops \<Rightarrow> 'a \<Rightarrow> 'a bits_info \<Rightarrow> 'a bits_info \<Rightarrow> 'a \<times> 'a \<times> 'a bits_info list" where
  "xor_bits A ign b0 b1 =
     (ap_or A (ap_and A (knownZeroBits b0) (knownOneBits b1)) (ap_and A (knownOneBits b0) (knownZeroBits b1)),
      ap_or A (ap_and A (knownOneBits b0) (knownOneBits b1)) (ap_and A (knownZeroBits b0) (knownZeroBits b1)),
      [b0\<lparr>ignoredBits := ign\<rparr>, b1\<lparr>ignoredBits := ign\<rparr>])"

definition not_bits :: "'a \<Rightarrow> 'a bits_info \<Rightarrow> 'a \<times> 'a \<times> 'a bits_info list" where
  "not_bits ign b0 = (knownZeroBits b0, knownOneBits b0, [b0\<lparr>ignoredBits := ign\<rparr>])"

definition shl_bits ::
    "'a ops \<Rightarrow> nat \<Rightarrow> 'a \<Rightarrow> 'a expr \<Rightarrow> 'a bits_info \<Rightarrow> 'a bits_info \<Rightarrow> 'a \<times> 'a \<times> 'a bits_info list" where
  "shl_bits A width ign kid1 b0 b1 =
     (case dyn_cast_Constant kid1 of
        Some c1 \<Rightarrow>
          (let shift = to_u32 (ap_getLimitedValue A c1 width) in
           if shift < width then
             (ap_shl_n A (knownOneBits b0) shift,
              ap_or A (ap_shl_n A (knownZeroBits b0) shift) (getLowBitsSet A width shift),
              [b0\<lparr>ignoredBits := ap_or A (ap_lshr_n A ign shift) (getHighBitsSet A width shift)\<rparr>, b1])
           else (getNullValue A width, getAllOnesValue A width,
                 [b0\<lparr>ignoredBits := getAllOnesValue A width\<rparr>, b1]))
      | None \<Rightarrow> (getNullValue A width, getNullValue A width, [b0, b1]))"

definition lshr_bits ::
    "'a ops \<Rightarrow> nat \<Rightarrow> 'a \<Rightarrow> 'a expr \<Rightarrow> 'a bits_info \<Rightarrow> 'a bits_info \<Rightarrow> 'a \<times> 'a \<times> 'a bits_info list" where
  "lshr_bits A width ign kid1 b0 b1 =
     (case dyn_cast_Constant kid1 of
        Some c1 \<Rightarrow>
          (let shift = to_u32 (ap_getLimitedValue A c1 width) in
           if shift < width then
             (ap_lshr_n A (knownOneBits b0) shift,
              ap_or A (ap_lshr_n A (knownZeroBits b0) shift) (getHighBitsSet A width shift),
              [b0\<lparr>ignoredBits := ap_or A (ap_shl_n A ign shift) (getLowBitsSet A width shift)\<rparr>, b1])
           else (getNullValue A width, getAllOnesValue A width,
                 [b0\<lparr>ignoredBits := getAllOnesValue A width\<rparr>, b1]))
      | None \<Rightarrow> (getNullValue A width, getNullValue A width, [b0, b1]))"

definition extract_bits :: "'a ops \<Rightarrow> nat \<Rightarrow> nat \<Rightarrow> nat \<Rightarrow> 'a \<Rightarrow> 'a bits_info \<Rightarrow> 'a \<times> 'a \<times> 'a bits_info list" where
  "extract_bits A offset width kidWidth ign b0 =
     (ap_trunc A (ap_lshr_n A (knownOneBits b0) offset) width,
      ap_trunc A (ap_lshr_n A (knownZeroBits b0) offset) width,
      [b0\<lparr>ignoredBits := ap_or A (ap_or A (getLowBitsSet A kidWidth offset)
          (getHighBitsSet A kidWidth (kidWidth - width - offset))) (ap_shl_n A (ap_zext A ign kidWidth) offset)\<rparr>])"

definition concat_bits ::
    "'a ops \<Rightarrow> nat \<Rightarrow> nat \<Rightarrow> nat \<Rightarrow> 'a \<Rightarrow> 'a bits_info \<Rightarrow> 'a bits_info \<Rightarrow> 'a \<times> 'a \<times> 'a bits_info list" where
  "concat_bits A width w0 shift ign b0 b1 =
     (ap_or A (ap_shl_n A (ap_zext A (knownOneBits b0) width) shift) (ap_zext A (knownOneBits b1) width),
      ap_or A (ap_shl_n A (ap_zext A (knownZeroBits b0) width) shift) (ap_zext A (knownZeroBits b1) width),
      [b0\<lparr>ignoredBits := ap_trunc A (ap_lshr_n A ign shift) w0\<rparr>, b1\<lparr>ignoredBits := ap_trunc A ign shift\<rparr>])"

definition select_bits ::
    "'a ops \<Rightarrow> 'a \<Rightarrow> 'a bits_info \<Rightarrow> 'a bits_info \<Rightarrow> 'a bits_info \<Rightarrow> 'a \<times> 'a \<times> 'a bits_info list" where
  "select_bits A ign b0 b1 b2 =
     (ap_and A (knownOneBits b1) (knownOneBits b2), ap_and A (knownZeroBits b1) (knownZeroBits b2),
      [b0, b1\<lparr>ignoredBits := ign\<rparr>, b2\<lparr>ignoredBits := ign\<rparr>])"

definition zext_bits :: "'a ops \<Rightarrow> nat \<Rightarrow> nat \<Rightarrow> 'a \<Rightarrow> 'a bits_info \<Rightarrow> 'a \<times> 'a \<times> 'a bits_info list" where
  "zext_bits A width kidWidth ign b0 =
     (ap_zext A (knownOneBits b0) width,
      ap_or A (ap_zext A (knownZeroBits b0) width) (getHighBitsSet A width (width - kidWidth)),
      [b0\<lparr>ignoredBits := ap_trunc A ign kidWidth\<rparr>])"

definition sext_bits :: "'a ops \<Rightarrow> nat \<Rightarrow> nat \<Rightarrow> 'a \<Rightarrow> 'a bits_info \<Rightarrow> 'a \<times> 'a \<times> 'a bits_info list" where
  "sext_bits A width kidWidth ign b0 =
     (let b = b0\<lparr>ignoredBits := ap_trunc A ign kidWidth\<rparr> in
      (ap_sext A (knownOneBits b0) width, ap_sext A (knownZeroBits b0) width,
       [if countLeadingOnes A ign < width - kidWidth
        then b\<lparr>ignoredBits := clearBit A (ignoredBits b) (getBitWidth A (ignoredBits b) - 1)\<rparr> else b]))"

definition transfer ::
    "'a ops \<Rightarrow> 'a expr \<Rightarrow> 'a \<Rightarrow> 'a expr list \<Rightarrow> 'a bits_info list \<Rightarrow> 'a \<times> 'a \<times> 'a bits_info list" where
  "transfer A e ign kids bits =
     (let w = getWidth A e; kw = getWidth A (kids ! 0);
          top = (getNullValue A w, getNullValue A w, bits) in
      case e of
        BinaryExpr k l r \<Rightarrow>
          (case k of
             And \<Rightarrow> and_bits A w ign (bits ! 0) (bits ! 1)
           | Or \<Rightarrow> or_bits A w ign (bits ! 0) (bits ! 1)
           | Xor \<Rightarrow> xor_bits A ign (bits ! 0) (bits ! 1)
           | Shl \<Rightarrow> shl_bits A w ign (kids ! 1) (bits ! 0) (bits ! 1)
           | LShr \<Rightarrow> lshr_bits A w ign (kids ! 1) (bits ! 0) (bits ! 1)
           | _ \<Rightarrow> top)
      | NotExpr k \<Rightarrow> not_bits ign (bits ! 0)
      | ExtractExpr k off w \<Rightarrow> extract_bits A off w kw ign (bits ! 0)
      | ConcatExpr l r \<Rightarrow> concat_bits A w kw (getWidth A (kids ! 1)) ign (bits ! 0) (bits ! 1)
      | SelectExpr c t f \<Rightarrow> select_bits A ign (bits ! 0) (bits ! 1) (bits ! 2)
      | ZExtExpr k w \<Rightarrow> zext_bits A w kw ign (bits ! 0)
      | SExtExpr k w \<Rightarrow> sext_bits A w kw ign (bits ! 0)
      | ConstantExpr c \<Rightarrow> (c, ap_not A c, bits)
      | ReadExpr root us i \<Rightarrow> top)"

text \<open>\<open>replaceWithConstant\<close>: the expression and its kids leave the cache.\<close>

definition replaceWithConstant ::
    "'a ops \<Rightarrow> 'a simplifier \<Rightarrow> 'a expr \<Rightarrow> 'a \<Rightarrow> 'a expr \<times> 'a simplifier" where
  "replaceWithConstant A s e val =
     (if case dyn_cast_Constant e of Some c \<Rightarrow> ap_eq A c val | None \<Rightarrow> False then (e, s)
      else (ConstantExpr val,
            s\<lparr>m_bitsInfoCache := (fold (\<lambda>k c. c(k := None)) (getKids e) (m_bitsInfoCache s))(e := None)\<rparr>))"

text \<open>\<open>m_bitsInfoCache.insert\<close>, which keeps an entry that is present.\<close>

definition cache_insert :: "'a simplifier \<Rightarrow> 'a expr \<Rightarrow> 'a bits_info \<Rightarrow> 'a simplifier" where
  "cache_insert s e b =
     (case m_bitsInfoCache s e of
        Some _ \<Rightarrow> s
      | None \<Rightarrow> s\<lparr>m_bitsInfoCache := (m_bitsInfoCache s)(e \<mapsto> b), history := (e, b) # history s\<rparr>)"

text \<open>
  The two loops over the kids.  The recursive calls are the argument \<open>f\<close>; \<open>None\<close> is a recursion that
  is deeper than the model's bound.
\<close>

type_synonym 'a simplify_fun =
  "'a simplifier \<Rightarrow> 'a expr \<Rightarrow> 'a \<Rightarrow> (('a expr \<times> 'a bits_info) \<times> 'a simplifier) option"

fun simplify_kids :: "'a simplify_fun \<Rightarrow> 'a ops \<Rightarrow> 'a simplifier \<Rightarrow> 'a expr list \<Rightarrow>
    (('a expr \<times> 'a bits_info) list \<times> 'a simplifier) option" where
  "simplify_kids f A s [] = Some ([], s)"
| "simplify_kids f A s (k # ks) =
     do {
       (r, s) \<leftarrow> f s k (getNullValue A (getWidth A k));
       (rs, s) \<leftarrow> simplify_kids f A s ks;
       Some (r # rs, s)
     }"

definition update_kid :: "'a simplify_fun \<Rightarrow> 'a ops \<Rightarrow> 'a simplifier \<Rightarrow> 'a expr \<Rightarrow> 'a bits_info \<Rightarrow> 'a \<Rightarrow>
    ('a expr \<times> 'a simplifier) option" where
  "update_kid f A s kid b old =
     (if all_set A (ap_or A (ap_or A (knownOneBits b) (knownZeroBits b)) (ignoredBits b)) then
        if dyn_cast_Constant kid = None then Some (replaceWithConstant A s kid (knownOneBits b)) else Some (kid, s)
      else if \<not> ap_eq A (ap_and A (ignoredBits b) (ap_not A old)) (ap_of A (getBitWidth A old) 0) then
        map_option (\<lambda>(r, s). (fst r, s)) (f s kid (ignoredBits b))
      else Some (kid, s))"

fun update_kids :: "'a simplify_fun \<Rightarrow> 'a ops \<Rightarrow> 'a simplifier \<Rightarrow> 'a expr list \<Rightarrow> 'a bits_info list \<Rightarrow> 'a list \<Rightarrow>
    ('a expr list \<times> 'a simplifier) option" where
  "update_kids f A s (kid # kids) (b # bits) (old # olds) =
     do {
       (k, s) \<leftarrow> update_kid f A s kid b old;
       (ks, s) \<leftarrow> update_kids f A s kids bits olds;
       Some (k # ks, s)
     }"
| "update_kids f A s _ _ _ = Some ([], s)"

text \<open>
  What \<open>doSimplifyBits\<close> does with a node that is neither a constant nor in the cache: the node
  becomes a constant, or is rebuilt if some kid was changed.
\<close>

definition rebuild_node :: "'a simplify_fun \<Rightarrow> 'a ops \<Rightarrow> 'a simplifier \<Rightarrow> 'a expr \<Rightarrow> 'a \<Rightarrow>
    ('a expr \<times> 'a bits_info) list \<Rightarrow> 'a \<times> 'a \<times> 'a bits_info list \<Rightarrow> ('a expr \<times> 'a simplifier) option" where
  "rebuild_node f A s e ign rs t =
     (case t of (one, zero, bits) \<Rightarrow>
        if all_set A (ap_or A (ap_or A one zero) ign) then Some (replaceWithConstant A s e one)
        else do {
          (kids, s) \<leftarrow> update_kids f A s (map fst rs) bits (map (ignoredBits \<circ> snd) rs);
          Some (if kids \<noteq> getKids e then rebuild A e kids else e, s)
        })"

definition simplify_node :: "'a simplify_fun \<Rightarrow> 'a ops \<Rightarrow> 'a simplifier \<Rightarrow> 'a expr \<Rightarrow> 'a \<Rightarrow>
    (('a expr \<times> 'a bits_info) \<times> 'a simplifier) option" where
  "simplify_node f A s e ign =
     do {
       (rs, s) \<leftarrow> simplify_kids f A (s\<lparr>visited := e # visited s\<rparr>) (getKids e);
       let t = transfer A e ign (map fst rs) (map snd rs);
       let rbits = \<lparr>ignoredBits = ign, knownOneBits = fst t, knownZeroBits = fst (snd t)\<rparr>;
       (rebuilt, s) \<leftarrow> rebuild_node f A s e ign rs t;
       Some ((rebuilt, rbits), if 1 < length (getKids rebuilt) then cache_insert s rebuilt rbits else s)
     }"

fun doSimplifyBits :: "nat \<Rightarrow> 'a ops \<Rightarrow> 'a simplify_fun" where
  "doSimplifyBits 0 A s e ign = None"
| "doSimplifyBits (Suc n) A s e ign =
     (case dyn_cast_Constant e of
        Some c \<Rightarrow> Some ((e, \<lparr>ignoredBits = ign, knownOneBits = c, knownZeroBits = ap_not A c\<rparr>), s)
      | None \<Rightarrow>
          (case m_bitsInfoCache s e of
             Some b \<Rightarrow> Some ((e, b), s)
           | None \<Rightarrow> simplify_node (\<lambda>s e ign. doSimplifyBits n A s e ign) A s e ign))"

text \<open>
  \<open>simplify\<close>; the second result is what it stores into \<open>knownZeroBits\<close>, if it stores anything.
\<close>

definition simplify :: "nat \<Rightarrow> 'a ops \<Rightarrow> 'a simplifier \<Rightarrow> 'a expr \<Rightarrow> ('a expr \<times> 'a option \<times> 'a simplifier) option" where
  "simplify n A s e =
     (if dyn_cast_Constant e \<noteq> None then Some (e, None, s)
      else
        (case m_simplifiedExpressions s e of
           Some (e', b) \<Rightarrow> Some (e', Some (knownZeroBits b), s\<lparr>m_cacheHits := m_cacheHits s + 1\<rparr>)
         | None \<Rightarrow>
             do {
               (r, s) \<leftarrow> doSimplifyBits n A (s\<lparr>m_cacheMisses := m_cacheMisses s + 1\<rparr>) e
                          (getNullValue A (getWidth A e));
               Some (fst r, Some (knownZeroBits (snd r)),
                     s\<lparr>m_simplifiedExpressions := (m_simplifiedExpressions s)(e \<mapsto> r)\<rparr>)
             }))"

definition new_simplifier :: "'a simplifier" where
  "new_simplifier = \<lparr>m_bitsInfoCache = Map.empty, m_simplifiedExpressions = Map.empty,
     m_cacheHits = 0, m_cacheMisses = 0, history = [], visited = []\<rparr>"

definition maskToBits :: "nat \<Rightarrow> nat option" where
  "maskToBits m =
     (if m = 0x1 then Some 1 else if m = 0x3 then Some 4 else if m = 0x7 then Some 8
      else if m = 0xf then Some 16 else if m = 0x1f then Some 32 else if m = 0x3f then Some 64
      else if m = 0x7f then Some 128 else if m = 0xff then Some 256 else None)"

text \<open>
  \<open>getBaseOffset\<close> and \<open>getBaseOffsetFast\<close> return the base, the offset and the offset's size.
\<close>

definition getBaseOffset :: "nat \<Rightarrow> 'a ops \<Rightarrow> 'a simplifier \<Rightarrow> 'a expr \<Rightarrow>
    ((nat \<times> 'a expr \<times> nat) option \<times> 'a simplifier) option" where
  "getBaseOffset n A s e =
     (case dyn_cast_Bin Add e of
        None \<Rightarrow> Some (None, s)
      | Some (l, r) \<Rightarrow>
          (case dyn_cast_Constant l of
             None \<Rightarrow> Some (None, s)
           | Some baseExpr \<Rightarrow>
               do {
                 (_, kz, s) \<leftarrow> simplify n A s r;
                 Some (case kz of
                         None \<Rightarrow> (None, s)
                       | Some z \<Rightarrow>
                           if ap_rawWord A z AND 0xFFFFFFFFFFFFFF00 = 0xFFFFFFFFFFFFFF00
                           then (Some (ap_getZExtValue A baseExpr, r, 256), s) else (None, s))
               }))"

definition getBaseOffsetFast :: "'a ops \<Rightarrow> 'a expr \<Rightarrow> (nat \<times> 'a expr \<times> nat) option" where
  "getBaseOffsetFast A e =
     do {
       (l, r) \<leftarrow> dyn_cast_Bin Add e;
       if getWidth A e > 64 then None else do {
         baseExpr \<leftarrow> dyn_cast_Constant l;
         (_, mr) \<leftarrow> dyn_cast_Bin And r;
         maskExpr \<leftarrow> dyn_cast_Constant mr;
         sz \<leftarrow> maskToBits (ap_getZExtValue A maskExpr);
         Some (ap_getZExtValue A baseExpr, r, sz)
       }
     }"

section \<open>What the masks mean\<close>

text \<open>
  \<open>v\<close> and \<open>v'\<close> agree outside the ignored bits; \<open>b\<close> is right about the bits of \<open>v\<close> that are not
  ignored by it, or about all of them.
\<close>

definition agree :: "int \<Rightarrow> int \<Rightarrow> int \<Rightarrow> bool" where
  "agree ign v v' \<longleftrightarrow> (\<forall>j. \<not> bit ign j \<longrightarrow> bit v j = bit v' j)"

definition known_kid :: "'a ops \<Rightarrow> 'a bits_info \<Rightarrow> nat \<Rightarrow> int \<Rightarrow> bool" where
  "known_kid A b w v \<longleftrightarrow> getBitWidth A (ignoredBits b) = w \<and>
     getBitWidth A (knownOneBits b) = w \<and> getBitWidth A (knownZeroBits b) = w \<and>
     (\<forall>j. \<not> bit (ap_uint A (ignoredBits b)) j \<longrightarrow>
        (bit (ap_uint A (knownOneBits b)) j \<longrightarrow> bit v j) \<and>
        (bit (ap_uint A (knownZeroBits b)) j \<longrightarrow> \<not> bit v j))"

definition known_bits :: "'a ops \<Rightarrow> 'a \<Rightarrow> 'a \<Rightarrow> nat \<Rightarrow> int \<Rightarrow> bool" where
  "known_bits A one zero w v \<longleftrightarrow> getBitWidth A one = w \<and> getBitWidth A zero = w \<and>
     (\<forall>j. (bit (ap_uint A one) j \<longrightarrow> bit v j) \<and> (bit (ap_uint A zero) j \<longrightarrow> \<not> bit v j))"

definition known :: "'a ops \<Rightarrow> 'a bits_info \<Rightarrow> nat \<Rightarrow> int \<Rightarrow> bool" where
  "known A b w v \<longleftrightarrow> getBitWidth A (ignoredBits b) = w \<and> known_bits A (knownOneBits b) (knownZeroBits b) w v"

text \<open>The value of a node as a function of the values of its kids.\<close>

fun node_sem :: "'a ops \<Rightarrow> ('a array_obj \<Rightarrow> nat \<Rightarrow> int) \<Rightarrow> 'a expr \<Rightarrow> int list \<Rightarrow> int" where
  "node_sem A \<sigma> (ConstantExpr c) vs = ap_uint A c"
| "node_sem A \<sigma> (ReadExpr root us i) vs = sem_read A \<sigma> us (vs ! 0) (array_value A \<sigma> root (vs ! 0))"
| "node_sem A \<sigma> (SelectExpr c t f) vs = (if vs ! 0 \<noteq> 0 then vs ! 1 else vs ! 2)"
| "node_sem A \<sigma> (ConcatExpr l r) vs = cat_bits (getWidth A r) (vs ! 0) (vs ! 1)"
| "node_sem A \<sigma> (ExtractExpr e off w) vs = take_bit w (drop_bit off (vs ! 0))"
| "node_sem A \<sigma> (NotExpr e) vs = take_bit (getWidth A e) (NOT (vs ! 0))"
| "node_sem A \<sigma> (ZExtExpr e w) vs = vs ! 0"
| "node_sem A \<sigma> (SExtExpr e w) vs = take_bit w (signed_take_bit (getWidth A e - 1) (vs ! 0))"
| "node_sem A \<sigma> (BinaryExpr k l r) vs = bin_sem k (getWidth A l) (vs ! 0) (vs ! 1)"

lemma sem_node: "sem A \<sigma> e = node_sem A \<sigma> e (map (sem A \<sigma>) (getKids e))"
  by (cases e) simp_all

text \<open>
  The nodes the constructors and \<open>APInt\<close> accept: masks of at most 64 bits, divisors that are not
  zero, shift amounts below 2^63, extracts and casts that change the width, reads that are not
  subject to the optimisation of constant arrays.
\<close>

fun node_ok :: "'a ops \<Rightarrow> ('a array_obj \<Rightarrow> nat \<Rightarrow> int) \<Rightarrow> 'a expr \<Rightarrow> bool" where
  "node_ok A \<sigma> (BinaryExpr k l r) \<longleftrightarrow> (k \<in> {And, Or} \<longrightarrow> getWidth A l \<le> 64) \<and>
     (k \<in> {UDiv, SDiv, URem, SRem} \<longrightarrow> sem A \<sigma> r \<noteq> 0) \<and> (k \<in> {Shl, LShr} \<longrightarrow> sem A \<sigma> r < 2 ^ 63)"
| "node_ok A \<sigma> (ReadExpr root us i) \<longleftrightarrow> \<not> (ConstArrayOpt A \<and> isConstantArray root \<and> us = NoUpdate)"
| "node_ok A \<sigma> (ExtractExpr e off w) \<longleftrightarrow> w < getWidth A e"
| "node_ok A \<sigma> (ZExtExpr e w) \<longleftrightarrow> getWidth A e < w"
| "node_ok A \<sigma> (SExtExpr e w) \<longleftrightarrow> getWidth A e < w"
| "node_ok A \<sigma> _ \<longleftrightarrow> True"

text \<open>The kid values for which rebuilding the node is in the domain of the constructors.\<close>

fun kids_fixed :: "'a expr \<Rightarrow> int list \<Rightarrow> int list \<Rightarrow> bool" where
  "kids_fixed (BinaryExpr k l r) vs vs' \<longleftrightarrow> (k \<notin> {And, Or, Xor} \<longrightarrow> vs' ! 1 = vs ! 1)"
| "kids_fixed _ vs vs' \<longleftrightarrow> True"

context apint
begin

lemma bit_uint_less: "bit (ap_uint A x) j \<Longrightarrow> j < getBitWidth A x"
  using uint_fits [of x] fits_bitD by blast

lemma all_set_iff: "all_set A x \<longleftrightarrow> (\<forall>j < getBitWidth A x. bit (ap_uint A x) j)"
proof -
  have "all_set A x \<longleftrightarrow> take_bit (getBitWidth A x) (NOT (ap_uint A x)) = 0"
    by (simp add: all_set_def apint_simps)
  also have "\<dots> \<longleftrightarrow> (\<forall>j < getBitWidth A x. bit (ap_uint A x) j)"
    by (auto simp: bit_eq_iff bit_simps)
  finally show ?thesis .
qed

lemma rebuild_denotes:
  assumes e: "denotes A \<sigma> e w v" and ok: "node_ok A \<sigma> e"
    and kids: "list_all2 (\<lambda>(k, k') v'. denotes A \<sigma> k' (getWidth A k) v') (zip (getKids e) kids) vs'"
    and len: "length kids = length (getKids e)"
    and fixed: "kids_fixed e (map (sem A \<sigma>) (getKids e)) vs'"
  shows "denotes A \<sigma> (rebuild A e kids) w (node_sem A \<sigma> e vs')"
proof (cases e)
  case (ConstantExpr c)
  then show ?thesis using e by (auto simp: denotes_def)
next
  case (ReadExpr root us i)
  with kids len obtain k v' where "kids = [k]" "vs' = [v']" "denotes A \<sigma> k (getWidth A i) v'"
    by (cases kids) (auto simp: list_all2_Cons1)
  moreover have "getWidth A i = 32" "wt_array A root" "wt_upd A us" "safe_upd A \<sigma> us" "w = 8"
    using e ReadExpr by (auto simp: denotes_def)
  ultimately show ?thesis
    using ok ReadExpr Read_create_denotes [of root us \<sigma> k v'] by auto
next
  case (SelectExpr c t f)
  with kids len obtain k0 k1 k2 v0 v1 v2 where "kids = [k0, k1, k2]" "vs' = [v0, v1, v2]"
    "denotes A \<sigma> k0 (getWidth A c) v0" "denotes A \<sigma> k1 (getWidth A t) v1" "denotes A \<sigma> k2 (getWidth A f) v2"
    by (auto simp: list_all2_Cons1 length_Suc_conv)
  moreover have "getWidth A c = Suc 0" "getWidth A t = w" "getWidth A f = w"
    using e SelectExpr by (auto simp: denotes_def)
  ultimately show ?thesis
    using SelectExpr Select_create_denotes [of \<sigma> k0 v0 k1 w v1 k2 v2] by auto
next
  case (ConcatExpr l r)
  with kids len obtain k0 k1 v0 v1 where "kids = [k0, k1]" "vs' = [v0, v1]"
    "denotes A \<sigma> k0 (getWidth A l) v0" "denotes A \<sigma> k1 (getWidth A r) v1"
    by (auto simp: list_all2_Cons1 length_Suc_conv)
  moreover have "width_ok (getWidth A l + getWidth A r)" "w = getWidth A l + getWidth A r"
    using e ConcatExpr by (auto simp: denotes_def)
  ultimately show ?thesis
    using ConcatExpr Concat_create_denotes by simp
next
  case (ExtractExpr x off xw)
  with kids len obtain k v' where "kids = [k]" "vs' = [v']" "denotes A \<sigma> k (getWidth A x) v'"
    by (cases kids) (auto simp: list_all2_Cons1)
  moreover have "0 < w" "xw = w" "off + w \<le> getWidth A x"
    using e ExtractExpr by (auto simp: denotes_def)
  ultimately show ?thesis
    using ExtractExpr Extract_create_denotes by simp
next
  case (NotExpr x)
  with kids len obtain k v' where "kids = [k]" "vs' = [v']" "denotes A \<sigma> k (getWidth A x) v'"
    by (cases kids) (auto simp: list_all2_Cons1)
  moreover have "w = getWidth A x" using e NotExpr by (auto simp: denotes_def)
  ultimately show ?thesis
    using NotExpr Not_create_denotes by simp
next
  case (ZExtExpr x xw)
  with kids len obtain k v' where k: "kids = [k]" "vs' = [v']" "denotes A \<sigma> k (getWidth A x) v'"
    by (cases kids) (auto simp: list_all2_Cons1)
  moreover have "xw = w" "width_ok w" "getWidth A x \<le> w" using e ZExtExpr by (auto simp: denotes_def)
  moreover have "take_bit w v' = v'"
    using fits_mono [OF denotes_fits [OF k(3)] \<open>getWidth A x \<le> w\<close>] by (simp add: fits_iff_take_bit)
  ultimately show ?thesis
    using ZExtExpr ZExt_create_denotes [of \<sigma> k "getWidth A x" v' w] by simp
next
  case (SExtExpr x xw)
  with kids len obtain k v' where k: "kids = [k]" "vs' = [v']" "denotes A \<sigma> k (getWidth A x) v'"
    by (cases kids) (auto simp: list_all2_Cons1)
  moreover have "xw = w" "width_ok w" using e SExtExpr by (auto simp: denotes_def)
  ultimately show ?thesis
    using SExtExpr SExt_create_denotes [of \<sigma> k "getWidth A x" v' w] by simp
next
  case (BinaryExpr k l r)
  with kids len obtain k0 k1 v0 v1 where k: "kids = [k0, k1]" "vs' = [v0, v1]"
    "denotes A \<sigma> k0 (getWidth A l) v0" "denotes A \<sigma> k1 (getWidth A r) v1"
    by (auto simp: list_all2_Cons1 length_Suc_conv)
  have w: "getWidth A r = getWidth A l" "w = (if is_cmp k then Suc 0 else getWidth A l)"
    using e BinaryExpr by (auto simp: denotes_def)
  have "ap_uint A c = v1" if "dyn_cast_Constant k1 = Some c" for c
    using that k(4) by (auto simp: sem_simps)
  then have "bin_pre A k (getWidth A l) k1 v1"
    using ok fixed BinaryExpr k(2)
    by (cases k) (simp_all add: bin_pre_def bin_safe_def split: option.splits)
  from Bin_create_denotes [OF k(3) k(4) [unfolded w(1)] this] show ?thesis
    by (simp only: BinaryExpr w(2) k(1,2) rebuild.simps node_sem.simps nth_Cons_0 nth_Cons_Suc One_nat_def)
qed

end

definition transfer_ok :: "'a ops \<Rightarrow> nat \<Rightarrow> 'a \<Rightarrow> nat list \<Rightarrow> int list \<Rightarrow> (int list \<Rightarrow> int) \<Rightarrow>
    'a \<times> 'a \<times> 'a bits_info list \<Rightarrow> bool" where
  "transfer_ok A w ign ws vs g t \<longleftrightarrow>
     (case t of (one, zero, bits) \<Rightarrow>
        known_bits A one zero w (g vs) \<and> length bits = length vs \<and>
        (\<forall>i < length vs. known_kid A (bits ! i) (ws ! i) (vs ! i)) \<and>
        (\<forall>vs'. length vs' = length vs \<longrightarrow>
           (\<forall>i < length vs. fits (ws ! i) (vs' ! i) \<and> agree (ap_uint A (ignoredBits (bits ! i))) (vs ! i) (vs' ! i)) \<longrightarrow>
           agree (ap_uint A ign) (g vs) (g vs')))"

lemma list_2_iff: "(\<forall>i < length [a, b]. P i) \<longleftrightarrow> P 0 \<and> P (Suc 0)"
  by (auto simp: less_Suc_eq)

lemma transfer_ok_2:
  "transfer_ok A w ign [w0, w1] [v0, v1] g (one, zero, [c0, c1]) \<longleftrightarrow>
     known_bits A one zero w (g [v0, v1]) \<and> known_kid A c0 w0 v0 \<and> known_kid A c1 w1 v1 \<and>
     (\<forall>u0 u1. fits w0 u0 \<longrightarrow> fits w1 u1 \<longrightarrow> agree (ap_uint A (ignoredBits c0)) v0 u0 \<longrightarrow>
        agree (ap_uint A (ignoredBits c1)) v1 u1 \<longrightarrow> agree (ap_uint A ign) (g [v0, v1]) (g [u0, u1]))"
proof -
  have "(\<forall>vs'. length vs' = length [v0, v1] \<longrightarrow> Q vs') \<longleftrightarrow> (\<forall>u0 u1. Q [u0, u1])" for Q :: "int list \<Rightarrow> bool"
    by (auto simp: length_Suc_conv)
  then show ?thesis by (simp add: transfer_ok_def less_Suc_eq) blast
qed

lemma transfer_ok_1:
  "transfer_ok A w ign [w0] [v0] g (one, zero, [c0]) \<longleftrightarrow>
     known_bits A one zero w (g [v0]) \<and> known_kid A c0 w0 v0 \<and>
     (\<forall>u0. fits w0 u0 \<longrightarrow> agree (ap_uint A (ignoredBits c0)) v0 u0 \<longrightarrow>
        agree (ap_uint A ign) (g [v0]) (g [u0]))"
proof -
  have "(\<forall>vs'. length vs' = length [v0] \<longrightarrow> Q vs') \<longleftrightarrow> (\<forall>u0. Q [u0])" for Q :: "int list \<Rightarrow> bool"
    by (auto simp: length_Suc_conv)
  then show ?thesis by (simp add: transfer_ok_def less_Suc_eq) blast
qed

lemma transfer_ok_3:
  "transfer_ok A w ign [w0, w1, w2] [v0, v1, v2] g (one, zero, [c0, c1, c2]) \<longleftrightarrow>
     known_bits A one zero w (g [v0, v1, v2]) \<and> known_kid A c0 w0 v0 \<and> known_kid A c1 w1 v1 \<and> known_kid A c2 w2 v2 \<and>
     (\<forall>u0 u1 u2. fits w0 u0 \<longrightarrow> fits w1 u1 \<longrightarrow> fits w2 u2 \<longrightarrow> agree (ap_uint A (ignoredBits c0)) v0 u0 \<longrightarrow>
        agree (ap_uint A (ignoredBits c1)) v1 u1 \<longrightarrow> agree (ap_uint A (ignoredBits c2)) v2 u2 \<longrightarrow>
        agree (ap_uint A ign) (g [v0, v1, v2]) (g [u0, u1, u2]))"
proof -
  have "(\<forall>vs'. length vs' = length [v0, v1, v2] \<longrightarrow> Q vs') \<longleftrightarrow> (\<forall>u0 u1 u2. Q [u0, u1, u2])" for Q :: "int list \<Rightarrow> bool"
    by (auto simp: length_Suc_conv)
  then show ?thesis by (simp add: transfer_ok_def less_Suc_eq numeral_2_eq_2) blast
qed

lemmas transfer_ok_simps = transfer_ok_1 transfer_ok_2 transfer_ok_3

lemma agree_zero: "agree 0 v v' \<longleftrightarrow> v = v'"
  by (auto simp: agree_def bit_eq_iff)

lemma known_imp_known_kid: "known A b w v \<Longrightarrow> known_kid A b w v"
  by (simp add: known_def known_bits_def known_kid_def)

section \<open>The cases of the switch\<close>

lemmas mask_simps = known_kid_def known_def known_bits_def

context apint
begin

lemma and_bits_ok:
  assumes "known A b0 w v0" and "known A b1 w v1" and "getBitWidth A ign = w"
  shows "transfer_ok A w ign [w, w] [v0, v1] (\<lambda>vs. vs ! 0 AND vs ! 1) (and_bits A w ign b0 b1)"
  unfolding and_bits_def Let_def transfer_ok_simps
  using assms
  apply (intro conjI)
     apply (auto simp: mask_simps apint_simps bit_simps)[]
    apply (auto simp: mask_simps apint_simps bit_simps all_set_iff dest: bit_uint_less)[]
   apply (auto simp: mask_simps apint_simps bit_simps all_set_iff dest: bit_uint_less)[]
  apply (auto simp: mask_simps agree_def apint_simps bit_simps dest: bit_uint_less split: if_splits)
  done

lemma or_bits_ok:
  assumes "known A b0 w v0" and "known A b1 w v1" and "getBitWidth A ign = w"
  shows "transfer_ok A w ign [w, w] [v0, v1] (\<lambda>vs. vs ! 0 OR vs ! 1) (or_bits A w ign b0 b1)"
  unfolding or_bits_def Let_def transfer_ok_simps
  using assms
  apply (intro conjI)
     apply (auto simp: mask_simps apint_simps bit_simps)[]
    apply (auto simp: mask_simps apint_simps bit_simps all_set_iff dest: bit_uint_less)[]
   apply (auto simp: mask_simps apint_simps bit_simps all_set_iff dest: bit_uint_less)[]
  apply (auto simp: mask_simps agree_def apint_simps bit_simps dest: bit_uint_less split: if_splits)
  done

lemma xor_bits_ok:
  assumes "known A b0 w v0" and "known A b1 w v1" and "getBitWidth A ign = w"
  shows "transfer_ok A w ign [w, w] [v0, v1] (\<lambda>vs. vs ! 0 XOR vs ! 1) (xor_bits A ign b0 b1)"
  unfolding xor_bits_def Let_def transfer_ok_simps
  using assms
  by (intro conjI)
    (auto simp: mask_simps agree_def apint_simps bit_simps)

lemma not_bits_ok:
  assumes "known A b0 w v0" and "getBitWidth A ign = w"
  shows "transfer_ok A w ign [w] [v0] (\<lambda>vs. take_bit w (NOT (vs ! 0))) (not_bits ign b0)"
  unfolding not_bits_def transfer_ok_simps
  using assms
  by (intro conjI)
    (auto simp: mask_simps agree_def bit_simps dest: bit_uint_less)

lemma select_bits_ok:
  assumes "known A b0 1 v0" and "known A b1 w v1" and "known A b2 w v2" and "getBitWidth A ign = w"
    and "ap_uint A (ignoredBits b0) = 0"
  shows "transfer_ok A w ign [1, w, w] [v0, v1, v2] (\<lambda>vs. if vs ! 0 \<noteq> 0 then vs ! 1 else vs ! 2)
    (select_bits A ign b0 b1 b2)"
  unfolding select_bits_def transfer_ok_simps
  using assms
  by (intro conjI)
    (auto simp: mask_simps agree_def [of "ap_uint A ign"] bit_simps agree_zero apint_simps)

lemma top_bits_2_ok:
  assumes "known A b0 w0 v0" and "known A b1 w1 v1" and "ap_uint A (ignoredBits b0) = 0" and "ap_uint A (ignoredBits b1) = 0"
  shows "transfer_ok A w ign [w0, w1] [v0, v1] g (getNullValue A w, getNullValue A w, [b0, b1])"
  unfolding transfer_ok_simps
  using assms
  by (auto simp: agree_zero known_imp_known_kid known_bits_def apint_simps agree_def [of "ap_uint A ign"])

lemma top_bits_1_ok:
  assumes "known A b0 w0 v0" and "ap_uint A (ignoredBits b0) = 0"
  shows "transfer_ok A w ign [w0] [v0] g (getNullValue A w, getNullValue A w, [b0])"
  unfolding transfer_ok_simps
  using assms
  by (auto simp: agree_zero known_imp_known_kid known_bits_def apint_simps agree_def [of "ap_uint A ign"])

lemma zext_bits_ok:
  assumes "known A b0 kw v0" and "getBitWidth A ign = w" and "kw < w" and "0 < kw" and "fits kw v0"
  shows "transfer_ok A w ign [kw] [v0] (\<lambda>vs. vs ! 0) (zext_bits A w kw ign b0)"
  unfolding zext_bits_def transfer_ok_simps
  using assms
  by (intro conjI)
    (auto simp: mask_simps agree_def bit_simps apint_simps dest: bit_uint_less fits_bitD)

lemma concat_bits_ok:
  assumes "known A b0 w0 v0" and "known A b1 w1 v1" and "getBitWidth A ign = w0 + w1" and "0 < w0" "0 < w1"
    and "fits w0 v0" and "fits w1 v1"
  shows "transfer_ok A (w0 + w1) ign [w0, w1] [v0, v1] (\<lambda>vs. cat_bits w1 (vs ! 0) (vs ! 1))
    (concat_bits A (w0 + w1) w0 w1 ign b0 b1)"
  unfolding concat_bits_def transfer_ok_simps
  using assms
  by (intro conjI)
    (auto simp: mask_simps agree_def bit_simps apint_simps bit_cat_bits dest: bit_uint_less fits_bitD)

lemma extract_bits_ok:
  assumes "known A b0 kw v0" and "getBitWidth A ign = w" and "off + w \<le> kw" and "w < kw" and "0 < w"
  shows "transfer_ok A w ign [kw] [v0] (\<lambda>vs. take_bit w (drop_bit off (vs ! 0))) (extract_bits A off w kw ign b0)"
  unfolding extract_bits_def transfer_ok_simps
  using assms
  by (intro conjI)
    (auto simp: mask_simps agree_def bit_simps apint_simps dest: bit_uint_less fits_bitD)

end

lemma agree_shl:
  assumes "agree (drop_bit n I OR push_bit (w - n) (mask n)) v u"
  shows "agree I (take_bit w (push_bit n v)) (take_bit w (push_bit n u))"
  unfolding agree_def
proof (intro allI impI)
  fix j assume "\<not> bit I j"
  moreover have "bit v (j - n) = bit u (j - n)" if "n \<le> j" "j < w"
    using assms [unfolded agree_def, rule_format, of "j - n"] that \<open>\<not> bit I j\<close>
    by (auto simp: bit_simps less_diff_conv not_le)
  ultimately show "bit (take_bit w (push_bit n v)) j = bit (take_bit w (push_bit n u)) j"
    by (auto simp: bit_simps)
qed

lemma agree_lshr:
  assumes "agree (take_bit w (push_bit n I) OR mask n) v u"
  shows "agree I (drop_bit n v) (drop_bit n u)"
  using assms by (auto simp: agree_def bit_simps)

lemma agree_sext:
  assumes "agree I' v u" and "0 < kw"
    and "\<forall>j < kw - 1. bit I' j \<longrightarrow> bit I j"
    and "bit I' (kw - 1) \<longrightarrow> (\<forall>j. kw - 1 \<le> j \<longrightarrow> j < w \<longrightarrow> bit I j)"
  shows "agree I (take_bit w (signed_take_bit (kw - 1) v)) (take_bit w (signed_take_bit (kw - 1) u))"
  unfolding agree_def
proof (intro allI impI)
  fix j assume "\<not> bit I j"
  then have "bit v (min (kw - 1) j) = bit u (min (kw - 1) j)" if "j < w"
    using assms(1) [unfolded agree_def, rule_format, of "min (kw - 1) j"] assms(3,4) that
    by (auto simp: min_def not_le split: if_splits)
  then show "bit (take_bit w (signed_take_bit (kw - 1) v)) j = bit (take_bit w (signed_take_bit (kw - 1) u)) j"
    by (auto simp: bit_simps)
qed
context apint
begin

lemma limited_shift:
  assumes "w < 2 ^ 32"
  shows "to_u32 (ap_getLimitedValue A c w) = nat (min (ap_uint A c) (int w))"
  using assms by (simp add: limited_value to_u32_def nat_less_iff)

lemma shl_bits_ok:
  assumes "known A b0 w v0" and "known A b1 w v1" and "getBitWidth A ign = w" and "denotes A \<sigma> kid1 w v1"
    and "ap_uint A (ignoredBits b0) = 0" and "ap_uint A (ignoredBits b1) = 0"
  shows "transfer_ok A w ign [w, w] [v0, v1] (\<lambda>vs. take_bit w (push_bit (nat (vs ! 1)) (vs ! 0)))
    (shl_bits A w ign kid1 b0 b1)"
proof (cases "dyn_cast_Constant kid1")
  case None
  then show ?thesis using top_bits_2_ok [OF assms(1,2,5,6)] by (simp add: shl_bits_def)
next
  case (Some c)
  then have c: "ap_uint A c = v1" "fits w v1" "w < 2 ^ 32"
    using assms(4) denotes_fits [OF assms(4)] denotes_width_ok [OF assms(4)] by (auto simp: sem_simps width_ok_def)
  define n where "n = nat v1"
  have n: "v1 = int n" using c(2) by (simp add: n_def fits_def)
  have sh: "to_u32 (ap_getLimitedValue A c w) = min n w"
    using limited_shift [OF c(3)] by (simp add: c(1) n of_nat_min [symmetric] del: of_nat_min)
  show ?thesis
  proof (cases "n < w")
    case True
    then show ?thesis
      unfolding shl_bits_def Some option.case Let_def sh min_absorb1 [OF less_imp_le [OF True]] if_P [OF True] transfer_ok_simps
      using assms(1,2,3,6) n
      apply (intro conjI)
      apply (auto simp: mask_simps apint_simps bit_simps)[]
      apply (auto simp: mask_simps apint_simps bit_simps)[]
      apply (auto simp: known_imp_known_kid)[]
      apply (auto simp: mask_simps agree_zero apint_simps intro: agree_shl)
      done
  next
    case False
    then show ?thesis
      unfolding shl_bits_def Some option.case Let_def sh transfer_ok_simps
      using assms(1,2,3,6) n
      by (auto simp: mask_simps agree_zero agree_def [of "ap_uint A ign"] apint_simps bit_simps transfer_ok_simps)
  qed
qed

lemma lshr_bits_ok:
  assumes "known A b0 w v0" and "known A b1 w v1" and "getBitWidth A ign = w" and "denotes A \<sigma> kid1 w v1"
    and "ap_uint A (ignoredBits b0) = 0" and "ap_uint A (ignoredBits b1) = 0" and "fits w v0"
  shows "transfer_ok A w ign [w, w] [v0, v1] (\<lambda>vs. drop_bit (nat (vs ! 1)) (vs ! 0))
    (lshr_bits A w ign kid1 b0 b1)"
proof (cases "dyn_cast_Constant kid1")
  case None
  then show ?thesis using top_bits_2_ok [OF assms(1,2,5,6)] by (simp add: lshr_bits_def)
next
  case (Some c)
  then have c: "ap_uint A c = v1" "fits w v1" "w < 2 ^ 32"
    using assms(4) denotes_fits [OF assms(4)] denotes_width_ok [OF assms(4)] by (auto simp: sem_simps width_ok_def)
  define n where "n = nat v1"
  have n: "v1 = int n" using c(2) by (simp add: n_def fits_def)
  have sh: "to_u32 (ap_getLimitedValue A c w) = min n w"
    using limited_shift [OF c(3)] by (simp add: c(1) n of_nat_min [symmetric] del: of_nat_min)
  show ?thesis
  proof (cases "n < w")
    case True
    then show ?thesis
      unfolding lshr_bits_def Some option.case Let_def sh min_absorb1 [OF less_imp_le [OF True]] if_P [OF True] transfer_ok_simps
      using assms(1,2,3,6,7) n
      apply (intro conjI)
      apply (auto simp: mask_simps apint_simps bit_simps dest: fits_bitD)[]
      apply (auto simp: mask_simps apint_simps bit_simps)[]
      apply (auto simp: known_imp_known_kid)[]
      apply (auto simp: mask_simps agree_zero apint_simps intro: agree_lshr)
      done
  next
    case False
    then show ?thesis
      unfolding lshr_bits_def Some option.case Let_def sh transfer_ok_simps
      using assms(1,2,3,6,7) n
      by (auto simp: mask_simps agree_zero agree_def [of "ap_uint A ign"] apint_simps bit_simps transfer_ok_simps dest: fits_bitD)
  qed
qed

lemma sext_bits_ok:
  assumes "known A b0 kw v0" and "getBitWidth A ign = w" and "kw < w" and "0 < kw" and "fits kw v0"
  shows "transfer_ok A w ign [kw] [v0] (\<lambda>vs. take_bit w (signed_take_bit (kw - 1) (vs ! 0))) (sext_bits A w kw ign b0)"
proof -
  have lead: "\<not> countLeadingOnes A ign < w - kw \<Longrightarrow> kw \<le> j \<Longrightarrow> j < w \<Longrightarrow> bit (ap_uint A ign) j" for j
    using leading_ones [of "w - kw" ign] assms(2,3) by (auto simp: not_less)
  have ign: "getBitWidth A (ap_trunc A ign kw) = kw" "ap_uint A (ap_trunc A ign kw) = take_bit kw (ap_uint A ign)"
    using assms by (simp_all add: apint_simps)
  define I' where "I' = (if countLeadingOnes A ign < w - kw then unset_bit (kw - 1) (take_bit kw (ap_uint A ign))
    else take_bit kw (ap_uint A ign))"
  define c where "c = (let b = b0\<lparr>ignoredBits := ap_trunc A ign kw\<rparr> in if countLeadingOnes A ign < w - kw
        then b\<lparr>ignoredBits := clearBit A (ignoredBits b) (getBitWidth A (ignoredBits b) - 1)\<rparr> else b)"
  have c: "ap_uint A (ignoredBits c) = I'" "getBitWidth A (ignoredBits c) = kw"
    "knownOneBits c = knownOneBits b0" "knownZeroBits c = knownZeroBits b0"
    using assms(4) ign by (simp_all add: c_def I'_def Let_def apint_simps)
  have low: "\<forall>j < kw - 1. bit I' j \<longrightarrow> bit (ap_uint A ign) j"
    by (auto simp: I'_def bit_simps)
  have high: "bit I' (kw - 1) \<longrightarrow> (\<forall>j. kw - 1 \<le> j \<longrightarrow> j < w \<longrightarrow> bit (ap_uint A ign) j)"
  proof (intro impI allI)
    fix j assume *: "bit I' (kw - 1)" "kw - 1 \<le> j" "j < w"
    then have "\<not> countLeadingOnes A ign < w - kw" "bit (ap_uint A ign) (kw - 1)"
      by (auto simp: I'_def bit_simps split: if_splits)
    then show "bit (ap_uint A ign) j" using lead [of j] * by (cases "j = kw - 1") auto
  qed
  have "known_bits A (ap_sext A (knownOneBits b0) w) (ap_sext A (knownZeroBits b0) w) w
      (take_bit w (signed_take_bit (kw - 1) v0))"
    using assms by (auto simp: mask_simps apint_simps bit_simps ap_sint_def)
  moreover have "known_kid A c kw v0"
    using assms(1) c by (simp add: mask_simps)
  moreover have "agree (ap_uint A ign) (take_bit w (signed_take_bit (kw - 1) v0)) (take_bit w (signed_take_bit (kw - 1) u))"
    if "agree (ap_uint A (ignoredBits c)) v0 u" for u
    using agree_sext [OF _ assms(4) low high] that c(1) by simp
  ultimately show ?thesis
    unfolding sext_bits_def by (simp add: transfer_ok_simps c_def Let_def)
qed
end

definition kid_result :: "'a ops \<Rightarrow> ('a array_obj \<Rightarrow> nat \<Rightarrow> int) \<Rightarrow> 'a expr \<Rightarrow> 'a expr \<times> 'a bits_info \<Rightarrow> bool" where
  "kid_result A \<sigma> k r \<longleftrightarrow> denotes A \<sigma> (fst r) (getWidth A k) (sem A \<sigma> k) \<and>
     known A (snd r) (getWidth A k) (sem A \<sigma> k) \<and> ap_uint A (ignoredBits (snd r)) = 0"

lemma transfer_fixed:
  "k \<notin> {And, Or, Xor} \<Longrightarrow> length bits = 2 \<Longrightarrow> snd (snd (transfer A (BinaryExpr k l r) ign kids bits)) ! 1 = bits ! 1"
  by (cases k) (auto simp: transfer_def Let_def shl_bits_def lshr_bits_def length_Suc_conv numeral_2_eq_2 split: option.split)

text \<open>The equations of \<open>node_sem\<close> as equations between functions.\<close>

lemma node_sem_eta:
  "node_sem A \<sigma> (SelectExpr c t f) = (\<lambda>vs. if vs ! 0 \<noteq> 0 then vs ! 1 else vs ! 2)"
  "node_sem A \<sigma> (ConcatExpr l r) = (\<lambda>vs. cat_bits (getWidth A r) (vs ! 0) (vs ! 1))"
  "node_sem A \<sigma> (ExtractExpr e off w) = (\<lambda>vs. take_bit w (drop_bit off (vs ! 0)))"
  "node_sem A \<sigma> (NotExpr e) = (\<lambda>vs. take_bit (getWidth A e) (NOT (vs ! 0)))"
  "node_sem A \<sigma> (ZExtExpr e w) = (\<lambda>vs. vs ! 0)"
  "node_sem A \<sigma> (SExtExpr e w) = (\<lambda>vs. take_bit w (signed_take_bit (getWidth A e - 1) (vs ! 0)))"
  "node_sem A \<sigma> (BinaryExpr k l r) = (\<lambda>vs. bin_sem k (getWidth A l) (vs ! 0) (vs ! 1))"
  by (rule ext, simp)+

context apint
begin

lemma transfer_sound:
  assumes e: "denotes A \<sigma> e w v" and ok: "node_ok A \<sigma> e" and ign: "getBitWidth A ign = w"
    and rs: "list_all2 (kid_result A \<sigma>) (getKids e) rs" and nc: "dyn_cast_Constant e = None"
  shows "transfer_ok A w ign (map (getWidth A) (getKids e)) (map (sem A \<sigma>) (getKids e)) (node_sem A \<sigma> e)
    (transfer A e ign (map fst rs) (map snd rs))"
proof (cases e)
  case (ConstantExpr c)
  then show ?thesis using nc by simp
next
  case (ReadExpr root us i)
  with rs obtain r where "rs = [r]" "kid_result A \<sigma> i r" by (auto simp: list_all2_Cons1)
  then show ?thesis
    using ReadExpr e by (auto simp: transfer_def Let_def kid_result_def denotes_def intro!: top_bits_1_ok)
next
  case (SelectExpr c t f)
  with rs obtain r0 r1 r2 where r: "rs = [r0, r1, r2]" "kid_result A \<sigma> c r0" "kid_result A \<sigma> t r1" "kid_result A \<sigma> f r2"
    by (auto simp: list_all2_Cons1)
  moreover have "getWidth A c = 1" "getWidth A t = w" "getWidth A f = w"
    using e SelectExpr by (auto simp: denotes_def)
  ultimately show ?thesis
    using SelectExpr ign select_bits_ok [of "snd r0" "sem A \<sigma> c" "snd r1" w "sem A \<sigma> t" "snd r2" "sem A \<sigma> f" ign]
    by (simp add: transfer_def Let_def kid_result_def node_sem_eta numeral_2_eq_2)
next
  case (ConcatExpr l r)
  with rs obtain r0 r1 where r: "rs = [r0, r1]" "kid_result A \<sigma> l r0" "kid_result A \<sigma> r r1"
    by (auto simp: list_all2_Cons1)
  then have k: "getWidth A (fst r0) = getWidth A l" "getWidth A (fst r1) = getWidth A r"
    "fits (getWidth A l) (sem A \<sigma> l)" "fits (getWidth A r) (sem A \<sigma> r)" "0 < getWidth A l" "0 < getWidth A r"
    using denotes_fits denotes_width_ok by (fastforce simp: kid_result_def denotes_def width_ok_def)+
  moreover have "w = getWidth A l + getWidth A r"
    using e ConcatExpr by (auto simp: denotes_def)
  ultimately show ?thesis
    using ConcatExpr r ign concat_bits_ok [of "snd r0" "getWidth A l" "sem A \<sigma> l" "snd r1" "getWidth A r" "sem A \<sigma> r" ign]
    by (simp add: transfer_def Let_def kid_result_def node_sem_eta)
next
  case (ExtractExpr x off xw)
  with rs obtain r where r: "rs = [r]" "kid_result A \<sigma> x r" by (auto simp: list_all2_Cons1)
  then have "getWidth A (fst r) = getWidth A x" by (simp add: kid_result_def denotes_def)
  moreover have "xw = w" "off + w \<le> getWidth A x" "w < getWidth A x" "0 < w"
    using e ok ExtractExpr by (auto simp: denotes_def)
  ultimately show ?thesis
    using ExtractExpr r ign extract_bits_ok [of "snd r" "getWidth A x" "sem A \<sigma> x" ign w off]
    by (simp add: transfer_def Let_def kid_result_def node_sem_eta)
next
  case (NotExpr x)
  with rs obtain r where r: "rs = [r]" "kid_result A \<sigma> x r" by (auto simp: list_all2_Cons1)
  moreover have "getWidth A x = w"
    using e NotExpr by (auto simp: denotes_def)
  ultimately show ?thesis
    using NotExpr r ign not_bits_ok [of "snd r" w "sem A \<sigma> x" ign]
    by (simp add: transfer_def Let_def kid_result_def node_sem_eta)
next
  case (ZExtExpr x xw)
  with rs obtain r where r: "rs = [r]" "kid_result A \<sigma> x r" by (auto simp: list_all2_Cons1)
  then have "getWidth A (fst r) = getWidth A x" "fits (getWidth A x) (sem A \<sigma> x)" "0 < getWidth A x"
    using denotes_fits denotes_width_ok by (fastforce simp: kid_result_def denotes_def width_ok_def)+
  moreover have "xw = w" "getWidth A x < w" using e ok ZExtExpr by (auto simp: denotes_def)
  ultimately show ?thesis
    using ZExtExpr r ign zext_bits_ok [of "snd r" "getWidth A x" "sem A \<sigma> x" ign w]
    by (simp add: transfer_def Let_def kid_result_def node_sem_eta)
next
  case (SExtExpr x xw)
  with rs obtain r where r: "rs = [r]" "kid_result A \<sigma> x r" by (auto simp: list_all2_Cons1)
  then have "getWidth A (fst r) = getWidth A x" "fits (getWidth A x) (sem A \<sigma> x)" "0 < getWidth A x"
    using denotes_fits denotes_width_ok by (fastforce simp: kid_result_def denotes_def width_ok_def)+
  moreover have "xw = w" "getWidth A x < w" using e ok SExtExpr by (auto simp: denotes_def)
  ultimately show ?thesis
    using SExtExpr r ign sext_bits_ok [of "snd r" "getWidth A x" "sem A \<sigma> x" ign w]
    by (simp add: transfer_def Let_def kid_result_def node_sem_eta)
next
  case (BinaryExpr k l r)
  with rs obtain r0 r1 where r: "rs = [r0, r1]" "kid_result A \<sigma> l r0" "kid_result A \<sigma> r r1"
    by (auto simp: list_all2_Cons1)
  have w: "getWidth A r = getWidth A l" "w = (if is_cmp k then 1 else getWidth A l)"
    using e BinaryExpr by (auto simp: denotes_def)
  note k = r(2,3) [unfolded kid_result_def w(1)]
  have f: "fits (getWidth A l) (sem A \<sigma> l)" using k denotes_fits by blast
  note top = top_bits_2_ok [of "snd r0" "getWidth A l" "sem A \<sigma> l" "snd r1" "getWidth A l" "sem A \<sigma> r" w ign
      "node_sem A \<sigma> e"]
  show ?thesis
  proof (cases "k \<in> {And, Or, Xor, Shl, LShr}")
    case False
    then have "transfer A e ign (map fst rs) (map snd rs) = (getNullValue A w, getNullValue A w, [snd r0, snd r1])"
      using BinaryExpr r(1) w(2) by (cases k) (simp_all add: transfer_def Let_def)
    then show ?thesis using top k BinaryExpr w(1) by simp
  next
    case True
    then show ?thesis
      using BinaryExpr r(1) w k ign
        and_bits_ok [of "snd r0" "getWidth A l" "sem A \<sigma> l" "snd r1" "sem A \<sigma> r" ign]
        or_bits_ok [of "snd r0" "getWidth A l" "sem A \<sigma> l" "snd r1" "sem A \<sigma> r" ign]
        xor_bits_ok [of "snd r0" "getWidth A l" "sem A \<sigma> l" "snd r1" "sem A \<sigma> r" ign]
        shl_bits_ok [of "snd r0" "getWidth A l" "sem A \<sigma> l" "snd r1" "sem A \<sigma> r" ign \<sigma> "fst r1"]
        lshr_bits_ok [of "snd r0" "getWidth A l" "sem A \<sigma> l" "snd r1" "sem A \<sigma> r" ign \<sigma> "fst r1", OF _ _ _ _ _ _ f]
      by (elim insertE emptyE) (simp_all add: transfer_def Let_def node_sem_eta)
  qed
qed

end

end
