(* ===== verification/Bitfield_Sound.thy ===== *)
theory Bitfield_Sound
  imports BitfieldSimplifier "HOL-Library.Code_Target_Nat"
begin

text \<open>
  Soundness of the simplifier.  A call of \<open>doSimplifyBits\<close> returns an expression that agrees with its
  argument outside the ignored bits, and known bits that are right, as long as the cache is right and
  stays so.  It stays so if no entry is put into the cache while some bits are ignored (\<open>good_run\<close>); the
  last section is a run in which the code does that, and in which it then replaces an expression whose
  value is always 1 by the constant 0.
\<close>

unbundle bit_operations_syntax

text \<open>
  The cache is right about every expression in it, and marks nothing as ignored.  A run is good if
  nothing was put into the cache while some bits were ignored, and the nodes it took apart are ones
  the constructors accept.
\<close>

definition cache_ok :: "'a ops \<Rightarrow> ('a array_obj \<Rightarrow> nat \<Rightarrow> int) \<Rightarrow> 'a simplifier \<Rightarrow> bool" where
  "cache_ok A \<sigma> s \<longleftrightarrow> (\<forall>x b. m_bitsInfoCache s x = Some b \<longrightarrow>
     ap_uint A (ignoredBits b) = 0 \<and> (\<forall>w v. denotes A \<sigma> x w v \<longrightarrow> known A b w v))"

definition good_run :: "'a ops \<Rightarrow> ('a array_obj \<Rightarrow> nat \<Rightarrow> int) \<Rightarrow> 'a simplifier \<Rightarrow> bool" where
  "good_run A \<sigma> s \<longleftrightarrow> (\<forall>(x, b) \<in> set (history s). ap_uint A (ignoredBits b) = 0) \<and>
     (\<forall>x \<in> set (visited s). node_ok A \<sigma> x)"

definition grows :: "'a simplifier \<Rightarrow> 'a simplifier \<Rightarrow> bool" where
  "grows s s' \<longleftrightarrow> set (history s) \<subseteq> set (history s') \<and> set (visited s) \<subseteq> set (visited s') \<and>
     m_simplifiedExpressions s' = m_simplifiedExpressions s"

text \<open>What a call of \<open>doSimplifyBits\<close> promises.\<close>

definition sound_call :: "'a ops \<Rightarrow> ('a array_obj \<Rightarrow> nat \<Rightarrow> int) \<Rightarrow> 'a simplify_fun \<Rightarrow> bool" where
  "sound_call A \<sigma> f \<longleftrightarrow> (\<forall>s e ign r s'. f s e ign = Some (r, s') \<longrightarrow> grows s s' \<and>
     (good_run A \<sigma> s' \<longrightarrow> cache_ok A \<sigma> s \<longrightarrow> (\<forall>w v. denotes A \<sigma> e w v \<longrightarrow> getBitWidth A ign = w \<longrightarrow>
        cache_ok A \<sigma> s' \<and> (\<exists>v'. denotes A \<sigma> (fst r) w v' \<and> agree (ap_uint A ign) v v') \<and>
        known A (snd r) w v \<and> ap_uint A (ignoredBits (snd r)) \<in> {0, ap_uint A ign})))"

lemma grows_refl [simp]: "grows s s" by (simp add: grows_def)

lemma grows_trans: "grows s s' \<Longrightarrow> grows s' s'' \<Longrightarrow> grows s s''" by (auto simp: grows_def)

lemma grows_good_run: "grows s s' \<Longrightarrow> good_run A \<sigma> s' \<Longrightarrow> good_run A \<sigma> s"
  by (fastforce simp: grows_def good_run_def)

lemma sound_call_grows: "sound_call A \<sigma> f \<Longrightarrow> f s e ign = Some (r, s') \<Longrightarrow> grows s s'"
  unfolding sound_call_def by blast

lemma sound_callD:
  "sound_call A \<sigma> f \<Longrightarrow> f s e ign = Some (r, s') \<Longrightarrow> good_run A \<sigma> s' \<Longrightarrow> cache_ok A \<sigma> s \<Longrightarrow>
   denotes A \<sigma> e w v \<Longrightarrow> getBitWidth A ign = w \<Longrightarrow>
   cache_ok A \<sigma> s' \<and> (\<exists>v'. denotes A \<sigma> (fst r) w v' \<and> agree (ap_uint A ign) v v') \<and>
   known A (snd r) w v \<and> ap_uint A (ignoredBits (snd r)) \<in> {0, ap_uint A ign}"
  unfolding sound_call_def by blast

lemma fold_erase_Some: "fold (\<lambda>k c. c(k := None)) ks c x = Some b \<Longrightarrow> c x = Some b"
  by (induction ks arbitrary: c) (fastforce split: if_splits)+

lemma replaceWithConstant_grows: "replaceWithConstant A s e val = (e', s') \<Longrightarrow> grows s s'"
  by (auto simp: replaceWithConstant_def grows_def split: if_splits option.splits)

lemma replaceWithConstant_cache_ok:
  "replaceWithConstant A s e val = (e', s') \<Longrightarrow> cache_ok A \<sigma> s \<Longrightarrow> cache_ok A \<sigma> s'"
  by (auto simp: replaceWithConstant_def cache_ok_def split: if_splits option.splits dest!: fold_erase_Some)

lemma cache_insert_grows: "grows s (cache_insert s e b)"
  by (auto simp: cache_insert_def grows_def split: option.splits)

lemma update_kid_grows: "sound_call A \<sigma> f \<Longrightarrow> update_kid f A s kid b old = Some (k, s') \<Longrightarrow> grows s s'"
  by (auto simp: update_kid_def replaceWithConstant_grows sound_call_grows split: if_splits)

lemma update_kids_grows: "sound_call A \<sigma> f \<Longrightarrow> update_kids f A s kids bits olds = Some (ks, s') \<Longrightarrow> grows s s'"
  by (induction f A s kids bits olds arbitrary: ks s' rule: update_kids.induct)
    (auto simp: bind_eq_Some_conv dest!: update_kid_grows intro: grows_trans)

lemma simplify_kids_grows: "sound_call A \<sigma> f \<Longrightarrow> simplify_kids f A s ks = Some (rs, s') \<Longrightarrow> grows s s'"
  by (induction ks arbitrary: s rs)
    (auto simp: bind_eq_Some_conv dest!: sound_call_grows intro: grows_trans)

context apint
begin

lemma replaceWithConstant_denotes:
  assumes "replaceWithConstant A s e val = (e', s')" and "denotes A \<sigma> e w v" and "getBitWidth A val = w"
  shows "denotes A \<sigma> e' w (ap_uint A val)"
  using assms denotes_width_ok [OF assms(2)]
  by (auto simp: replaceWithConstant_def sem_simps apint_simps split: if_splits option.splits)

lemma simplify_kids_sound:
  assumes f: "sound_call A \<sigma> f" and "simplify_kids f A s ks = Some (rs, s')" and "good_run A \<sigma> s'" and "cache_ok A \<sigma> s"
    and "\<forall>k \<in> set ks. denotes A \<sigma> k (getWidth A k) (sem A \<sigma> k)"
  shows "cache_ok A \<sigma> s' \<and> list_all2 (kid_result A \<sigma>) ks rs"
  using assms(2-)
proof (induction ks arbitrary: s rs)
  case (Cons k ks)
  from Cons.prems(1) obtain r s1 rs1 where 1: "f s k (getNullValue A (getWidth A k)) = Some (r, s1)"
    and 2: "simplify_kids f A s1 ks = Some (rs1, s')" and rs: "rs = r # rs1"
    by (auto simp: bind_eq_Some_conv)
  have good: "good_run A \<sigma> s1" using grows_good_run [OF simplify_kids_grows [OF f 2]] Cons.prems(2) by blast
  have "cache_ok A \<sigma> s1 \<and> kid_result A \<sigma> k r"
    using sound_callD [OF f 1 good Cons.prems(3), of "getWidth A k" "sem A \<sigma> k"] Cons.prems(4)
    by (auto simp: apint_simps agree_zero kid_result_def)
  with Cons.IH [OF 2 Cons.prems(2)] Cons.prems(4) rs show ?case by simp
qed auto

lemma known_kid_all_set:
  assumes "known_kid A b w v" and "fits w v"
    and "all_set A (ap_or A (ap_or A (knownOneBits b) (knownZeroBits b)) (ignoredBits b))"
  shows "agree (ap_uint A (ignoredBits b)) v (ap_uint A (knownOneBits b))"
  unfolding agree_def
proof (intro allI impI)
  fix j assume j: "\<not> bit (ap_uint A (ignoredBits b)) j"
  show "bit v j = bit (ap_uint A (knownOneBits b)) j"
  proof (cases "j < w")
    case True
    with assms(3) j have "bit (ap_uint A (knownOneBits b)) j \<or> bit (ap_uint A (knownZeroBits b)) j"
      using assms(1) by (auto simp: all_set_iff known_kid_def apint_simps bit_simps)
    then show ?thesis using assms(1) j by (auto simp: known_kid_def)
  next
    case False
    then show ?thesis using assms(1,2) bit_uint_less fits_bitD by (fastforce simp: known_kid_def)
  qed
qed

lemma update_kid_sound:
  assumes f: "sound_call A \<sigma> f" and u: "update_kid f A s kid b old = Some (k, s')"
    and good: "good_run A \<sigma> s'" and c: "cache_ok A \<sigma> s" and kid: "denotes A \<sigma> kid w v" and kn: "known_kid A b w v"
  shows "cache_ok A \<sigma> s' \<and> (\<exists>v'. denotes A \<sigma> k w v' \<and> agree (ap_uint A (ignoredBits b)) v v')"
proof -
  have refl: "agree I v v" for I by (simp add: agree_def)
  consider (const) "all_set A (ap_or A (ap_or A (knownOneBits b) (knownZeroBits b)) (ignoredBits b))"
      "replaceWithConstant A s kid (knownOneBits b) = (k, s')"
    | (same) "k = kid" "s' = s"
    | (again) r where "f s kid (ignoredBits b) = Some (r, s')" "k = fst r"
    using u by (auto simp: update_kid_def split: if_splits)
  then show ?thesis
  proof cases
    case const
    then show ?thesis
      using known_kid_all_set [OF kn denotes_fits [OF kid] const(1)] replaceWithConstant_cache_ok [OF const(2) c]
        replaceWithConstant_denotes [OF const(2) kid] kn
      by (auto simp: known_kid_def)
  next
    case same
    then show ?thesis using c kid refl by auto
  next
    case again
    then show ?thesis using sound_callD [OF f again(1) good c kid] kn by (auto simp: known_kid_def)
  qed
qed

lemma update_kids_sound:
  assumes f: "sound_call A \<sigma> f" and "update_kids f A s kids bits olds = Some (ks, s')"
    and good: "good_run A \<sigma> s'" and "cache_ok A \<sigma> s"
    and "length bits = length kids" "length olds = length kids" "length vs = length kids" "length ws = length kids"
    and "\<forall>i < length kids. denotes A \<sigma> (kids ! i) (ws ! i) (vs ! i) \<and> known_kid A (bits ! i) (ws ! i) (vs ! i)"
  shows "cache_ok A \<sigma> s' \<and> length ks = length kids \<and> (\<exists>vs'. length vs' = length kids \<and>
    (\<forall>i < length kids. denotes A \<sigma> (ks ! i) (ws ! i) (vs' ! i) \<and> agree (ap_uint A (ignoredBits (bits ! i))) (vs ! i) (vs' ! i)))"
  using assms(2-)
proof (induction kids arbitrary: s bits olds ks vs ws)
  case (Cons kid kids)
  obtain b bits1 old olds1 v vs1 w ws1 where c: "bits = b # bits1" "olds = old # olds1" "vs = v # vs1" "ws = w # ws1"
    using Cons.prems by (cases bits; cases olds; cases vs; cases ws) auto
  from Cons.prems(1) obtain k s1 ks1 where 1: "update_kid f A s kid b old = Some (k, s1)"
    and 2: "update_kids f A s1 kids bits1 olds1 = Some (ks1, s')" and ks: "ks = k # ks1"
    by (auto simp: bind_eq_Some_conv c)
  have good1: "good_run A \<sigma> s1" using grows_good_run [OF update_kids_grows [OF f 2] good] .
  have hd: "denotes A \<sigma> kid w v" "known_kid A b w v" using Cons.prems(8) c by auto
  from update_kid_sound [OF f 1 good1 Cons.prems(3) hd] obtain v'
    where s1: "cache_ok A \<sigma> s1" and v': "denotes A \<sigma> k w v'" "agree (ap_uint A (ignoredBits b)) v v'" by blast
  have tl: "\<forall>i < length kids. denotes A \<sigma> (kids ! i) (ws1 ! i) (vs1 ! i) \<and> known_kid A (bits1 ! i) (ws1 ! i) (vs1 ! i)"
    using Cons.prems(8) c by auto
  from Cons.IH [OF 2 good s1 _ _ _ _ tl] Cons.prems c obtain vs' where
    "cache_ok A \<sigma> s'" "length ks1 = length kids" "length vs' = length kids"
    "\<forall>i < length kids. denotes A \<sigma> (ks1 ! i) (ws1 ! i) (vs' ! i) \<and> agree (ap_uint A (ignoredBits (bits1 ! i))) (vs1 ! i) (vs' ! i)"
    by auto
  with v' show ?case
    by (intro conjI exI [of _ "v' # vs'"]) (auto simp: ks c nth_Cons split: nat.split)
qed auto

end

context apint
begin

lemma denotes_kids: "denotes A \<sigma> e w v \<Longrightarrow> k \<in> set (getKids e) \<Longrightarrow> denotes A \<sigma> k (getWidth A k) (sem A \<sigma> k)"
  by (cases e) (auto simp: denotes_def)

lemma denotes_known_disjoint:
  assumes "known_bits A one zero w v"
  shows "ap_uint A one AND ap_uint A zero = 0"
  by (rule bit_eqI) (use assms in \<open>auto simp: known_bits_def bit_simps\<close>)

lemma all_set_agree:
  assumes "known_bits A one zero w v" and "getBitWidth A ign = w" and "fits w v"
    and "all_set A (ap_or A (ap_or A one zero) ign)"
  shows "agree (ap_uint A ign) v (ap_uint A one)"
  using known_kid_all_set [of "\<lparr>ignoredBits = ign, knownOneBits = one, knownZeroBits = zero\<rparr>" w v] assms
  by (simp add: known_kid_def known_bits_def)

lemma cache_insert_ok:
  assumes "cache_ok A \<sigma> s" and "good_run A \<sigma> (cache_insert s e b)" and "ap_uint A (ignoredBits b) = 0 \<longrightarrow> (\<forall>w v. denotes A \<sigma> e w v \<longrightarrow> known A b w v)"
  shows "cache_ok A \<sigma> (cache_insert s e b)"
  using assms by (auto simp: cache_ok_def cache_insert_def good_run_def split: option.splits if_splits)

text \<open>The body of \<open>doSimplifyBits\<close>, if its recursive calls are sound.\<close>

lemma simplify_node_rebuilt:
  assumes f: "sound_call A \<sigma> f" and e: "denotes A \<sigma> e w v" and ign: "getBitWidth A ign = w" and ok: "node_ok A \<sigma> e"
    and rs: "list_all2 (kid_result A \<sigma>) (getKids e) rs" and nc: "dyn_cast_Constant e = None"
    and t: "transfer A e ign (map fst rs) (map snd rs) = (one, zero, bits)"
    and u: "update_kids f A s (map fst rs) bits (map (ignoredBits \<circ> snd) rs) = Some (kids, s')"
    and good: "good_run A \<sigma> s'" and c: "cache_ok A \<sigma> s"
  shows "cache_ok A \<sigma> s' \<and> (\<exists>v'. denotes A \<sigma> (rebuild A e kids) w v' \<and> agree (ap_uint A ign) v v')"
proof -
  let ?ks = "getKids e" let ?ws = "map (getWidth A) ?ks" let ?vs = "map (sem A \<sigma>) ?ks"
  have v: "v = node_sem A \<sigma> e ?vs" using e sem_node [of A \<sigma> e] by (simp add: denotes_def)
  have len: "length rs = length ?ks" using rs by (simp add: list_all2_lengthD)
  have tr: "transfer_ok A w ign ?ws ?vs (node_sem A \<sigma> e) (one, zero, bits)"
    using transfer_sound [OF e ok ign rs nc] by (simp add: t)
  then have bits: "length bits = length rs" "\<forall>i < length rs. known_kid A (bits ! i) (?ws ! i) (?vs ! i)"
    using len by (auto simp: transfer_ok_def)
  have den: "denotes A \<sigma> (fst (rs ! i)) (?ws ! i) (?vs ! i)" if "i < length rs" for i
    using rs that len by (auto simp: list_all2_conv_all_nth kid_result_def)
  have pre: "\<forall>i < length (map fst rs). denotes A \<sigma> (map fst rs ! i) (?ws ! i) (?vs ! i) \<and> known_kid A (bits ! i) (?ws ! i) (?vs ! i)"
    using den bits by simp
  have "cache_ok A \<sigma> s' \<and> length kids = length (map fst rs) \<and> (\<exists>vs'. length vs' = length (map fst rs) \<and>
      (\<forall>i < length (map fst rs). denotes A \<sigma> (kids ! i) (?ws ! i) (vs' ! i) \<and>
        agree (ap_uint A (ignoredBits (bits ! i))) (?vs ! i) (vs' ! i)))"
    by (rule update_kids_sound [OF f u good c _ _ _ _ pre]) (simp_all add: bits len)
  then obtain vs' where c': "cache_ok A \<sigma> s'" and lk: "length kids = length ?ks" "length vs' = length ?ks"
    and k: "\<forall>i < length ?ks. denotes A \<sigma> (kids ! i) (?ws ! i) (vs' ! i) \<and>
        agree (ap_uint A (ignoredBits (bits ! i))) (?vs ! i) (vs' ! i)"
    using len by auto
  have fits: "\<forall>i < length ?ks. fits (?ws ! i) (vs' ! i)" using k denotes_fits by blast
  have "agree (ap_uint A ign) v (node_sem A \<sigma> e vs')"
    using tr lk k fits unfolding v transfer_ok_def by simp
  moreover have "kids_fixed e ?vs vs'"
  proof (cases e)
    case (BinaryExpr kk l r)
    have "vs' ! 1 = ?vs ! 1" if "kk \<notin> {And, Or, Xor}"
    proof -
      have "bits ! 1 = snd (rs ! 1)"
        using transfer_fixed [OF that, of "map snd rs" A l r ign "map fst rs"] t len BinaryExpr by simp
      then show ?thesis
        using k [rule_format, of 1] rs len BinaryExpr by (auto simp: list_all2_conv_all_nth kid_result_def agree_zero)
    qed
    then show ?thesis using BinaryExpr by simp
  qed simp_all
  moreover have "list_all2 (\<lambda>(k, k') v'. denotes A \<sigma> k' (getWidth A k) v') (zip ?ks kids) vs'"
    using k lk by (auto simp: list_all2_conv_all_nth)
  ultimately show ?thesis
    using rebuild_denotes [OF e ok _ lk(1)] c' by blast
qed

lemma simplify_node_sound:
  assumes f: "sound_call A \<sigma> f" and r: "simplify_node f A s e ign = Some (r, s')"
  shows "grows s s'"
    and "good_run A \<sigma> s' \<Longrightarrow> cache_ok A \<sigma> s \<Longrightarrow> dyn_cast_Constant e = None \<Longrightarrow> denotes A \<sigma> e w v \<Longrightarrow> getBitWidth A ign = w \<Longrightarrow>
      cache_ok A \<sigma> s' \<and> (\<exists>v'. denotes A \<sigma> (fst r) w v' \<and> agree (ap_uint A ign) v v') \<and>
      known A (snd r) w v \<and> ap_uint A (ignoredBits (snd r)) = ap_uint A ign"
proof -
  obtain rs s1 where 1: "simplify_kids f A (s\<lparr>visited := e # visited s\<rparr>) (getKids e) = Some (rs, s1)"
    using r by (auto simp: simplify_node_def bind_eq_Some_conv)
  obtain one zero bits where t: "transfer A e ign (map fst rs) (map snd rs) = (one, zero, bits)"
    by (rule prod_cases3)
  let ?b = "\<lparr>ignoredBits = ign, knownOneBits = one, knownZeroBits = zero\<rparr>"
  let ?all = "all_set A (ap_or A (ap_or A one zero) ign)"
  obtain e' s2 where 2: "rebuild_node f A s1 e ign rs (one, zero, bits) = Some (e', s2)"
    and s': "s' = (if 1 < length (getKids e') then cache_insert s2 e' ?b else s2)" and rr: "r = (e', ?b)"
    using r 1 t by (auto simp: simplify_node_def Let_def bind_eq_Some_conv)
  consider (all) "?all" "replaceWithConstant A s1 e one = (e', s2)"
    | (kids) kids where "update_kids f A s1 (map fst rs) bits (map (ignoredBits \<circ> snd) rs) = Some (kids, s2)"
      "e' = (if kids \<noteq> getKids e then rebuild A e kids else e)"
    using 2 by (auto simp: rebuild_node_def bind_eq_Some_conv split: if_splits)
  note step = this
  have g1: "grows (s\<lparr>visited := e # visited s\<rparr>) s1" by (rule simplify_kids_grows [OF f 1])
  have g2: "grows s1 s2"
    using step by cases (auto intro: replaceWithConstant_grows update_kids_grows [OF f])
  have g3: "grows s2 s'" by (simp add: s' cache_insert_grows)
  have "grows s (s\<lparr>visited := e # visited s\<rparr>)" by (auto simp: grows_def)
  then show "grows s s'" using g1 g2 g3 grows_trans by blast
  assume good: "good_run A \<sigma> s'" and c: "cache_ok A \<sigma> s" and nc: "dyn_cast_Constant e = None"
    and e: "denotes A \<sigma> e w v" and ign: "getBitWidth A ign = w"
  have good2: "good_run A \<sigma> s2" and good1: "good_run A \<sigma> s1"
    using good g2 g3 grows_good_run by blast+
  have ok: "node_ok A \<sigma> e"
    using grows_good_run [OF g1 good1] by (simp add: good_run_def)
  have "cache_ok A \<sigma> (s\<lparr>visited := e # visited s\<rparr>)" using c by (simp add: cache_ok_def)
  from simplify_kids_sound [OF f 1 good1 this] denotes_kids [OF e]
  have c1: "cache_ok A \<sigma> s1" and rs: "list_all2 (kid_result A \<sigma>) (getKids e) rs" by auto
  have kb: "known_bits A one zero w v"
    using transfer_sound [OF e ok ign rs nc] e sem_node [of A \<sigma> e] by (auto simp: t transfer_ok_def denotes_def)
  have main: "cache_ok A \<sigma> s2 \<and> (\<exists>v'. denotes A \<sigma> e' w v' \<and> agree (ap_uint A ign) v v')"
    using step
  proof cases
    case all
    with all_set_agree [OF kb ign denotes_fits [OF e] all(1)] replaceWithConstant_denotes [OF all(2) e]
      replaceWithConstant_cache_ok [OF all(2) c1] kb show ?thesis by (auto simp: known_bits_def)
  next
    case kids
    have "agree I v v" for I by (simp add: agree_def)
    with simplify_node_rebuilt [OF f e ign ok rs nc t kids(1) good2 c1] kids(2) e show ?thesis by auto
  qed
  moreover have "known A ?b w v" using kb ign by (simp add: known_def)
  moreover have "cache_ok A \<sigma> s'"
  proof (cases "1 < length (getKids e')")
    case True
    have "known A ?b w' v'" if z: "ap_uint A ign = 0" and d': "denotes A \<sigma> e' w' v'" for w' v'
    proof -
      from main z have "denotes A \<sigma> e' w v" by (auto simp: agree_zero)
      then show ?thesis using denotes_fun [OF _ d'] \<open>known A ?b w v\<close> by blast
    qed
    then have "ap_uint A ign = 0 \<longrightarrow> (\<forall>w' v'. denotes A \<sigma> e' w' v' \<longrightarrow> known A ?b w' v')" by blast
    then show ?thesis using cache_insert_ok [of \<sigma> s2 e' ?b] main good s' True by simp
  qed (use main s' in simp)
  ultimately show "cache_ok A \<sigma> s' \<and> (\<exists>v'. denotes A \<sigma> (fst r) w v' \<and> agree (ap_uint A ign) v v') \<and>
      known A (snd r) w v \<and> ap_uint A (ignoredBits (snd r)) = ap_uint A ign"
    by (simp add: rr)
qed

lemma doSimplifyBits_sound: "sound_call A \<sigma> (doSimplifyBits n A)"
proof (induction n)
  case 0
  then show ?case by (simp add: sound_call_def)
next
  case (Suc n)
  show ?case
    unfolding sound_call_def
  proof (intro allI impI)
    fix s e ign r s' assume r: "doSimplifyBits (Suc n) A s e ign = Some (r, s')"
    consider (const) c where "e = ConstantExpr c" "r = (e, \<lparr>ignoredBits = ign, knownOneBits = c, knownZeroBits = ap_not A c\<rparr>)" "s' = s"
      | (cached) b where "m_bitsInfoCache s e = Some b" "r = (e, b)" "s' = s"
      | (node) "dyn_cast_Constant e = None" "simplify_node (doSimplifyBits n A) A s e ign = Some (r, s')"
    proof (cases "dyn_cast_Constant e")
      case None
      note r' = r [unfolded doSimplifyBits.simps None option.case]
      show ?thesis
      proof (cases "m_bitsInfoCache s e")
        case None
        then show ?thesis using r' by (intro that(3) [OF \<open>dyn_cast_Constant e = None\<close>]) simp
      next
        case (Some b)
        then have "r = (e, b)" "s' = s" using r' by simp_all
        then show ?thesis by (rule that(2) [OF Some])
      qed
    next
      case (Some c)
      then have "e = ConstantExpr c" "s' = s"
        "r = (e, \<lparr>ignoredBits = ign, knownOneBits = c, knownZeroBits = ap_not A c\<rparr>)"
        using r by simp_all
      then show ?thesis using that(1) by blast
    qed
    then show "grows s s' \<and> (good_run A \<sigma> s' \<longrightarrow> cache_ok A \<sigma> s \<longrightarrow> (\<forall>w v. denotes A \<sigma> e w v \<longrightarrow> getBitWidth A ign = w \<longrightarrow>
        cache_ok A \<sigma> s' \<and> (\<exists>v'. denotes A \<sigma> (fst r) w v' \<and> agree (ap_uint A ign) v v') \<and>
        known A (snd r) w v \<and> ap_uint A (ignoredBits (snd r)) \<in> {0, ap_uint A ign}))"
    proof cases
      case const
      then show ?thesis
        by (auto simp: known_def known_bits_def sem_simps apint_simps agree_def bit_simps)
    next
      case cached
      then show ?thesis by (auto simp: cache_ok_def agree_def)
    next
      case node
      then show ?thesis using simplify_node_sound [OF Suc.IH node(2)] by blast
    qed
  qed
qed

end

text \<open>The results kept by \<open>simplify\<close> itself.\<close>

definition simplified_ok :: "'a ops \<Rightarrow> ('a array_obj \<Rightarrow> nat \<Rightarrow> int) \<Rightarrow> 'a simplifier \<Rightarrow> bool" where
  "simplified_ok A \<sigma> s \<longleftrightarrow> (\<forall>e r. m_simplifiedExpressions s e = Some r \<longrightarrow>
     (\<forall>w v. denotes A \<sigma> e w v \<longrightarrow> denotes A \<sigma> (fst r) w v \<and> known A (snd r) w v))"

definition simplifier_ok :: "'a ops \<Rightarrow> ('a array_obj \<Rightarrow> nat \<Rightarrow> int) \<Rightarrow> 'a simplifier \<Rightarrow> bool" where
  "simplifier_ok A \<sigma> s \<longleftrightarrow> cache_ok A \<sigma> s \<and> simplified_ok A \<sigma> s"


lemma getBaseOffsetFast_Some:
  "getBaseOffsetFast A e = Some (base, off, sz) \<Longrightarrow>
   \<exists>c x m. e = BinaryExpr Add (ConstantExpr c) (BinaryExpr And x (ConstantExpr m)) \<and> getWidth A e \<le> 64 \<and>
     maskToBits (ap_getZExtValue A m) = Some sz \<and> base = ap_getZExtValue A c \<and> off = BinaryExpr And x (ConstantExpr m)"
  unfolding getBaseOffsetFast_def
  by (clarsimp simp: bind_eq_Some_conv split: if_splits)

context apint
begin

lemma simplify_denotes:
  assumes s: "simplify n A s e = Some (e', kz, s')" and good: "good_run A \<sigma> s'" and ok: "simplifier_ok A \<sigma> s"
    and e: "denotes A \<sigma> e w v"
  shows "simplifier_ok A \<sigma> s' \<and> denotes A \<sigma> e' w v \<and>
    (\<forall>z. kz = Some z \<longrightarrow> getBitWidth A z = w \<and> ap_uint A z AND v = 0)"
proof -
  have kb: "getBitWidth A (knownZeroBits b) = w \<and> ap_uint A (knownZeroBits b) AND v = 0" if "known A b w v" for b
    using that by (auto simp: known_def known_bits_def bit_eq_iff bit_simps)
  show ?thesis
  proof (cases "dyn_cast_Constant e")
    case (Some c)
    then have "e' = e" "kz = None" "s' = s" using s by (simp_all add: simplify_def)
    then show ?thesis using e ok by simp
  next
    case nc: None
    show ?thesis
    proof (cases "m_simplifiedExpressions s e")
      case (Some r)
      then have eq: "e' = fst r" "kz = Some (knownZeroBits (snd r))" "s' = s\<lparr>m_cacheHits := m_cacheHits s + 1\<rparr>"
        using s nc by (auto simp: simplify_def split: prod.splits)
      have "denotes A \<sigma> e' w v" "known A (snd r) w v"
        using Some e ok unfolding simplifier_ok_def simplified_ok_def eq(1) by blast+
      then show ?thesis
        using ok kb [of "snd r"] by (simp add: eq(2,3) simplifier_ok_def simplified_ok_def cache_ok_def)
    next
      case None
      define s0 where "s0 = s\<lparr>m_cacheMisses := m_cacheMisses s + 1\<rparr>"
      obtain r s1 where d: "doSimplifyBits n A s0 e (getNullValue A (getWidth A e)) = Some (r, s1)"
        and eq: "e' = fst r" "kz = Some (knownZeroBits (snd r))"
          "s' = s1\<lparr>m_simplifiedExpressions := (m_simplifiedExpressions s1)(e \<mapsto> r)\<rparr>"
        using s nc None by (auto simp: simplify_def s0_def bind_eq_Some_conv)
      have c: "cache_ok A \<sigma> s0" and s0: "m_simplifiedExpressions s0 = m_simplifiedExpressions s"
        using ok by (simp_all add: simplifier_ok_def cache_ok_def s0_def)
      have g: "good_run A \<sigma> s1" using good eq(3) by (simp add: good_run_def)
      have w: "getWidth A e = w" using e by (simp add: denotes_def)
      from sound_callD [OF doSimplifyBits_sound d g c e] w
      have r: "cache_ok A \<sigma> s1" "denotes A \<sigma> e' w v" "known A (snd r) w v"
        by (auto simp: apint_simps agree_zero eq(1))
      have "m_simplifiedExpressions s1 = m_simplifiedExpressions s"
        using sound_call_grows [OF doSimplifyBits_sound d] s0 by (simp add: grows_def)
      then have "simplified_ok A \<sigma> s'"
        using ok r denotes_fun [OF e] by (auto simp: simplifier_ok_def simplified_ok_def eq)
      moreover have "cache_ok A \<sigma> s'" using r(1) by (simp add: eq(3) cache_ok_def)
      ultimately show ?thesis using r kb [OF r(3)] eq(2) by (simp add: simplifier_ok_def)
    qed
  qed
qed

lemma getBaseOffset_denotes:
  assumes g: "getBaseOffset n A s e = Some (Some (base, off, sz), s')" and good: "good_run A \<sigma> s'" and ok: "simplifier_ok A \<sigma> s"
    and e: "denotes A \<sigma> e w v" and w: "w \<le> 64"
  shows "\<exists>vo. denotes A \<sigma> off w vo \<and> v = take_bit w (int base + vo) \<and> vo < int sz"
proof -
  obtain c r e' z where *: "e = BinaryExpr Add (ConstantExpr c) r" "simplify n A s r = Some (e', Some z, s')"
    "ap_rawWord A z AND 0xFFFFFFFFFFFFFF00 = 0xFFFFFFFFFFFFFF00" "base = ap_getZExtValue A c" "off = r" "sz = 256"
    using g by (auto simp: getBaseOffset_def bind_eq_Some_conv split: option.splits prod.splits if_splits)
  from e *(1) obtain vo where r: "denotes A \<sigma> r w vo" "v = take_bit w (ap_uint A c + vo)" "getBitWidth A c = w"
    by (auto simp: sem_simps)
  from simplify_denotes [OF *(2) good ok r(1)] have z: "getBitWidth A z = w" "ap_uint A z AND vo = 0" by auto
  have high: "\<not> bit vo j" if "8 \<le> j" for j
  proof (cases "j < 64")
    case True
    have m: "bit (0xFFFFFFFFFFFFFF00 :: nat) j \<longleftrightarrow> 8 \<le> j"
    proof -
      have "(0xFFFFFFFFFFFFFF00 :: nat) = push_bit 8 (mask 56)" by (simp add: push_bit_eq_mult mask_eq_exp_minus_1)
      then show ?thesis using True by (simp only: bit_simps) auto
    qed
    have "bit (ap_rawWord A z) j"
      using *(3) m that by (metis bit_and_iff)
    then have "bit (ap_uint A z) j"
      using uint_fits [of z] by (simp add: raw_word bit_nat_iff bit_simps fits_def)
    then show ?thesis using z(2) by (metis bit_and_iff bit_0_eq bot_apply bot_bool_def)
  next
    case False
    then show ?thesis using denotes_fits [OF r(1)] w fits_bitD by fastforce
  qed
  have "take_bit 8 vo = vo" by (rule bit_eqI) (use high leI in \<open>auto simp: bit_simps\<close>)
  then have "vo < 256" using take_bit_int_less_exp [of 8 vo] by simp
  then show ?thesis
    using r * w by (auto simp: zext_value_int)
qed

lemma getBaseOffsetFast_denotes:
  assumes g: "getBaseOffsetFast A e = Some (base, off, sz)" and e: "denotes A \<sigma> e w v"
  shows "\<exists>vo. denotes A \<sigma> off w vo \<and> v = take_bit w (int base + vo) \<and> vo < (if sz = 1 then 2 else int sz)"
proof -
  obtain c x m where *: "e = BinaryExpr Add (ConstantExpr c) (BinaryExpr And x (ConstantExpr m))"
    "getWidth A e \<le> 64" "maskToBits (ap_getZExtValue A m) = Some sz"
    "base = ap_getZExtValue A c" "off = BinaryExpr And x (ConstantExpr m)"
    using getBaseOffsetFast_Some [OF g] by blast
  have "w \<le> 64" using *(2) e by (simp add: denotes_def)
  from denotes_Bin [THEN iffD1, OF e [unfolded *(1)]] obtain vo where d: "denotes A \<sigma> (ConstantExpr c) w (ap_uint A c)"
      "denotes A \<sigma> off w vo" "v = take_bit w (ap_uint A c + vo)" "getBitWidth A c = w"
    unfolding *(5) by (auto simp: denotes_Constant)
  from denotes_Bin [THEN iffD1, OF d(2) [unfolded *(5)]] obtain vx where
    r: "vo = vx AND ap_uint A m" "getBitWidth A m = w" "denotes A \<sigma> x w vx"
    by (auto simp: denotes_Constant)
  have "vx AND ap_uint A m \<le> ap_uint A m"
    using uint_fits [of m] by (intro AND_upper2) (simp add: fits_def)
  moreover have "ap_uint A m = int (ap_getZExtValue A m)" using r \<open>w \<le> 64\<close> by (simp add: zext_value_int)
  ultimately have "vx AND ap_uint A m < (if sz = 1 then 2 else int sz)"
    using *(3) by (auto simp: maskToBits_def split: if_splits)
  then show ?thesis using r(1) d \<open>w \<le> 64\<close> unfolding *(4) by (intro exI [of _ vo]) (simp add: zext_value_int)
qed

end

section \<open>The cache of a run that is not good\<close>

text \<open>
  \<open>ex_or\<close> is \<open>v0 | 3\<close>.  Simplifying \<open>ex_first\<close> makes the code simplify \<open>ex_and\<close> while bits 0 and 3 to 7 are
  ignored; the result is \<open>ex_or\<close>, which enters the cache with the known bits of \<open>ex_and\<close>: bit 0 is zero.
  Simplifying \<open>ex_second\<close>, which is \<open>(v0 | 3) & 1\<close>, then returns 0.
\<close>

definition ex_or :: "bool list expr" where
  "ex_or = BinaryExpr Or (ReadExpr \<lparr>array_addr = 1, array_name = ''v0'', array_size = 4, constantValues = []\<rparr> NoUpdate
      (ConstantExpr (bv 32 0))) (ConstantExpr (bv 8 3))"



definition ex_second :: "bool list expr" where
  "ex_second = BinaryExpr And ex_or (ConstantExpr (bv 8 1))"

lemma ex_second_sem: "sem (bv_ops False) \<sigma> ex_second = 1"
proof -
  have "(x OR 3) AND 1 = (1::int)" for x by (rule bit_eqI) (auto simp: bit_simps bit_1_iff)
  then show ?thesis by (simp add: ex_second_def ex_or_def bv_ops_def)
qed



section \<open>Properties\<close>


lemma ex_second_denotes: "denotes (bv_ops False) \<sigma> ex_second 8 1"
  using ex_second_sem [of \<sigma>]
  by (simp add: denotes_def) (simp add: ex_second_def ex_or_def width_ok_def wt_array_def bin_safe_def
      isConstantArray_def isSymbolicArray_def)








text \<open>
  C12.  \<open>getBaseOffsetFast\<close> recognises sums of a constant and a masked expression: base and offset add
  up to the address, and the offset is below the size reported, except that the mask 1 is reported
  with size 1 although the offset may be 1.
\<close>

theorem getBaseOffsetFast_correct:
  assumes "apint A" and "getBaseOffsetFast A e = Some (base, off, sz)" and "denotes A \<sigma> e w v"
  shows "\<exists>vo. denotes A \<sigma> off w vo \<and> v = take_bit w (int base + vo) \<and> vo < (if sz = 1 then 2 else int sz)"
  by (rule apint.getBaseOffsetFast_denotes [OF assms])

theorem getBaseOffsetFast_correct_witness:
  "\<exists>vo. denotes (bv_ops False) (\<lambda>_ _. 7) ex_second 8 vo \<and> 0x21 = take_bit 8 (0x20 + vo) \<and> vo < 2"
proof -
  let ?e = "BinaryExpr Add (ConstantExpr (bv 8 0x20)) ex_second"
  have g: "getBaseOffsetFast (bv_ops False) ?e = Some (0x20, ex_second, 1)"
    by (simp add: getBaseOffsetFast_def ex_second_def maskToBits_def)
  have "denotes (bv_ops False) (\<lambda>_ _. 7) ?e 8 0x21"
    using ex_second_denotes [of "\<lambda>_ _. 7"] by (simp add: denotes_def bin_safe_def width_ok_def)
  from getBaseOffsetFast_correct [OF bv.apint_axioms g this] show ?thesis by simp
qed

end
