(* ===== verification/BitArray.thy ===== *)
theory BitArray
  imports Prelude
begin

text \<open>
  Bit arrays (\<open>klee/include/klee/util/BitArray.h\<close>) over 64-bit words, the representation of the
  masks of a memory object.

  The locale \<open>bit_array_ops\<close> is what a client of the class relies on; it is interpreted on the model's
  operations at the end.  A bit array abstracts to the list of its first \<open>m_bitcount\<close> bits
  (\<open>ba_list\<close>), and \<open>m_setbitcount\<close> counts the ones in that list.  The bits of the last word beyond
  \<open>m_bitcount\<close> are set by \<open>create(size, true)\<close>, which \<open>findFirstSet\<close> does not take into account.
\<close>

unbundle bit_operations_syntax

section \<open>Definitions\<close>

record bit_array =
  m_bits :: "64 word list"
  m_bitcount :: nat
  m_setbitcount :: nat

definition ba_words :: "nat \<Rightarrow> nat" where
  "ba_words bitcount = (bitcount + 63) div 64"

definition ba_create :: "nat \<Rightarrow> bool \<Rightarrow> bit_array" where
  "ba_create n val = \<lparr>m_bits = replicate (ba_words n) (if val then - 1 else 0),
     m_bitcount = n, m_setbitcount = (if val then n else 0)\<rparr>"

text \<open>The copy constructor.\<close>

definition ba_copy :: "bit_array \<Rightarrow> bit_array" where
  "ba_copy b = \<lparr>m_bits = take (ba_words (m_bitcount b)) (m_bits b), m_bitcount = m_bitcount b,
     m_setbitcount = m_setbitcount b\<rparr>"

definition ba_get :: "bit_array \<Rightarrow> nat \<Rightarrow> bool" where
  "ba_get b idx = (drop_bit (idx mod 64) (m_bits b ! (idx div 64)) AND 1 \<noteq> 0)"

definition ba_set :: "bit_array \<Rightarrow> nat \<Rightarrow> bit_array" where
  "ba_set b idx =
     (let b = (if \<not> ba_get b idx then b\<lparr>m_setbitcount := m_setbitcount b + 1\<rparr> else b) in
      b\<lparr>m_bits := (m_bits b)[idx div 64 := m_bits b ! (idx div 64) OR push_bit (idx mod 64) 1]\<rparr>)"

definition ba_unset :: "bit_array \<Rightarrow> nat \<Rightarrow> bit_array" where
  "ba_unset b idx =
     (let b = (if ba_get b idx then b\<lparr>m_setbitcount := m_setbitcount b - 1\<rparr> else b) in
      b\<lparr>m_bits := (m_bits b)[idx div 64 := m_bits b ! (idx div 64) AND NOT (push_bit (idx mod 64) 1)]\<rparr>)"

definition ba_set_value :: "bit_array \<Rightarrow> nat \<Rightarrow> bool \<Rightarrow> bit_array" where
  "ba_set_value b idx val = (if val then ba_set b idx else ba_unset b idx)"

definition ba_isAllZeros :: "bit_array \<Rightarrow> bool" where
  "ba_isAllZeros b = (m_setbitcount b = 0)"

definition ba_isAllOnes :: "bit_array \<Rightarrow> bool" where
  "ba_isAllOnes b = (m_setbitcount b = m_bitcount b)"




section \<open>The interface\<close>

text \<open>What the clients rely on: \<open>get\<close> after \<open>set\<close> and \<open>unset\<close>, and the test for all ones.\<close>

locale bit_array_ops =
  fixes valid :: "'b \<Rightarrow> bool" and bits :: "'b \<Rightarrow> nat" and get :: "'b \<Rightarrow> nat \<Rightarrow> bool"
    and create :: "nat \<Rightarrow> bool \<Rightarrow> 'b" and set_bit_at :: "'b \<Rightarrow> nat \<Rightarrow> 'b" and unset_bit_at :: "'b \<Rightarrow> nat \<Rightarrow> 'b"
    and all_ones :: "'b \<Rightarrow> bool"
  assumes create_valid: "valid (create n v)"
    and create_bits: "bits (create n v) = n"
    and create_get: "i < n \<Longrightarrow> get (create n v) i = v"
    and set_valid: "valid b \<Longrightarrow> i < bits b \<Longrightarrow> valid (set_bit_at b i)"
    and unset_valid: "valid b \<Longrightarrow> i < bits b \<Longrightarrow> valid (unset_bit_at b i)"
    and set_bits: "bits (set_bit_at b i) = bits b"
    and unset_bits: "bits (unset_bit_at b i) = bits b"
    and set_get: "valid b \<Longrightarrow> i < bits b \<Longrightarrow> j < bits b \<Longrightarrow> get (set_bit_at b i) j \<longleftrightarrow> j = i \<or> get b j"
    and unset_get: "valid b \<Longrightarrow> i < bits b \<Longrightarrow> j < bits b \<Longrightarrow> get (unset_bit_at b i) j \<longleftrightarrow> j \<noteq> i \<and> get b j"
    and all_ones: "valid b \<Longrightarrow> all_ones b \<longleftrightarrow> (\<forall>i < bits b. get b i)"
begin

lemma set_unset: "valid b \<Longrightarrow> i < bits b \<Longrightarrow> j < bits b \<Longrightarrow> get (unset_bit_at (set_bit_at b i) i) j \<longleftrightarrow> j \<noteq> i \<and> get b j"
  by (auto simp: set_valid set_bits unset_get set_get)

lemma unset_not_all_ones: "valid b \<Longrightarrow> i < bits b \<Longrightarrow> \<not> all_ones (unset_bit_at b i)"
  by (auto simp: all_ones unset_valid unset_bits unset_get)

lemma create_all_ones: "all_ones (create n True)"
  by (simp add: all_ones create_valid create_bits create_get)

end

section \<open>The list a bit array stands for\<close>

definition ba_list :: "bit_array \<Rightarrow> bool list" where
  "ba_list b = map (ba_get b) [0..<m_bitcount b]"

definition ba_ok :: "bit_array \<Rightarrow> bool" where
  "ba_ok b \<longleftrightarrow> length (m_bits b) = ba_words (m_bitcount b) \<and> m_setbitcount b = count_list (ba_list b) True"

lemma ba_get_bit: "ba_get b i \<longleftrightarrow> bit (m_bits b ! (i div 64)) (i mod 64)"
  by (simp add: ba_get_def bit_iff_odd_drop_bit and_one_eq odd_iff_mod_2_eq_one)

lemma m_bitcount_simps [simp]:
  "m_bitcount (ba_create n v) = n" "m_bitcount (ba_set b i) = m_bitcount b" "m_bitcount (ba_unset b i) = m_bitcount b"
  by (simp_all add: ba_create_def ba_set_def ba_unset_def Let_def)

lemma word_index: "i < n \<Longrightarrow> i div 64 < ba_words n"
  by (simp add: ba_words_def)

lemma ba_get_create: "i < n \<Longrightarrow> ba_get (ba_create n v) i = v"
  using word_index [of i n] by (auto simp: ba_get_bit ba_create_def)

lemma same_word: "i div 64 = j div 64 \<Longrightarrow> i mod 64 = j mod 64 \<longleftrightarrow> i = (j::nat)"
  by (metis div_mult_mod_eq)

lemma ba_get_set:
  assumes "i div 64 < length (m_bits b)"
  shows "ba_get (ba_set b i) j \<longleftrightarrow> j = i \<or> ba_get b j"
  using assms same_word [of i j]
  by (cases "i div 64 = j div 64") (auto simp: ba_get_bit ba_set_def Let_def bit_simps nth_list_update)

lemma ba_get_unset:
  assumes "i div 64 < length (m_bits b)"
  shows "ba_get (ba_unset b i) j \<longleftrightarrow> j \<noteq> i \<and> ba_get b j"
  using assms same_word [of i j]
  by (cases "i div 64 = j div 64") (auto simp: ba_get_bit ba_unset_def Let_def bit_simps nth_list_update)

lemma count_list_update:
  "i < length xs \<Longrightarrow> count_list (xs[i := v]) x + of_bool (xs ! i = x) = count_list xs x + of_bool (v = x)"
proof (induction xs arbitrary: i)
  case (Cons y xs)
  then show ?case by (cases i) fastforce+
qed simp

lemma ba_fields [simp]:
  "length (m_bits (ba_set b i)) = length (m_bits b)" "length (m_bits (ba_unset b i)) = length (m_bits b)"
  "m_setbitcount (ba_set b i) = m_setbitcount b + of_bool (\<not> ba_get b i)"
  "m_setbitcount (ba_unset b i) = m_setbitcount b - of_bool (ba_get b i)"
  by (simp_all add: ba_set_def ba_unset_def Let_def)

lemma ba_ok_word: "ba_ok b \<Longrightarrow> i < m_bitcount b \<Longrightarrow> i div 64 < length (m_bits b)"
  by (simp add: ba_ok_def word_index)

lemma ba_list_set: "ba_ok b \<Longrightarrow> i < m_bitcount b \<Longrightarrow> ba_list (ba_set b i) = (ba_list b)[i := True]"
  by (intro nth_equalityI) (auto simp: ba_list_def ba_ok_word ba_get_set nth_list_update)

lemma ba_list_unset: "ba_ok b \<Longrightarrow> i < m_bitcount b \<Longrightarrow> ba_list (ba_unset b i) = (ba_list b)[i := False]"
  by (intro nth_equalityI) (auto simp: ba_list_def ba_ok_word ba_get_unset nth_list_update)

lemma ba_list_nth: "i < m_bitcount b \<Longrightarrow> ba_list b ! i = ba_get b i" "length (ba_list b) = m_bitcount b"
  by (simp_all add: ba_list_def)

lemma ba_set_ok: "ba_ok b \<Longrightarrow> i < m_bitcount b \<Longrightarrow> ba_ok (ba_set b i)"
  using ba_list_set [of b i] count_list_update [of i "ba_list b" True True]
  by (auto simp: ba_ok_def ba_list_nth)

lemma ba_unset_ok: "ba_ok b \<Longrightarrow> i < m_bitcount b \<Longrightarrow> ba_ok (ba_unset b i)"
  using ba_list_unset [of b i] count_list_update [of i "ba_list b" False True]
  by (auto simp: ba_ok_def ba_list_nth)

lemma ba_create_ok: "ba_ok (ba_create n v)"
proof -
  have "ba_list (ba_create n v) = replicate n v"
    by (intro nth_equalityI) (auto simp: ba_list_def ba_get_create)
  moreover have "count_list (replicate n v) True = (if v then n else 0)"
    by (induction n) auto
  ultimately show ?thesis by (simp add: ba_ok_def) (simp add: ba_create_def)
qed

lemma count_list_all: "count_list xs True = length xs \<longleftrightarrow> (\<forall>i < length xs. xs ! i)"
proof (induction xs)
  case (Cons x xs)
  have "count_list xs True \<le> length xs" by (rule count_le_length)
  with Cons show ?case by (cases x) (auto simp: nth_Cons split: nat.splits)
qed simp

lemma ba_isAllOnes_iff: "ba_ok b \<Longrightarrow> ba_isAllOnes b \<longleftrightarrow> (\<forall>i < m_bitcount b. ba_get b i)"
  using count_list_all [of "ba_list b"] by (simp add: ba_isAllOnes_def ba_ok_def) (simp add: ba_list_def)

lemma ba_copy_eq: "ba_ok b \<Longrightarrow> ba_copy b = b"
  by (simp add: ba_copy_def ba_ok_def)

interpretation ba: bit_array_ops ba_ok m_bitcount ba_get ba_create ba_set ba_unset ba_isAllOnes
  by unfold_locales
    (auto simp: ba_create_ok ba_get_create ba_set_ok ba_unset_ok ba_isAllOnes_iff ba_get_set ba_get_unset ba_ok_word)

section \<open>Finding a set bit\<close>




lemma count_list_zero: "count_list xs True = 0 \<longleftrightarrow> (\<forall>i < length xs. \<not> xs ! i)"
  by (auto simp: count_list_0_iff in_set_conv_nth)

section \<open>Properties\<close>

text \<open>
  C14.  \<open>set\<close> and \<open>unset\<close> update the list of bits at one position, the number of set bits stays right, and
  \<open>isAllOnes\<close> and \<open>isAllZeros\<close> answer for that list.
\<close>

theorem bit_array_refines_list:
  assumes "ba_ok b" and "i < m_bitcount b"
  shows "ba_ok (ba_set_value b i v) \<and> ba_list (ba_set_value b i v) = (ba_list b)[i := v] \<and>
    ba_list b ! i = ba_get b i \<and> (ba_isAllOnes b \<longleftrightarrow> False \<notin> set (ba_list b)) \<and>
    (ba_isAllZeros b \<longleftrightarrow> True \<notin> set (ba_list b))"
  using assms ba_set_ok [OF assms] ba_unset_ok [OF assms] ba_list_set [OF assms] ba_list_unset [OF assms]
    ba_isAllOnes_iff [OF assms(1)] count_list_zero [of "ba_list b"]
  by (auto simp: ba_set_value_def ba_list_nth in_set_conv_nth ba_isAllZeros_def ba_ok_def)

theorem bit_array_refines_list_witness:
  "ba_list (ba_set_value (ba_create 3 False) 1 True) = [False, True, False]"
  using bit_array_refines_list [OF ba_create_ok, of 1 3 False True]
  by (simp add: ba_list_def ba_get_create upt_rec)




end
