(* ===== verification/ObjectState.thy ===== *)
theory ObjectState
  imports Expr_Read BitArray
begin

text \<open>
  \<open>ObjectState\<close> of \<open>klee/include/klee/Memory.h\<close> and \<open>klee/lib/Core/Memory.cpp\<close>: the bytes of one memory
  object, each of them concrete, a known symbolic expression, or the value of a read from the update list.

  A value \<open>None\<close> of an operation is a failed assertion, an \<open>abort()\<close>, or an access through a null pointer.
  Offsets and sizes are \<open>unsigned\<close>, sums of them are taken modulo \<open>2 ^ 32\<close>.  Buffers and masks are values: the
  parts made by \<open>split\<close> each have a copy of the buffer and the mask they share in the code, of which each
  part reads and writes its own range only.  A \<open>ReadExpr\<close> holds the updates that were in the list when it
  was created; in the code it refers to the list, which later writes to the object extend.
\<close>

section \<open>Data\<close>

text \<open>\<open>ConcreteBuffer\<close>: a block of bytes, cleared on creation.\<close>

definition buffer_create :: "nat \<Rightarrow> 8 word list" where
  "buffer_create sz = replicate sz 0"

definition buffer_copy :: "8 word list \<Rightarrow> 8 word list" where
  "buffer_copy b = take (length b) b"

text \<open>
  \<open>m_knownSymbolics\<close> is a vector of references that may be null.  \<open>m_updates\<close> is a reference that may be null
  to an update list, whose root may be null.  \<open>m_refCount\<close> and \<open>m_fixedBuffer\<close> only manage storage.
\<close>

record 'a object_state =
  m_concreteMask :: "bit_array option"
  m_copyOnWriteOwner :: nat
  m_address :: nat
  m_size :: nat
  m_name :: string
  m_fixed :: bool
  m_splittable :: bool
  m_readOnly :: bool
  m_notifyOnConcretenessChange :: bool
  m_isMemoryPage :: bool
  m_isSharedConcrete :: bool
  m_concreteBuffer :: "8 word list option"
  m_fastConcreteBuffer :: "8 word list"
  m_bufferOffset :: nat
  m_flushMask :: "bit_array option"
  m_knownSymbolics :: "'a expr option list"
  m_updates :: "('a array_obj option \<times> 'a update_node) option"

definition FAST_CONCRETE_BUFFER_SIZE :: nat where
  "FAST_CONCRETE_BUFFER_SIZE = 8"

text \<open>
  The environment of the class: the addresses at which new arrays are allocated, LLVM's \<open>utostr\<close>, and
  \<open>Context::isLittleEndian\<close>.
\<close>

record os_env =
  new_array :: "nat \<Rightarrow> nat"
  utostr :: "nat \<Rightarrow> string"
  isLittleEndian :: bool

text \<open>An object and the value of the static variable \<open>id\<close> of \<open>getUpdates\<close>, which reads may change.\<close>

type_synonym 'a os_state = "'a object_state \<times> nat"

section \<open>Creation\<close>

text \<open>The constructor and \<open>allocate\<close>; \<open>ptr\<close> is what \<open>new uint8_t[size]\<close> returns.\<close>

definition os_new :: "nat \<Rightarrow> nat \<Rightarrow> nat \<Rightarrow> bool \<Rightarrow> 'a object_state option" where
  "os_new ptr address sz fixed =
     (if \<not> fixed \<and> address \<noteq> 0 then None
      else Some \<lparr>m_concreteMask = None, m_copyOnWriteOwner = 0, m_address = (if fixed then address else ptr),
        m_size = to_u32 sz, m_name = [], m_fixed = fixed, m_splittable = False, m_readOnly = False,
        m_notifyOnConcretenessChange = False, m_isMemoryPage = False, m_isSharedConcrete = False,
        m_concreteBuffer = (if to_u32 sz > FAST_CONCRETE_BUFFER_SIZE then Some (buffer_create sz) else None),
        m_fastConcreteBuffer = replicate FAST_CONCRETE_BUFFER_SIZE 0, m_bufferOffset = 0, m_flushMask = None,
        m_knownSymbolics = [], m_updates = None\<rparr>)"

definition os_allocate :: "nat \<Rightarrow> nat \<Rightarrow> nat \<Rightarrow> bool \<Rightarrow> 'a object_state option option" where
  "os_allocate ptr address sz fixed =
     (if sz > 10 * 1024 * 1024 then Some None else map_option Some (os_new ptr address sz fixed))"

text \<open>The copy constructor, \<open>copy()\<close>, and \<open>copy\<close> with a given mask and buffer.\<close>

definition os_copy :: "'a object_state \<Rightarrow> 'a object_state option" where
  "os_copy os =
     (if m_readOnly os then None
      else Some (os\<lparr>m_concreteMask := map_option ba_copy (m_concreteMask os),
                    m_concreteBuffer := map_option buffer_copy (m_concreteBuffer os),
                    m_flushMask := map_option ba_copy (m_flushMask os)\<rparr>))"

definition os_copy_with :: "bit_array option \<Rightarrow> 8 word list option \<Rightarrow> 'a object_state \<Rightarrow> 'a object_state option" where
  "os_copy_with concreteMask concreteStore os =
     map_option (\<lambda>ret. ret\<lparr>m_concreteMask := concreteMask, m_concreteBuffer := concreteStore\<rparr>) (os_copy os)"

fun upd_length :: "'a update_node \<Rightarrow> nat" where
  "upd_length NoUpdate = 0"
| "upd_length (UpdateNode nxt ui uv) = 1 + upd_length nxt"

definition os_split :: "'a object_state \<Rightarrow> nat \<Rightarrow> nat \<Rightarrow> 'a object_state option" where
  "os_split os offset newSize =
     (if m_splittable os \<and> newSize \<le> m_size os \<and> to_u32 (offset + newSize) \<le> m_size os \<and> m_flushMask os = None \<and>
         (case m_updates os of None \<Rightarrow> True | Some (_, us) \<Rightarrow> upd_length us = 0) \<and> \<not> m_readOnly os \<and>
         m_size os > FAST_CONCRETE_BUFFER_SIZE
      then Some (os\<lparr>m_copyOnWriteOwner := 0, m_address := m_address os + offset, m_size := newSize,
             m_splittable := False, m_bufferOffset := offset,
             m_knownSymbolics := (if length (m_knownSymbolics os) > 0
                then map (\<lambda>i. m_knownSymbolics os ! to_u32 (i + offset)) [0..<newSize] else []),
             m_updates := None\<rparr>)
      else None)"

section \<open>Masks, buffers and known symbolic bytes\<close>

definition initializeConcreteMask :: "'a object_state \<Rightarrow> 'a object_state" where
  "initializeConcreteMask os =
     (if m_concreteMask os = None then os\<lparr>m_concreteMask := Some (ba_create (m_size os) True)\<rparr> else os)"

definition isByteConcrete :: "'a object_state \<Rightarrow> nat \<Rightarrow> bool" where
  "isByteConcrete os offset =
     (case m_concreteMask os of None \<Rightarrow> True | Some m \<Rightarrow> ba_get m (m_bufferOffset os + offset))"

definition isByteFlushed :: "'a object_state \<Rightarrow> nat \<Rightarrow> bool" where
  "isByteFlushed os offset = (case m_flushMask os of None \<Rightarrow> False | Some m \<Rightarrow> \<not> ba_get m offset)"

definition isByteKnownSymbolic :: "'a object_state \<Rightarrow> nat \<Rightarrow> bool" where
  "isByteKnownSymbolic os offset \<longleftrightarrow> length (m_knownSymbolics os) > 0 \<and> m_knownSymbolics os ! offset \<noteq> None"

definition isAllConcrete :: "'a object_state \<Rightarrow> bool" where
  "isAllConcrete os = (case m_concreteMask os of None \<Rightarrow> True | Some m \<Rightarrow> ba_isAllOnes m)"

definition os_isConcrete :: "'a object_state \<Rightarrow> nat \<Rightarrow> nat \<Rightarrow> bool" where
  "os_isConcrete os offset width =
     (if m_concreteMask os = None then True
      else list_all (\<lambda>i. isByteConcrete os (offset + i)) [0..<(width + 7) div 8])"

definition getBitArraySize :: "'a object_state \<Rightarrow> nat" where
  "getBitArraySize os = (case m_concreteMask os of None \<Rightarrow> m_size os | Some m \<Rightarrow> m_bitcount m)"

text \<open>
  \<open>getConcreteBuffer\<close>: the bytes from the returned pointer on; \<open>None\<close> is a failed assertion or a null
  buffer, \<open>Some None\<close> the null pointer it returns for objects that are not concrete.  \<open>os_byte\<close> and \<open>os_store\<close>
  are the accesses \<open>getConcreteBuffer(true)[offset]\<close>.
\<close>

definition getConcreteBuffer :: "'a object_state \<Rightarrow> bool \<Rightarrow> 8 word list option option" where
  "getConcreteBuffer os allowSymbolic =
     (if \<not> allowSymbolic \<and> \<not> isAllConcrete os then Some None
      else if m_size os \<le> FAST_CONCRETE_BUFFER_SIZE then
        if m_bufferOffset os = 0 then Some (Some (m_fastConcreteBuffer os)) else None
      else map_option (\<lambda>b. Some (drop (m_bufferOffset os) b)) (m_concreteBuffer os))"

definition os_byte :: "'a object_state \<Rightarrow> nat \<Rightarrow> 8 word option" where
  "os_byte os offset =
     (case getConcreteBuffer os True of Some (Some b) \<Rightarrow> Some (b ! offset) | _ \<Rightarrow> None)"

definition os_store :: "'a object_state \<Rightarrow> nat \<Rightarrow> 8 word \<Rightarrow> 'a object_state option" where
  "os_store os offset v =
     (if m_size os \<le> FAST_CONCRETE_BUFFER_SIZE then
        if m_bufferOffset os = 0 then Some (os\<lparr>m_fastConcreteBuffer := (m_fastConcreteBuffer os)[offset := v]\<rparr>) else None
      else map_option (\<lambda>b. os\<lparr>m_concreteBuffer := Some (b[m_bufferOffset os + offset := v])\<rparr>) (m_concreteBuffer os))"

definition markByteConcrete :: "'a object_state \<Rightarrow> nat \<Rightarrow> 'a object_state" where
  "markByteConcrete os offset =
     os\<lparr>m_concreteMask := map_option (\<lambda>m. ba_set m (m_bufferOffset os + offset)) (m_concreteMask os)\<rparr>"

definition markByteSymbolic :: "'a object_state \<Rightarrow> nat \<Rightarrow> 'a object_state" where
  "markByteSymbolic os offset =
     (let m = (case m_concreteMask os of None \<Rightarrow> ba_create (m_size os) True | Some m \<Rightarrow> m) in
      os\<lparr>m_concreteMask := Some (ba_unset m (m_bufferOffset os + offset))\<rparr>)"

definition markByteFlushed :: "'a object_state \<Rightarrow> nat \<Rightarrow> 'a object_state" where
  "markByteFlushed os offset =
     os\<lparr>m_flushMask := Some (case m_flushMask os of None \<Rightarrow> ba_create (m_size os) False | Some m \<Rightarrow> ba_unset m offset)\<rparr>"

definition markByteUnflushed :: "'a object_state \<Rightarrow> nat \<Rightarrow> 'a object_state" where
  "markByteUnflushed os offset = os\<lparr>m_flushMask := map_option (\<lambda>m. ba_set m offset) (m_flushMask os)\<rparr>"

definition setKnownSymbolic :: "'a object_state \<Rightarrow> nat \<Rightarrow> 'a expr option \<Rightarrow> 'a object_state" where
  "setKnownSymbolic os offset val =
     (if length (m_knownSymbolics os) > 0 then os\<lparr>m_knownSymbolics := (m_knownSymbolics os)[offset := val]\<rparr>
      else if val \<noteq> None then os\<lparr>m_knownSymbolics := (replicate (m_size os) None)[offset := val]\<rparr>
      else os)"

section \<open>The update list\<close>

text \<open>\<open>new UpdateNode\<close>, with its assertion, and the writes of an update list, oldest first.\<close>

definition UpdateNode_create :: "'a ops \<Rightarrow> 'a update_node \<Rightarrow> 'a expr \<Rightarrow> 'a expr \<Rightarrow> 'a update_node option" where
  "UpdateNode_create A nxt index val = (if getWidth A val = 8 then Some (UpdateNode nxt index val) else None)"

fun update_writes :: "'a update_node \<Rightarrow> ('a expr \<times> 'a expr) list" where
  "update_writes NoUpdate = []"
| "update_writes (UpdateNode nxt ui uv) = update_writes nxt @ [(ui, uv)]"

fun pull_writes :: "'a ops \<Rightarrow> 'a list \<Rightarrow> ('a expr \<times> 'a expr) list \<Rightarrow> 'a list \<times> ('a expr \<times> 'a expr) list" where
  "pull_writes A Contents [] = (Contents, [])"
| "pull_writes A Contents ((i, v) # ws) =
     (case (dyn_cast_Constant i, dyn_cast_Constant v) of
        (Some Index, Some Value) \<Rightarrow> pull_writes A (Contents[ap_getZExtValue A Index := Value]) ws
      | _ \<Rightarrow> (Contents, (i, v) # ws))"

text \<open>
  \<open>getUpdates\<close>: the update list of the object, created on the first use over a constant array of zeros.
\<close>

definition getUpdates :: "'a ops \<Rightarrow> os_env \<Rightarrow> 'a os_state \<Rightarrow> (('a array_obj \<times> 'a update_node) \<times> 'a os_state) option" where
  "getUpdates A env s =
     (let (os, n) = s; (root, head) = (case m_updates os of None \<Rightarrow> (None, NoUpdate) | Some u \<Rightarrow> u) in
      case root of
        Some r \<Rightarrow> Some ((r, head), os, n)
      | None \<Rightarrow>
          (let (Contents, rest) = pull_writes A (replicate (m_size os) (ap_of A 8 0)) (update_writes head);
               array = \<lparr>array_addr = new_array env (to_u32 (n + 1)), array_name = ''const_arr'' @ utostr env (to_u32 (n + 1)),
                 array_size = m_size os, constantValues = Contents\<rparr>
           in do {
             us \<leftarrow> foldM (\<lambda>us (i, v). UpdateNode_create A us i v) NoUpdate rest;
             Some ((array, us), os\<lparr>m_updates := Some (Some array, us)\<rparr>, to_u32 (n + 1))
           }))"

text \<open>\<open>getUpdates()->extend(index, value)\<close>.\<close>

definition extendUpdates :: "'a ops \<Rightarrow> os_env \<Rightarrow> 'a os_state \<Rightarrow> 'a expr \<Rightarrow> 'a expr \<Rightarrow> 'a os_state option" where
  "extendUpdates A env s index val =
     do {
       ((r, us), os, n) \<leftarrow> getUpdates A env s;
       us \<leftarrow> UpdateNode_create A us index val;
       Some (os\<lparr>m_updates := Some (Some r, us)\<rparr>, n)
     }"

definition fastRangeCheckOffset :: "'a object_state \<Rightarrow> 'a expr \<Rightarrow> nat \<times> nat" where
  "fastRangeCheckOffset os offset = (0, m_size os)"

text \<open>The first statement of the flush functions, and \<open>m_flushMask->unset(offset)\<close>.\<close>

definition initFlushMask :: "'a object_state \<Rightarrow> 'a object_state" where
  "initFlushMask os =
     (if m_flushMask os = None then os\<lparr>m_flushMask := Some (ba_create (m_size os) True)\<rparr> else os)"

definition unsetFlush :: "'a object_state \<Rightarrow> nat \<Rightarrow> 'a object_state" where
  "unsetFlush os offset = os\<lparr>m_flushMask := map_option (\<lambda>m. ba_unset m offset) (m_flushMask os)\<rparr>"

text \<open>
  The statements of a loop iteration that are the same in both flush functions: the value of an
  unflushed byte, and its write to the update list.
\<close>

definition unflushed_value :: "'a ops \<Rightarrow> 'a object_state \<Rightarrow> nat \<Rightarrow> 'a expr option" where
  "unflushed_value A os offset =
     (if isByteConcrete os offset then map_option (\<lambda>byte. ConstantExpr_alloc A (unat byte) 8) (os_byte os offset)
      else if isByteKnownSymbolic os offset then m_knownSymbolics os ! offset
      else None)"

definition flush_byte :: "'a ops \<Rightarrow> os_env \<Rightarrow> 'a os_state \<Rightarrow> nat \<Rightarrow> 'a os_state option" where
  "flush_byte A env s offset =
     do {
       val \<leftarrow> unflushed_value A (fst s) offset;
       extendUpdates A env s (ConstantExpr_alloc A offset 32) val
     }"

definition flush_read_byte :: "'a ops \<Rightarrow> os_env \<Rightarrow> 'a os_state \<Rightarrow> nat \<Rightarrow> 'a os_state option" where
  "flush_read_byte A env s offset =
     (if \<not> isByteFlushed (fst s) offset then do {
        (os, n) \<leftarrow> flush_byte A env s offset;
        Some (unsetFlush os offset, n)
      } else Some s)"

definition flushRangeForRead :: "'a ops \<Rightarrow> os_env \<Rightarrow> 'a os_state \<Rightarrow> nat \<Rightarrow> nat \<Rightarrow> 'a os_state option" where
  "flushRangeForRead A env s rangeBase rangeSize =
     foldM (flush_read_byte A env) (initFlushMask (fst s), snd s) [rangeBase..<to_u32 (rangeBase + rangeSize)]"

definition flush_write_byte :: "'a ops \<Rightarrow> os_env \<Rightarrow> 'a os_state \<Rightarrow> nat \<Rightarrow> 'a os_state option" where
  "flush_write_byte A env s offset =
     (if \<not> isByteFlushed (fst s) offset then do {
        (os, n) \<leftarrow> flush_byte A env s offset;
        let os = (if isByteConcrete (fst s) offset then markByteSymbolic os offset else setKnownSymbolic os offset None);
        Some (unsetFlush os offset, n)
      }
      else if isByteConcrete (fst s) offset then Some (markByteSymbolic (fst s) offset, snd s)
      else if isByteKnownSymbolic (fst s) offset then Some (setKnownSymbolic (fst s) offset None, snd s)
      else Some s)"

definition flushRangeForWrite :: "'a ops \<Rightarrow> os_env \<Rightarrow> 'a os_state \<Rightarrow> nat \<Rightarrow> nat \<Rightarrow> 'a os_state option" where
  "flushRangeForWrite A env s rangeBase rangeSize =
     foldM (flush_write_byte A env) (initFlushMask (fst s), snd s) [rangeBase..<to_u32 (rangeBase + rangeSize)]"

section \<open>Reads\<close>

text \<open>
  \<open>mem\<close> is the memory of the process, which objects that are shared concrete live in.  Reads return the
  state as well, since the update list is created on demand.
\<close>

definition read8 :: "'a ops \<Rightarrow> os_env \<Rightarrow> (nat \<Rightarrow> 8 word) \<Rightarrow> 'a os_state \<Rightarrow> nat \<Rightarrow> ('a expr \<times> 'a os_state) option" where
  "read8 A env mem s offset =
     (let os = fst s in
      if \<not> offset < m_size os then None
      else if \<not> m_isSharedConcrete os then
        if isByteConcrete os offset then map_option (\<lambda>byte. (ConstantExpr_alloc A (unat byte) 8, s)) (os_byte os offset)
        else if isByteKnownSymbolic os offset then map_option (\<lambda>e. (e, s)) (m_knownSymbolics os ! offset)
        else if isByteFlushed os offset then do {
          ((r, us), s) \<leftarrow> getUpdates A env s;
          Some (Read_create A r us (ConstantExpr_alloc A offset 32), s)
        }
        else None
      else Some (ConstantExpr_alloc A (unat (mem (m_address os + offset))) 8, s))"

definition read8_sym :: "'a ops \<Rightarrow> os_env \<Rightarrow> 'a os_state \<Rightarrow> 'a expr \<Rightarrow> ('a expr \<times> 'a os_state) option" where
  "read8_sym A env s offset =
     (if dyn_cast_Constant offset \<noteq> None \<or> m_isSharedConcrete (fst s) then None
      else let (base, sz) = fastRangeCheckOffset (fst s) offset in do {
        s \<leftarrow> flushRangeForRead A env s base sz;
        ((r, us), s) \<leftarrow> getUpdates A env s;
        Some (Read_create A r us (ZExt_create A offset 32), s)
      })"

text \<open>
  The loop of both \<open>read\<close> functions over the bytes: \<open>rd\<close> reads one byte.  \<open>Res\<close> starts as the null reference;
  concatenating that is a null dereference.
\<close>

fun read_loop :: "'a ops \<Rightarrow> os_env \<Rightarrow> ('s \<Rightarrow> nat \<Rightarrow> ('a expr \<times> 's) option) \<Rightarrow> nat \<Rightarrow> nat list \<Rightarrow> 'a expr option \<Rightarrow> 's \<Rightarrow>
    ('a expr option \<times> 's) option" where
  "read_loop A env rd NumBytes [] Res s = Some (Res, s)"
| "read_loop A env rd NumBytes (i # is) Res s =
     do {
       let idx = (if isLittleEndian env then i else NumBytes - i - 1);
       (Byte, s) \<leftarrow> rd s idx;
       Res \<leftarrow> (if idx \<noteq> 0 then map_option (Concat_create A Byte) Res else Some Byte);
       read_loop A env rd NumBytes is (Some Res) s
     }"

definition read_at :: "'a ops \<Rightarrow> os_env \<Rightarrow> (nat \<Rightarrow> 8 word) \<Rightarrow> 'a os_state \<Rightarrow> nat \<Rightarrow> nat \<Rightarrow>
    ('a expr option \<times> 'a os_state) option" where
  "read_at A env mem s offset width =
     (if width = 1 then map_option (\<lambda>(e, s). (Some (Extract_create A e 0 1), s)) (read8 A env mem s offset)
      else let NumBytes = width div 8 in
        if width \<noteq> NumBytes * 8 then None
        else read_loop A env (\<lambda>s idx. read8 A env mem s (to_u32 (offset + idx))) NumBytes [0..<NumBytes] None s)"

definition os_read :: "'a ops \<Rightarrow> os_env \<Rightarrow> (nat \<Rightarrow> 8 word) \<Rightarrow> 'a os_state \<Rightarrow> 'a expr \<Rightarrow> nat \<Rightarrow>
    ('a expr option \<times> 'a os_state) option" where
  "os_read A env mem s offset width =
     (let offset = ZExt_create A offset 32 in
      case dyn_cast_Constant offset of
        Some CE \<Rightarrow> read_at A env mem s (ap_getZExtValue A CE) width
      | None \<Rightarrow>
          if width = 1 then map_option (\<lambda>(e, s). (Some (Extract_create A e 0 1), s)) (read8_sym A env s offset)
          else let NumBytes = width div 8 in
            if width \<noteq> NumBytes * 8 then None
            else read_loop A env (\<lambda>s idx. read8_sym A env s (Bin_create A Add offset (ConstantExpr_alloc A idx 32)))
                   NumBytes [0..<NumBytes] None s)"

definition readConcrete8 :: "(nat \<Rightarrow> 8 word) \<Rightarrow> 'a object_state \<Rightarrow> nat \<Rightarrow> 8 word option option" where
  "readConcrete8 mem os offset =
     (if m_isSharedConcrete os then Some (Some (mem (m_address os + offset)))
      else if isByteConcrete os offset then map_option (\<lambda>b. Some (b ! (offset + m_bufferOffset os))) (m_concreteBuffer os)
      else Some None)"

section \<open>Writes\<close>

text \<open>Writes of a byte return the object and the memory of the process.\<close>

definition write_byte :: "'a object_state \<times> (nat \<Rightarrow> 8 word) \<Rightarrow> nat \<Rightarrow> 8 word \<Rightarrow> ('a object_state \<times> (nat \<Rightarrow> 8 word)) option" where
  "write_byte s offset val =
     (let (os, mem) = s in
      if \<not> offset < m_size os then None
      else if \<not> m_isSharedConcrete os then do {
        os \<leftarrow> os_store os offset val;
        Some (markByteUnflushed (markByteConcrete (setKnownSymbolic os offset None) offset) offset, mem)
      }
      else Some (os, mem(m_address os + offset := val)))"

text \<open>An iteration of the loop of \<open>write\<close> for symbolic values; \<open>ExtractExpr::create\<close> asserts that the extract is inside.\<close>

definition write_known :: "'a ops \<Rightarrow> 'a object_state \<Rightarrow> nat \<Rightarrow> 'a expr \<Rightarrow> nat \<Rightarrow> 'a object_state option" where
  "write_known A os offset val i =
     (if 8 * i + 8 \<le> getWidth A val then
        (let value8 = Extract_create A val (8 * i) 8 in
         Some (markByteUnflushed (markByteSymbolic (setKnownSymbolic os offset (Some value8)) offset) offset))
      else None)"

definition write_at :: "'a ops \<Rightarrow> os_env \<Rightarrow> 'a object_state \<times> (nat \<Rightarrow> 8 word) \<Rightarrow> nat \<Rightarrow> 'a expr \<Rightarrow>
    ('a object_state \<times> (nat \<Rightarrow> 8 word)) option" where
  "write_at A env s offset val =
     (let (os, mem) = s; sz = (getWidth A val + 7) div 8; idx = (\<lambda>i. if isLittleEndian env then i else sz - i - 1) in
      if to_u32 (offset + sz) > m_size os then None
      else case dyn_cast_Constant val of
        Some CE \<Rightarrow>
          if getBitWidth A CE > 64 then None
          else foldM (\<lambda>s i. write_byte s (to_u32 (offset + idx i)) (word_of_nat (drop_bit (8 * i) (ap_getZExtValue A CE))))
                 s [0..<sz]
      | None \<Rightarrow>
          if m_isSharedConcrete os then None
          else map_option (\<lambda>os. (os, mem))
                 (foldM (\<lambda>os i. write_known A os (to_u32 (offset + idx i)) val i) os [0..<sz]))"

definition write8_sym :: "'a ops \<Rightarrow> os_env \<Rightarrow> 'a os_state \<Rightarrow> 'a expr \<Rightarrow> 'a expr \<Rightarrow> 'a os_state option" where
  "write8_sym A env s offset val =
     (if dyn_cast_Constant offset \<noteq> None \<or> m_isSharedConcrete (fst s) then None
      else let (base, sz) = fastRangeCheckOffset (fst s) offset in do {
        s \<leftarrow> flushRangeForWrite A env s base sz;
        extendUpdates A env s (ZExt_create A offset 32) val
      })"

definition os_write :: "'a ops \<Rightarrow> os_env \<Rightarrow> (nat \<Rightarrow> 8 word) \<Rightarrow> 'a os_state \<Rightarrow> 'a expr \<Rightarrow> 'a expr \<Rightarrow>
    ('a os_state \<times> (nat \<Rightarrow> 8 word)) option" where
  "os_write A env mem s offset val =
     (let offset = ZExt_create A offset 32; w = getWidth A val in
      if w \<noteq> 8 \<and> w \<noteq> 1 then None
      else case dyn_cast_Constant offset of
        Some CE \<Rightarrow>
          map_option (\<lambda>(os, mem). ((os, snd s), mem)) (write_at A env (fst s, mem) (ap_getZExtValue A CE) val)
      | None \<Rightarrow>
          if w = 1 then map_option (\<lambda>s. (s, mem)) (write8_sym A env s offset (ZExt_create A val 8))
          else let NumBytes = w div 8 in
            if w \<noteq> NumBytes * 8 then None
            else map_option (\<lambda>s. (s, mem)) (foldM (\<lambda>s i. write8_sym A env s
                   (Bin_create A Add offset (ConstantExpr_alloc A (if isLittleEndian env then i else NumBytes - i - 1) 32))
                   (Extract_create A val (8 * i) 8)) s [0..<NumBytes]))"

section \<open>Keys and bounds checks\<close>

text \<open>\<open>ObjectKey\<close>; its order is the one of \<open>ObjectKeyLTS\<close>, in which overlapping objects are equivalent.\<close>

record object_key =
  key_address :: nat
  key_size :: nat

definition getKey :: "'a object_state \<Rightarrow> object_key" where
  "getKey os = \<lparr>key_address = m_address os, key_size = m_size os\<rparr>"

definition ObjectKey_lt :: "object_key \<Rightarrow> object_key \<Rightarrow> bool" where
  "ObjectKey_lt a b \<longleftrightarrow> to_u64 (key_address a + key_size a) \<le> key_address b"

text \<open>The expressions for addresses and offsets; \<open>pw\<close> is \<open>Context::getPointerWidth()\<close>.\<close>

definition getBaseExpr :: "'a ops \<Rightarrow> nat \<Rightarrow> 'a object_state \<Rightarrow> 'a expr" where
  "getBaseExpr A pw os = ConstantExpr_alloc A (m_address os) pw"

definition getSizeExpr :: "'a ops \<Rightarrow> nat \<Rightarrow> 'a object_state \<Rightarrow> 'a expr" where
  "getSizeExpr A pw os = ConstantExpr_alloc A (m_size os) pw"

definition getOffsetExpr :: "'a ops \<Rightarrow> nat \<Rightarrow> 'a object_state \<Rightarrow> 'a expr \<Rightarrow> 'a expr" where
  "getOffsetExpr A pw os pointer = Bin_create A Sub pointer (getBaseExpr A pw os)"

definition getBoundsCheckOffset :: "'a ops \<Rightarrow> nat \<Rightarrow> 'a object_state \<Rightarrow> 'a expr \<Rightarrow> 'a expr" where
  "getBoundsCheckOffset A pw os offset =
     (if m_size os = 0 then Bin_create A Eq offset (ConstantExpr_alloc A 0 pw)
      else Bin_create A Ult offset (getSizeExpr A pw os))"

definition getBoundsCheckOffset_bytes :: "'a ops \<Rightarrow> nat \<Rightarrow> 'a object_state \<Rightarrow> 'a expr \<Rightarrow> nat \<Rightarrow> 'a expr" where
  "getBoundsCheckOffset_bytes A pw os offset bytes =
     (if bytes \<le> m_size os then Bin_create A Ult offset (ConstantExpr_alloc A (to_u32 (m_size os - bytes + 1)) pw)
      else ConstantExpr_alloc A 0 1)"

definition getBoundsCheckPointer :: "'a ops \<Rightarrow> nat \<Rightarrow> 'a object_state \<Rightarrow> 'a expr \<Rightarrow> 'a expr" where
  "getBoundsCheckPointer A pw os pointer = getBoundsCheckOffset A pw os (getOffsetExpr A pw os pointer)"

definition getBoundsCheckPointer_bytes :: "'a ops \<Rightarrow> nat \<Rightarrow> 'a object_state \<Rightarrow> 'a expr \<Rightarrow> nat \<Rightarrow> 'a expr" where
  "getBoundsCheckPointer_bytes A pw os pointer bytes =
     getBoundsCheckOffset_bytes A pw os (getOffsetExpr A pw os pointer) bytes"

end
