(* ===== verification/ObjectState_Sound.thy ===== *)
theory ObjectState_Sound
  imports ObjectState
begin

text \<open>
  The invariant of \<open>ObjectState\<close> and what its operations do to the bytes of the object.

  \<open>os_val\<close> is the value of each byte.  \<open>os_ok\<close> is the invariant: the comment \<open>Cache Invariants\<close> of the code
  and the consistency of the caches with the update list.  \<open>os_step\<close> says that an operation keeps the
  invariant and what the bytes are afterwards.  Under the invariant no assertion fails, reads return the
  bytes and writes update them.
\<close>

section \<open>The bytes of an object\<close>

text \<open>
  The expression known for a byte, the value of a byte in the update list, and the value of a byte.
\<close>

definition known_at :: "'a object_state \<Rightarrow> nat \<Rightarrow> 'a expr option" where
  "known_at os i = (if m_knownSymbolics os = [] then None else m_knownSymbolics os ! i)"

definition list_val :: "'a ops \<Rightarrow> ('a array_obj \<Rightarrow> nat \<Rightarrow> int) \<Rightarrow> 'a object_state \<Rightarrow> nat \<Rightarrow> int" where
  "list_val A \<sigma> os i =
     (case m_updates os of Some (Some r, us) \<Rightarrow> sem_read A \<sigma> us (int i) (array_value A \<sigma> r (int i)) | _ \<Rightarrow> 0)"

definition os_val :: "'a ops \<Rightarrow> ('a array_obj \<Rightarrow> nat \<Rightarrow> int) \<Rightarrow> 'a object_state \<Rightarrow> nat \<Rightarrow> int" where
  "os_val A \<sigma> os i =
     (if isByteConcrete os i then uint (the (os_byte os i))
      else case known_at os i of Some e \<Rightarrow> sem A \<sigma> e | None \<Rightarrow> list_val A \<sigma> os i)"

text \<open>
  The shape of an object: sizes of buffers and masks, typing of the expressions.
\<close>

definition buffers_wf :: "'a object_state \<Rightarrow> bool" where
  "buffers_wf os \<longleftrightarrow> 0 < m_size os \<and> m_size os < 2 ^ 32 \<and>
     (if m_size os \<le> 8 then m_bufferOffset os = 0 \<and> length (m_fastConcreteBuffer os) = 8
      else case m_concreteBuffer os of None \<Rightarrow> False | Some b \<Rightarrow> m_bufferOffset os + m_size os \<le> length b)"

definition masks_wf :: "'a object_state \<Rightarrow> bool" where
  "masks_wf os \<longleftrightarrow>
     (case m_concreteMask os of None \<Rightarrow> m_bufferOffset os = 0
      | Some m \<Rightarrow> ba_ok m \<and> m_bufferOffset os + m_size os \<le> m_bitcount m) \<and>
     (case m_flushMask os of None \<Rightarrow> True | Some m \<Rightarrow> ba_ok m \<and> m_bitcount m = m_size os)"

definition known_wf :: "'a ops \<Rightarrow> ('a array_obj \<Rightarrow> nat \<Rightarrow> int) \<Rightarrow> 'a object_state \<Rightarrow> bool" where
  "known_wf A \<sigma> os \<longleftrightarrow> (m_knownSymbolics os = [] \<or> length (m_knownSymbolics os) = m_size os) \<and>
     (\<forall>i < m_size os. case known_at os i of None \<Rightarrow> True | Some e \<Rightarrow> denotes A \<sigma> e 8 (sem A \<sigma> e))"

definition updates_wf :: "'a ops \<Rightarrow> ('a array_obj \<Rightarrow> nat \<Rightarrow> int) \<Rightarrow> 'a object_state \<Rightarrow> bool" where
  "updates_wf A \<sigma> os \<longleftrightarrow>
     (case m_updates os of
        None \<Rightarrow> True
      | Some (None, us) \<Rightarrow> us = NoUpdate
      | Some (Some r, us) \<Rightarrow> wt_array A r \<and> array_size r = m_size os \<and> wt_upd A us \<and> safe_upd A \<sigma> us)"

definition os_wf :: "'a ops \<Rightarrow> ('a array_obj \<Rightarrow> nat \<Rightarrow> int) \<Rightarrow> 'a object_state \<Rightarrow> bool" where
  "os_wf A \<sigma> os \<longleftrightarrow> buffers_wf os \<and> masks_wf os \<and> known_wf A \<sigma> os \<and> updates_wf A \<sigma> os \<and> \<not> m_isSharedConcrete os"

text \<open>
  The cache invariants: a known byte is not concrete, an unflushed byte is concrete or known, and the
  value of a flushed byte that is cached is its value in the update list.
\<close>

definition cache_wf :: "'a ops \<Rightarrow> ('a array_obj \<Rightarrow> nat \<Rightarrow> int) \<Rightarrow> 'a object_state \<Rightarrow> bool" where
  "cache_wf A \<sigma> os \<longleftrightarrow> (\<forall>i < m_size os.
     (isByteConcrete os i \<longrightarrow> known_at os i = None) \<and>
     (\<not> isByteFlushed os i \<longrightarrow> isByteConcrete os i \<or> known_at os i \<noteq> None) \<and>
     (isByteFlushed os i \<longrightarrow> list_val A \<sigma> os i = os_val A \<sigma> os i))"

text \<open>Once bytes have been flushed, the update list is not empty.\<close>

definition flush_wf :: "'a object_state \<Rightarrow> bool" where
  "flush_wf os \<longleftrightarrow> m_flushMask os = None \<or> (\<exists>r us. m_updates os = Some (Some r, us) \<and> us \<noteq> NoUpdate)"

definition os_ok :: "'a ops \<Rightarrow> ('a array_obj \<Rightarrow> nat \<Rightarrow> int) \<Rightarrow> 'a object_state \<Rightarrow> bool" where
  "os_ok A \<sigma> os \<longleftrightarrow> os_wf A \<sigma> os \<and> cache_wf A \<sigma> os \<and> flush_wf os"

lemma isByteKnownSymbolic_iff: "isByteKnownSymbolic os i \<longleftrightarrow> known_at os i \<noteq> None"
  by (simp add: isByteKnownSymbolic_def known_at_def)

lemma known_at_nth: "known_at os i = Some e \<Longrightarrow> m_knownSymbolics os ! i = Some e"
  by (simp add: known_at_def split: if_splits)

section \<open>The effect of the primitive operations on the bytes\<close>

text \<open>What each of them leaves alone.\<close>

lemmas view_defs = isByteConcrete_def isByteFlushed_def known_at_def os_byte_def getConcreteBuffer_def list_val_def
  buffers_wf_def masks_wf_def known_wf_def updates_wf_def flush_wf_def

lemma setKnownSymbolic_frame [simp]:
  "m_size (setKnownSymbolic os i v) = m_size os" "m_isSharedConcrete (setKnownSymbolic os i v) = m_isSharedConcrete os"
  "isByteConcrete (setKnownSymbolic os i v) j = isByteConcrete os j"
  "isByteFlushed (setKnownSymbolic os i v) j = isByteFlushed os j"
  "os_byte (setKnownSymbolic os i v) j = os_byte os j" "list_val A \<sigma> (setKnownSymbolic os i v) j = list_val A \<sigma> os j"
  "buffers_wf (setKnownSymbolic os i v) = buffers_wf os" "masks_wf (setKnownSymbolic os i v) = masks_wf os"
  "updates_wf A \<sigma> (setKnownSymbolic os i v) = updates_wf A \<sigma> os" "flush_wf (setKnownSymbolic os i v) = flush_wf os"
  "m_flushMask (setKnownSymbolic os i v) = m_flushMask os"
  by (simp_all add: setKnownSymbolic_def view_defs cong: option.case_cong prod.case_cong)

lemma markByteConcrete_frame [simp]:
  "m_size (markByteConcrete os i) = m_size os" "m_isSharedConcrete (markByteConcrete os i) = m_isSharedConcrete os"
  "known_at (markByteConcrete os i) j = known_at os j" "isByteFlushed (markByteConcrete os i) j = isByteFlushed os j"
  "os_byte (markByteConcrete os i) j = os_byte os j" "list_val A \<sigma> (markByteConcrete os i) j = list_val A \<sigma> os j"
  "buffers_wf (markByteConcrete os i) = buffers_wf os" "known_wf A \<sigma> (markByteConcrete os i) = known_wf A \<sigma> os"
  "updates_wf A \<sigma> (markByteConcrete os i) = updates_wf A \<sigma> os" "flush_wf (markByteConcrete os i) = flush_wf os"
  by (simp_all add: markByteConcrete_def view_defs cong: option.case_cong prod.case_cong)

lemma markByteSymbolic_frame [simp]:
  "m_size (markByteSymbolic os i) = m_size os" "m_isSharedConcrete (markByteSymbolic os i) = m_isSharedConcrete os"
  "known_at (markByteSymbolic os i) j = known_at os j" "isByteFlushed (markByteSymbolic os i) j = isByteFlushed os j"
  "os_byte (markByteSymbolic os i) j = os_byte os j" "list_val A \<sigma> (markByteSymbolic os i) j = list_val A \<sigma> os j"
  "buffers_wf (markByteSymbolic os i) = buffers_wf os" "known_wf A \<sigma> (markByteSymbolic os i) = known_wf A \<sigma> os"
  "updates_wf A \<sigma> (markByteSymbolic os i) = updates_wf A \<sigma> os" "flush_wf (markByteSymbolic os i) = flush_wf os"
  "m_flushMask (markByteSymbolic os i) = m_flushMask os"
  by (simp_all add: markByteSymbolic_def view_defs Let_def cong: option.case_cong prod.case_cong)

lemma markByteUnflushed_frame [simp]:
  "m_size (markByteUnflushed os i) = m_size os" "m_isSharedConcrete (markByteUnflushed os i) = m_isSharedConcrete os"
  "known_at (markByteUnflushed os i) j = known_at os j" "isByteConcrete (markByteUnflushed os i) j = isByteConcrete os j"
  "os_byte (markByteUnflushed os i) j = os_byte os j" "list_val A \<sigma> (markByteUnflushed os i) j = list_val A \<sigma> os j"
  "buffers_wf (markByteUnflushed os i) = buffers_wf os" "known_wf A \<sigma> (markByteUnflushed os i) = known_wf A \<sigma> os"
  "updates_wf A \<sigma> (markByteUnflushed os i) = updates_wf A \<sigma> os" "flush_wf (markByteUnflushed os i) = flush_wf os"
  by (simp_all add: markByteUnflushed_def view_defs cong: option.case_cong prod.case_cong)

lemma unsetFlush_frame [simp]:
  "m_size (unsetFlush os i) = m_size os" "m_isSharedConcrete (unsetFlush os i) = m_isSharedConcrete os"
  "known_at (unsetFlush os i) j = known_at os j" "isByteConcrete (unsetFlush os i) j = isByteConcrete os j"
  "os_byte (unsetFlush os i) j = os_byte os j" "list_val A \<sigma> (unsetFlush os i) j = list_val A \<sigma> os j"
  "buffers_wf (unsetFlush os i) = buffers_wf os" "known_wf A \<sigma> (unsetFlush os i) = known_wf A \<sigma> os"
  "updates_wf A \<sigma> (unsetFlush os i) = updates_wf A \<sigma> os" "m_updates (unsetFlush os i) = m_updates os"
  "m_flushMask (unsetFlush os i) = None \<longleftrightarrow> m_flushMask os = None"
  by (simp_all add: unsetFlush_def view_defs cong: option.case_cong prod.case_cong)

lemma initFlushMask_frame [simp]:
  "m_size (initFlushMask os) = m_size os" "m_isSharedConcrete (initFlushMask os) = m_isSharedConcrete os"
  "known_at (initFlushMask os) j = known_at os j" "isByteConcrete (initFlushMask os) j = isByteConcrete os j"
  "os_byte (initFlushMask os) j = os_byte os j" "list_val A \<sigma> (initFlushMask os) j = list_val A \<sigma> os j"
  "buffers_wf (initFlushMask os) = buffers_wf os" "known_wf A \<sigma> (initFlushMask os) = known_wf A \<sigma> os"
  "updates_wf A \<sigma> (initFlushMask os) = updates_wf A \<sigma> os" "m_updates (initFlushMask os) = m_updates os"
  by (simp_all add: initFlushMask_def view_defs cong: option.case_cong prod.case_cong)

lemma updates_frame [simp]:
  "isByteConcrete (os\<lparr>m_updates := u\<rparr>) j = isByteConcrete os j" "isByteFlushed (os\<lparr>m_updates := u\<rparr>) j = isByteFlushed os j"
  "known_at (os\<lparr>m_updates := u\<rparr>) j = known_at os j" "os_byte (os\<lparr>m_updates := u\<rparr>) j = os_byte os j"
  "buffers_wf (os\<lparr>m_updates := u\<rparr>) = buffers_wf os" "masks_wf (os\<lparr>m_updates := u\<rparr>) = masks_wf os"
  "known_wf A \<sigma> (os\<lparr>m_updates := u\<rparr>) = known_wf A \<sigma> os"
  by (simp_all add: view_defs cong: option.case_cong prod.case_cong)

lemma buffer_frame [simp]:
  "isByteConcrete (os\<lparr>m_fastConcreteBuffer := f, m_concreteBuffer := c\<rparr>) j = isByteConcrete os j"
  "isByteFlushed (os\<lparr>m_fastConcreteBuffer := f, m_concreteBuffer := c\<rparr>) j = isByteFlushed os j"
  "known_at (os\<lparr>m_fastConcreteBuffer := f, m_concreteBuffer := c\<rparr>) j = known_at os j"
  "list_val A \<sigma> (os\<lparr>m_fastConcreteBuffer := f, m_concreteBuffer := c\<rparr>) j = list_val A \<sigma> os j"
  "masks_wf (os\<lparr>m_fastConcreteBuffer := f, m_concreteBuffer := c\<rparr>) = masks_wf os"
  "known_wf A \<sigma> (os\<lparr>m_fastConcreteBuffer := f, m_concreteBuffer := c\<rparr>) = known_wf A \<sigma> os"
  "updates_wf A \<sigma> (os\<lparr>m_fastConcreteBuffer := f, m_concreteBuffer := c\<rparr>) = updates_wf A \<sigma> os"
  "flush_wf (os\<lparr>m_fastConcreteBuffer := f, m_concreteBuffer := c\<rparr>) = flush_wf os"
  by (simp_all add: view_defs cong: option.case_cong prod.case_cong)

text \<open>Storing a byte.\<close>

lemma os_byte_Some: "buffers_wf os \<Longrightarrow> \<exists>b. os_byte os i = Some b"
  by (auto simp: buffers_wf_def os_byte_def getConcreteBuffer_def FAST_CONCRETE_BUFFER_SIZE_def split: if_splits option.splits)

lemma os_store_Some:
  assumes "buffers_wf os" and "i < m_size os"
  shows "\<exists>os'. os_store os i v = Some os' \<and> buffers_wf os' \<and>
    (\<forall>j < m_size os. os_byte os' j = (if j = i then Some v else os_byte os j)) \<and>
    (\<exists>f c. os' = os\<lparr>m_fastConcreteBuffer := f, m_concreteBuffer := c\<rparr>)"
proof (cases "m_size os \<le> 8")
  case True
  then show ?thesis using assms
    by (auto simp: buffers_wf_def os_store_def os_byte_def getConcreteBuffer_def FAST_CONCRETE_BUFFER_SIZE_def nth_list_update
        intro!: exI [of _ "m_concreteBuffer os"] exI [of _ "(m_fastConcreteBuffer os)[i := v]"])
next
  case False
  then obtain b where "m_concreteBuffer os = Some b" "m_bufferOffset os + m_size os \<le> length b"
    using assms by (auto simp: buffers_wf_def split: option.splits)
  with False show ?thesis using assms
    by (auto simp: buffers_wf_def os_store_def os_byte_def getConcreteBuffer_def FAST_CONCRETE_BUFFER_SIZE_def nth_list_update
        intro!: exI [of _ "Some (b[m_bufferOffset os + i := v])"] exI [of _ "m_fastConcreteBuffer os"])
qed

text \<open>The masks.\<close>

lemma markByteConcrete_spec:
  assumes "masks_wf os" and "i < m_size os"
  shows "masks_wf (markByteConcrete os i) \<and> isByteConcrete (markByteConcrete os i) j = (j = i \<or> isByteConcrete os j)"
  using assms
  by (auto simp: masks_wf_def markByteConcrete_def isByteConcrete_def ba.set_valid ba.set_get ba_get_set ba_ok_word split: option.splits)

lemma markByteSymbolic_spec:
  assumes "masks_wf os" and "i < m_size os" and "j < m_size os"
  shows "masks_wf (markByteSymbolic os i) \<and> isByteConcrete (markByteSymbolic os i) j = (j \<noteq> i \<and> isByteConcrete os j)"
  using assms
  by (auto simp: masks_wf_def markByteSymbolic_def isByteConcrete_def Let_def ba.unset_valid ba.create_valid ba.create_get
      ba.unset_get ba.unset_bits ba.create_bits split: option.splits)

lemma markByteUnflushed_spec:
  assumes "masks_wf os" and "i < m_size os" and "j < m_size os"
  shows "masks_wf (markByteUnflushed os i) \<and> isByteFlushed (markByteUnflushed os i) j = (j \<noteq> i \<and> isByteFlushed os j)"
  using assms
  by (auto simp: masks_wf_def markByteUnflushed_def isByteFlushed_def ba.set_valid ba.set_get ba.set_bits split: option.splits)

lemma unsetFlush_spec:
  assumes "masks_wf os" and "i < m_size os" and "j < m_size os" and "m_flushMask os \<noteq> None"
  shows "masks_wf (unsetFlush os i) \<and> isByteFlushed (unsetFlush os i) j = (j = i \<or> isByteFlushed os j)"
  using assms
  by (auto simp: masks_wf_def unsetFlush_def isByteFlushed_def ba.unset_valid ba.unset_get ba.unset_bits split: option.splits)

lemma initFlushMask_spec:
  assumes "masks_wf os" and "j < m_size os"
  shows "masks_wf (initFlushMask os) \<and> isByteFlushed (initFlushMask os) j = isByteFlushed os j \<and>
    m_flushMask (initFlushMask os) \<noteq> None"
  using assms
  by (auto simp: masks_wf_def initFlushMask_def isByteFlushed_def ba.create_valid ba.create_get ba.create_bits split: option.splits)

text \<open>The known symbolic bytes.\<close>

lemma setKnownSymbolic_spec:
  assumes "known_wf A \<sigma> os" and "i < m_size os" and "\<And>e. val = Some e \<Longrightarrow> denotes A \<sigma> e 8 (sem A \<sigma> e)"
  shows "known_wf A \<sigma> (setKnownSymbolic os i val) \<and>
    (j < m_size os \<longrightarrow> known_at (setKnownSymbolic os i val) j = (if j = i then val else known_at os j))"
proof -
  have k: "known_at (setKnownSymbolic os i val) j = (if j = i then val else known_at os j)" if "j < m_size os" for j
    using assms(1,2) that by (auto simp: known_wf_def setKnownSymbolic_def known_at_def nth_list_update)
  have "m_size (setKnownSymbolic os i val) = m_size os" by (simp add: setKnownSymbolic_def)
  moreover have "m_knownSymbolics (setKnownSymbolic os i val) = [] \<or> length (m_knownSymbolics (setKnownSymbolic os i val)) = m_size os"
    using assms(1) by (auto simp: known_wf_def setKnownSymbolic_def)
  moreover have "case known_at (setKnownSymbolic os i val) j of None \<Rightarrow> True | Some e \<Rightarrow> denotes A \<sigma> e 8 (sem A \<sigma> e)"
    if "j < m_size os" for j
    using assms(1,3) that k [OF that] by (auto simp: known_wf_def split: option.splits if_splits)
  ultimately show ?thesis using k by (simp add: known_wf_def)
qed

text \<open>What no operation on bytes changes.\<close>

definition os_meta :: "'a object_state \<Rightarrow> nat \<times> nat \<times> nat \<times> nat \<times> bool \<times> bool \<times> bool" where
  "os_meta os = (m_address os, m_size os, m_bufferOffset os, m_copyOnWriteOwner os, m_splittable os, m_readOnly os,
     m_isSharedConcrete os)"

lemma os_meta_frame [simp]:
  "os_meta (setKnownSymbolic os i v) = os_meta os" "os_meta (markByteConcrete os i) = os_meta os"
  "os_meta (markByteSymbolic os i) = os_meta os" "os_meta (markByteUnflushed os i) = os_meta os"
  "os_meta (unsetFlush os i) = os_meta os" "os_meta (initFlushMask os) = os_meta os"
  "os_meta (os\<lparr>m_updates := u\<rparr>) = os_meta os" "os_meta (os\<lparr>m_fastConcreteBuffer := f, m_concreteBuffer := c\<rparr>) = os_meta os"
  by (simp_all add: os_meta_def setKnownSymbolic_def markByteConcrete_def markByteSymbolic_def markByteUnflushed_def
      unsetFlush_def initFlushMask_def Let_def)

lemma os_meta_size: "os_meta os' = os_meta os \<Longrightarrow> m_size os' = m_size os"
  by (simp add: os_meta_def)

text \<open>The step every operation makes: \<open>os'\<close> satisfies the invariant and has the byte values \<open>f\<close>.\<close>

definition os_step :: "'a ops \<Rightarrow> ('a array_obj \<Rightarrow> nat \<Rightarrow> int) \<Rightarrow> 'a object_state \<Rightarrow> (nat \<Rightarrow> int) \<Rightarrow> 'a object_state \<Rightarrow> bool" where
  "os_step A \<sigma> os f os' \<longleftrightarrow> os_ok A \<sigma> os' \<and> os_meta os' = os_meta os \<and> (\<forall>j < m_size os. os_val A \<sigma> os' j = f j)"

lemma os_step_size: "os_step A \<sigma> os f os' \<Longrightarrow> m_size os' = m_size os"
  unfolding os_step_def using os_meta_size by blast

lemma os_step_trans:
  assumes "os_step A \<sigma> os f os'" and "os_step A \<sigma> os' g os''" and "\<And>j. j < m_size os \<Longrightarrow> g j = h j"
  shows "os_step A \<sigma> os h os''"
proof -
  have "m_size os' = m_size os" by (rule os_step_size [OF assms(1)])
  then show ?thesis using assms unfolding os_step_def by simp
qed

lemma os_val_Some: "known_at os i = Some e \<Longrightarrow> \<not> isByteConcrete os i \<Longrightarrow> os_val A \<sigma> os i = sem A \<sigma> e"
  by (simp add: os_val_def)

lemma os_ok_cache: "os_ok A \<sigma> os \<Longrightarrow> j < m_size os \<Longrightarrow>
   (isByteConcrete os j \<longrightarrow> known_at os j = None) \<and>
   (\<not> isByteFlushed os j \<longrightarrow> isByteConcrete os j \<or> known_at os j \<noteq> None) \<and>
   (isByteFlushed os j \<longrightarrow> list_val A \<sigma> os j = os_val A \<sigma> os j)"
  by (simp add: os_ok_def cache_wf_def)

text \<open>Writing a concrete byte.\<close>

lemma write_byte_step:
  assumes ok: "os_ok A \<sigma> os" and i: "i < m_size os"
  shows "\<exists>os'. write_byte (os, mem) i v = Some (os', mem) \<and>
    os_step A \<sigma> os (\<lambda>j. if j = i then uint v else os_val A \<sigma> os j) os'"
proof -
  have wf: "buffers_wf os" "masks_wf os" "known_wf A \<sigma> os" "updates_wf A \<sigma> os" "\<not> m_isSharedConcrete os" "flush_wf os"
    using ok by (auto simp: os_ok_def os_wf_def)
  obtain f c where s: "os_store os i v = Some (os\<lparr>m_fastConcreteBuffer := f, m_concreteBuffer := c\<rparr>)"
    and b: "buffers_wf (os\<lparr>m_fastConcreteBuffer := f, m_concreteBuffer := c\<rparr>)"
    and byte: "\<And>j. j < m_size os \<Longrightarrow> os_byte (os\<lparr>m_fastConcreteBuffer := f, m_concreteBuffer := c\<rparr>) j = (if j = i then Some v else os_byte os j)"
    using os_store_Some [OF wf(1) i, of v] by blast
  let ?o = "os\<lparr>m_fastConcreteBuffer := f, m_concreteBuffer := c\<rparr>"
  let ?o1 = "setKnownSymbolic ?o i None" let ?o2 = "markByteConcrete ?o1 i" let ?o3 = "markByteUnflushed ?o2 i"
  have i': "i < m_size ?o" using i by simp
  have kw: "known_wf A \<sigma> ?o" using wf(3) by simp
  have k: "known_wf A \<sigma> ?o1" "\<And>j. j < m_size os \<Longrightarrow> known_at ?o1 j = (if j = i then None else known_at os j)"
    using setKnownSymbolic_spec [OF kw i', of None] by simp_all
  have mw: "masks_wf ?o1" using wf(2) by simp
  have m: "masks_wf ?o2" "\<And>j. isByteConcrete ?o2 j = (j = i \<or> isByteConcrete os j)"
    using markByteConcrete_spec [OF mw, of i] i by simp_all
  have u: "masks_wf ?o3" "\<And>j. j < m_size os \<Longrightarrow> isByteFlushed ?o3 j = (j \<noteq> i \<and> isByteFlushed os j)"
    using markByteUnflushed_spec [OF m(1), of i] i by simp_all
  have val: "os_val A \<sigma> ?o3 j = (if j = i then uint v else os_val A \<sigma> os j)" if "j < m_size os" for j
    using that by (simp add: os_val_def m byte k cong: option.case_cong)
  have "cache_wf A \<sigma> ?o3"
    unfolding cache_wf_def
  proof (intro allI impI)
    fix j assume "j < m_size ?o3"
    then have j: "j < m_size os" by simp
    show "(isByteConcrete ?o3 j \<longrightarrow> known_at ?o3 j = None) \<and>
      (\<not> isByteFlushed ?o3 j \<longrightarrow> isByteConcrete ?o3 j \<or> known_at ?o3 j \<noteq> None) \<and>
      (isByteFlushed ?o3 j \<longrightarrow> list_val A \<sigma> ?o3 j = os_val A \<sigma> ?o3 j)"
      using os_ok_cache [OF ok j] by (cases "j = i") (simp_all add: i j val u m k)
  qed
  then have "os_ok A \<sigma> ?o3" using wf b u(1) k(1) by (simp add: os_ok_def os_wf_def)
  then show ?thesis using s i wf(5) val by (simp add: write_byte_def os_step_def)
qed

text \<open>Writing a symbolic byte at a constant offset.\<close>

lemma write_known_step:
  assumes ok: "os_ok A \<sigma> os" and i: "i < m_size os" and e: "denotes A \<sigma> e 8 v"
  shows "os_step A \<sigma> os (\<lambda>j. if j = i then v else os_val A \<sigma> os j)
    (markByteUnflushed (markByteSymbolic (setKnownSymbolic os i (Some e)) i) i)"
proof -
  have wf: "buffers_wf os" "masks_wf os" "known_wf A \<sigma> os" "updates_wf A \<sigma> os" "\<not> m_isSharedConcrete os" "flush_wf os"
    using ok by (auto simp: os_ok_def os_wf_def)
  have sv: "sem A \<sigma> e = v" using e by (simp add: denotes_def)
  let ?o1 = "setKnownSymbolic os i (Some e)" let ?o2 = "markByteSymbolic ?o1 i" let ?o3 = "markByteUnflushed ?o2 i"
  have k: "known_wf A \<sigma> ?o1" "\<And>j. j < m_size os \<Longrightarrow> known_at ?o1 j = (if j = i then Some e else known_at os j)"
    using setKnownSymbolic_spec [OF wf(3) i, of "Some e"] e sv by simp_all
  have mw: "masks_wf ?o1" using wf(2) by simp
  have m: "masks_wf ?o2" "\<And>j. j < m_size os \<Longrightarrow> isByteConcrete ?o2 j = (j \<noteq> i \<and> isByteConcrete os j)"
    using markByteSymbolic_spec [OF mw, of i] i by auto
  have u: "masks_wf ?o3" "\<And>j. j < m_size os \<Longrightarrow> isByteFlushed ?o3 j = (j \<noteq> i \<and> isByteFlushed os j)"
    using markByteUnflushed_spec [OF m(1), of i] i by simp_all
  have val: "os_val A \<sigma> ?o3 j = (if j = i then v else os_val A \<sigma> os j)" if "j < m_size os" for j
    using that sv by (simp add: os_val_def m k cong: option.case_cong)
  have "cache_wf A \<sigma> ?o3"
    unfolding cache_wf_def
  proof (intro allI impI)
    fix j assume "j < m_size ?o3"
    then have j: "j < m_size os" by simp
    show "(isByteConcrete ?o3 j \<longrightarrow> known_at ?o3 j = None) \<and>
      (\<not> isByteFlushed ?o3 j \<longrightarrow> isByteConcrete ?o3 j \<or> known_at ?o3 j \<noteq> None) \<and>
      (isByteFlushed ?o3 j \<longrightarrow> list_val A \<sigma> ?o3 j = os_val A \<sigma> ?o3 j)"
      using os_ok_cache [OF ok j] by (cases "j = i") (simp_all add: i j val u m k)
  qed
  then have "os_ok A \<sigma> ?o3" using wf  u(1) k(1) by (simp add: os_ok_def os_wf_def)
  then show ?thesis using val by (simp add: os_step_def)
qed

context apint
begin

text \<open>The update list.\<close>

lemma getUpdates_step:
  assumes "updates_wf A \<sigma> os" and "0 < m_size os" and "m_size os < 2 ^ 32"
  shows "\<exists>r us n'. getUpdates A env (os, n) = Some ((r, us), os\<lparr>m_updates := Some (Some r, us)\<rparr>, n') \<and>
    updates_wf A \<sigma> (os\<lparr>m_updates := Some (Some r, us)\<rparr>) \<and>
    (\<forall>j < m_size os. list_val A \<sigma> (os\<lparr>m_updates := Some (Some r, us)\<rparr>) j = list_val A \<sigma> os j) \<and>
    (\<forall>r' us'. m_updates os = Some (Some r', us') \<longrightarrow> r' = r \<and> us' = us)"
proof (cases "\<exists>r us. m_updates os = Some (Some r, us)")
  case True
  then obtain r us where u: "m_updates os = Some (Some r, us)" by blast
  then have o: "os\<lparr>m_updates := Some (Some r, us)\<rparr> = os" by simp
  have "getUpdates A env (os, n) = Some ((r, us), os, n)" by (simp add: getUpdates_def u)
  with assms(1) u show ?thesis by (intro exI [of _ r] exI [of _ us] exI [of _ n]) (simp add: o)
next
  case False
  then have n: "(case m_updates os of None \<Rightarrow> (None, NoUpdate) | Some u \<Rightarrow> u) = (None, NoUpdate)"
    using assms(1) by (auto simp: updates_wf_def split: option.splits)
  let ?a = "\<lparr>array_addr = new_array env (to_u32 (n + 1)), array_name = ''const_arr'' @ utostr env (to_u32 (n + 1)),
    array_size = m_size os, constantValues = replicate (m_size os) (ap_of A 8 0)\<rparr>"
  have g: "getUpdates A env (os, n) = Some ((?a, NoUpdate), os\<lparr>m_updates := Some (Some ?a, NoUpdate)\<rparr>, to_u32 (n + 1))"
    unfolding getUpdates_def using n by (simp add: Let_def)
  have w: "wt_array A ?a" using assms(2,3) by (simp add: wt_array_def isConstantArray_def isSymbolicArray_def apint_simps)
  have "list_val A \<sigma> (os\<lparr>m_updates := Some (Some ?a, NoUpdate)\<rparr>) j = list_val A \<sigma> os j" if "j < m_size os" for j
    using that False assms(1)
    by (auto simp: list_val_def array_value_def apint_simps updates_wf_def split: option.splits)
  moreover have "updates_wf A \<sigma> (os\<lparr>m_updates := Some (Some ?a, NoUpdate)\<rparr>)" using w by (simp add: updates_wf_def)
  moreover have "\<forall>r' us'. m_updates os = Some (Some r', us') \<longrightarrow> r' = ?a \<and> us' = NoUpdate" using False by simp
  ultimately show ?thesis using g by blast
qed

lemma extendUpdates_step:
  assumes "updates_wf A \<sigma> os" and "0 < m_size os" and "m_size os < 2 ^ 32"
    and i: "denotes A \<sigma> index 32 iv" and v: "denotes A \<sigma> val 8 vv"
  shows "\<exists>r us n'. extendUpdates A env (os, n) index val = Some (os\<lparr>m_updates := Some (Some r, UpdateNode us index val)\<rparr>, n') \<and>
    updates_wf A \<sigma> (os\<lparr>m_updates := Some (Some r, UpdateNode us index val)\<rparr>) \<and>
    (\<forall>j < m_size os. list_val A \<sigma> (os\<lparr>m_updates := Some (Some r, UpdateNode us index val)\<rparr>) j =
       (if iv = int j then vv else list_val A \<sigma> os j))"
proof -
  obtain r us n' where g: "getUpdates A env (os, n) = Some ((r, us), os\<lparr>m_updates := Some (Some r, us)\<rparr>, n')"
    and w: "updates_wf A \<sigma> (os\<lparr>m_updates := Some (Some r, us)\<rparr>)"
    and l: "\<And>j. j < m_size os \<Longrightarrow> list_val A \<sigma> (os\<lparr>m_updates := Some (Some r, us)\<rparr>) j = list_val A \<sigma> os j"
    using getUpdates_step [OF assms(1-3)] by blast
  have e: "extendUpdates A env (os, n) index val = Some (os\<lparr>m_updates := Some (Some r, UpdateNode us index val)\<rparr>, n')"
    using v by (simp add: extendUpdates_def g UpdateNode_create_def denotes_def)
  have "updates_wf A \<sigma> (os\<lparr>m_updates := Some (Some r, UpdateNode us index val)\<rparr>)"
    using w i v by (simp add: updates_wf_def denotes_def)
  moreover have "list_val A \<sigma> (os\<lparr>m_updates := Some (Some r, UpdateNode us index val)\<rparr>) j =
       (if iv = int j then vv else list_val A \<sigma> os j)" if "j < m_size os" for j
    using l [OF that] i v by (simp add: list_val_def denotes_def)
  ultimately show ?thesis using e by blast
qed

end

text \<open>
  The loops of the flush functions.  After \<open>k\<close> iterations the bytes have their values, the first \<open>k\<close> bytes
  are flushed and, if the flush is for a write, cached nowhere else.
\<close>

definition nonempty_updates :: "'a object_state \<Rightarrow> bool" where
  "nonempty_updates os \<longleftrightarrow> (\<exists>r us. m_updates os = Some (Some r, us) \<and> us \<noteq> NoUpdate)"

definition flush_inv :: "'a ops \<Rightarrow> ('a array_obj \<Rightarrow> nat \<Rightarrow> int) \<Rightarrow> 'a object_state \<Rightarrow> bool \<Rightarrow> nat \<Rightarrow> 'a object_state \<Rightarrow> bool" where
  "flush_inv A \<sigma> os0 w k os \<longleftrightarrow> os_wf A \<sigma> os \<and> cache_wf A \<sigma> os \<and> m_flushMask os \<noteq> None \<and> os_meta os = os_meta os0 \<and>
     (\<forall>j < m_size os0. os_val A \<sigma> os j = os_val A \<sigma> os0 j) \<and>
     (\<forall>j < k. isByteFlushed os j \<and> (w \<longrightarrow> \<not> isByteConcrete os j \<and> known_at os j = None)) \<and>
     (\<forall>j < m_size os0. k \<le> j \<longrightarrow> isByteFlushed os j = isByteFlushed os0 j) \<and>
     (m_flushMask os0 \<noteq> None \<or> 0 < k \<longrightarrow> nonempty_updates os)"

lemma flush_inv_init:
  assumes "os_ok A \<sigma> os"
  shows "flush_inv A \<sigma> os w 0 (initFlushMask os)"
proof -
  have wf: "masks_wf os" "0 < m_size os" using assms by (auto simp: os_ok_def os_wf_def buffers_wf_def)
  note f = initFlushMask_spec [OF wf(1)]
  have v: "os_val A \<sigma> (initFlushMask os) j = os_val A \<sigma> os j" for j by (simp add: os_val_def cong: option.case_cong)
  have "os_wf A \<sigma> (initFlushMask os)" using assms f [OF wf(2)] by (simp add: os_ok_def os_wf_def)
  moreover have "cache_wf A \<sigma> (initFlushMask os)" using assms f by (simp add: os_ok_def cache_wf_def v)
  moreover have "nonempty_updates (initFlushMask os)" if "m_flushMask os \<noteq> None"
    using assms that by (auto simp: os_ok_def flush_wf_def nonempty_updates_def)
  ultimately show ?thesis using f wf(2) by (simp add: flush_inv_def v)
qed

lemma flush_inv_step:
  assumes inv: "flush_inv A \<sigma> os0 w i os" and i: "i < m_size os0"
    and wf: "buffers_wf os'" "masks_wf os'" "known_wf A \<sigma> os'" "updates_wf A \<sigma> os'"
    and meta: "os_meta os' = os_meta os" and mask: "m_flushMask os' \<noteq> None"
    and fl: "\<And>j. j < m_size os0 \<Longrightarrow> isByteFlushed os' j = (j = i \<or> isByteFlushed os j)"
    and byte: "\<And>j. os_byte os' j = os_byte os j"
    and other: "\<And>j. j < m_size os0 \<Longrightarrow> j \<noteq> i \<Longrightarrow> isByteConcrete os' j = isByteConcrete os j \<and> known_at os' j = known_at os j \<and>
      list_val A \<sigma> os' j = list_val A \<sigma> os j"
    and at: "list_val A \<sigma> os' i = os_val A \<sigma> os i"
    and cached: "\<not> isByteConcrete os' i \<and> known_at os' i = None \<or>
      \<not> w \<and> isByteConcrete os' i = isByteConcrete os i \<and> known_at os' i = known_at os i"
    and upd: "isByteFlushed os i \<and> m_updates os' = m_updates os \<or> nonempty_updates os'"
  shows "flush_inv A \<sigma> os0 w (Suc i) os'"
proof -
  have sz: "m_size os' = m_size os0" "m_size os = m_size os0" using inv meta os_meta_size
    by (metis flush_inv_def)+
  have sh: "\<not> m_isSharedConcrete os'" using inv meta by (simp add: flush_inv_def os_wf_def os_meta_def)
  have val: "os_val A \<sigma> os' j = os_val A \<sigma> os j" if "j < m_size os0" for j
  proof (cases "j = i")
    case True
    have "os_val A \<sigma> os' i = os_val A \<sigma> os i"
      using cached
    proof
      assume "\<not> isByteConcrete os' i \<and> known_at os' i = None"
      then show ?thesis using at by (simp add: os_val_def)
    next
      assume c: "\<not> w \<and> isByteConcrete os' i = isByteConcrete os i \<and> known_at os' i = known_at os i"
      show ?thesis
      proof (cases "isByteConcrete os i \<or> known_at os i \<noteq> None")
        case True
        then show ?thesis using c byte [of i] by (auto simp: os_val_def)
      next
        case False
        then show ?thesis using c at by (simp add: os_val_def)
      qed
    qed
    then show ?thesis using True by simp
  next
    case False
    then show ?thesis using other [OF that] byte [of j] by (simp add: os_val_def cong: option.case_cong)
  qed
  have c: "(isByteConcrete os j \<longrightarrow> known_at os j = None) \<and>
     (\<not> isByteFlushed os j \<longrightarrow> isByteConcrete os j \<or> known_at os j \<noteq> None) \<and>
     (isByteFlushed os j \<longrightarrow> list_val A \<sigma> os j = os_val A \<sigma> os j)" if "j < m_size os0" for j
    using inv that sz by (simp add: flush_inv_def cache_wf_def)
  have "cache_wf A \<sigma> os'"
    unfolding cache_wf_def sz
  proof (intro allI impI)
    fix j assume j: "j < m_size os0"
    show "(isByteConcrete os' j \<longrightarrow> known_at os' j = None) \<and>
      (\<not> isByteFlushed os' j \<longrightarrow> isByteConcrete os' j \<or> known_at os' j \<noteq> None) \<and>
      (isByteFlushed os' j \<longrightarrow> list_val A \<sigma> os' j = os_val A \<sigma> os' j)"
    proof (cases "j = i")
      case True
      then show ?thesis using c [OF i] cached at val [OF i] fl [OF i] by auto
    next
      case False
      then show ?thesis using c [OF j] other [OF j] val [OF j] fl [OF j] by simp
    qed
  qed
  moreover have "os_wf A \<sigma> os'" using wf sh by (simp add: os_wf_def)
  moreover have "nonempty_updates os'"
  proof (rule disjE [OF upd])
    assume u: "isByteFlushed os i \<and> m_updates os' = m_updates os"
    then have "isByteFlushed os0 i" using inv i by (simp add: flush_inv_def)
    then have "m_flushMask os0 \<noteq> None" by (auto simp: isByteFlushed_def split: option.splits)
    then show ?thesis using inv u by (simp add: flush_inv_def nonempty_updates_def)
  qed
  moreover have "isByteFlushed os' j \<and> (w \<longrightarrow> \<not> isByteConcrete os' j \<and> known_at os' j = None)" if "j < Suc i" for j
  proof (cases "j = i")
    case True
    then show ?thesis using cached fl [OF i] by auto
  next
    case False
    then have "j < i" "j < m_size os0" using that i by simp_all
    then show ?thesis using inv other [of j] fl [of j] False by (simp add: flush_inv_def)
  qed
  moreover have "isByteFlushed os' j = isByteFlushed os0 j" if "j < m_size os0" "Suc i \<le> j" for j
    using that inv fl [of j] by (simp add: flush_inv_def)
  moreover have "os_meta os' = os_meta os0" using inv meta by (simp add: flush_inv_def)
  ultimately show ?thesis using inv mask val by (simp add: flush_inv_def)
qed

context apint
begin

lemma denotes_byte: "denotes A \<sigma> (ConstantExpr_alloc A (unat b) 8) 8 (uint b)" for b :: "8 word"
  using unsigned_less [of b, where 'a = int]
  by (intro denotes_alloc) (simp_all add: take_bit_int_eq_self)

lemma denotes_offset: "i < 2 ^ 32 \<Longrightarrow> denotes A \<sigma> (ConstantExpr_alloc A i 32) 32 (int i)"
  by (intro denotes_alloc) (simp_all add: take_bit_int_eq_self)

lemma unflushed_value_denotes:
  assumes "os_wf A \<sigma> os" and "i < m_size os" and "isByteConcrete os i \<or> known_at os i \<noteq> None"
  shows "\<exists>e. unflushed_value A os i = Some e \<and> denotes A \<sigma> e 8 (os_val A \<sigma> os i)"
proof (cases "isByteConcrete os i")
  case True
  obtain b where "os_byte os i = Some b" using os_byte_Some assms(1) by (auto simp: os_wf_def)
  with True show ?thesis using denotes_byte by (simp add: unflushed_value_def os_val_def)
next
  case False
  then obtain e where e: "known_at os i = Some e" using assms(3) by auto
  then have "denotes A \<sigma> e 8 (sem A \<sigma> e)" using assms(1,2) by (fastforce simp: os_wf_def known_wf_def)
  with False e show ?thesis
    by (simp add: unflushed_value_def os_val_def isByteKnownSymbolic_iff known_at_nth)
qed

lemma flush_byte_step:
  assumes wf: "os_wf A \<sigma> os" and i: "i < m_size os" and c: "isByteConcrete os i \<or> known_at os i \<noteq> None"
  shows "\<exists>u n'. flush_byte A env (os, n) i = Some (os\<lparr>m_updates := u\<rparr>, n') \<and>
    updates_wf A \<sigma> (os\<lparr>m_updates := u\<rparr>) \<and> nonempty_updates (os\<lparr>m_updates := u\<rparr>) \<and>
    (\<forall>j < m_size os. list_val A \<sigma> (os\<lparr>m_updates := u\<rparr>) j = (if j = i then os_val A \<sigma> os i else list_val A \<sigma> os j))"
proof -
  have w: "updates_wf A \<sigma> os" "0 < m_size os" "m_size os < 2 ^ 32" using wf by (auto simp: os_wf_def buffers_wf_def)
  obtain e where e: "unflushed_value A os i = Some e" "denotes A \<sigma> e 8 (os_val A \<sigma> os i)"
    using unflushed_value_denotes [OF wf i c] by blast
  have "denotes A \<sigma> (ConstantExpr_alloc A i 32) 32 (int i)" using i w(3) by (intro denotes_offset) simp
  then obtain r us n' ix where x: "extendUpdates A env (os, n) (ConstantExpr_alloc A i 32) e =
      Some (os\<lparr>m_updates := Some (Some r, UpdateNode us ix e)\<rparr>, n')"
    "updates_wf A \<sigma> (os\<lparr>m_updates := Some (Some r, UpdateNode us ix e)\<rparr>)"
    "\<forall>j < m_size os. list_val A \<sigma> (os\<lparr>m_updates := Some (Some r, UpdateNode us ix e)\<rparr>) j =
       (if int i = int j then os_val A \<sigma> os i else list_val A \<sigma> os j)"
    using extendUpdates_step [OF w _ e(2), of "ConstantExpr_alloc A i 32" "int i" env n] by blast
  have "flush_byte A env (os, n) i = Some (os\<lparr>m_updates := Some (Some r, UpdateNode us ix e)\<rparr>, n')"
    using x(1) e(1) by (simp add: flush_byte_def)
  moreover have "nonempty_updates (os\<lparr>m_updates := Some (Some r, UpdateNode us ix e)\<rparr>)"
    by (simp add: nonempty_updates_def)
  ultimately show ?thesis using x(2,3) by (intro exI [of _ "Some (Some r, UpdateNode us ix e)"] exI [of _ n']) simp
qed

end

context apint
begin

lemma flush_read_byte_step:
  assumes inv: "flush_inv A \<sigma> os0 False i os" and i: "i < m_size os0"
  shows "\<exists>os' n'. flush_read_byte A env (os, n) i = Some (os', n') \<and> flush_inv A \<sigma> os0 False (Suc i) os'"
proof -
  have sz: "m_size os = m_size os0" using inv os_meta_size by (metis flush_inv_def)
  have wf: "os_wf A \<sigma> os" "m_flushMask os \<noteq> None" using inv by (simp_all add: flush_inv_def)
  then have wf': "buffers_wf os" "masks_wf os" "known_wf A \<sigma> os" "updates_wf A \<sigma> os" by (simp_all add: os_wf_def)
  have c: "(\<not> isByteFlushed os i \<longrightarrow> isByteConcrete os i \<or> known_at os i \<noteq> None) \<and>
     (isByteFlushed os i \<longrightarrow> list_val A \<sigma> os i = os_val A \<sigma> os i)"
    using inv i sz by (simp add: flush_inv_def cache_wf_def)
  show ?thesis
  proof (cases "isByteFlushed os i")
    case True
    have "flush_inv A \<sigma> os0 False (Suc i) os"
      by (rule flush_inv_step [OF inv i wf']) (use True wf c in auto)
    with True show ?thesis by (simp add: flush_read_byte_def)
  next
    case False
    with c have c': "isByteConcrete os i \<or> known_at os i \<noteq> None" by blast
    have i': "i < m_size os" using i sz by simp
    obtain u n' where f: "flush_byte A env (os, n) i = Some (os\<lparr>m_updates := u\<rparr>, n')"
      and u: "updates_wf A \<sigma> (os\<lparr>m_updates := u\<rparr>)" "nonempty_updates (os\<lparr>m_updates := u\<rparr>)"
        "\<forall>j < m_size os. list_val A \<sigma> (os\<lparr>m_updates := u\<rparr>) j = (if j = i then os_val A \<sigma> os i else list_val A \<sigma> os j)"
      using flush_byte_step [OF wf(1) i' c'] by blast
    let ?o = "os\<lparr>m_updates := u\<rparr>"
    have mw: "masks_wf ?o" "i < m_size ?o" "m_flushMask ?o \<noteq> None" using wf' i' wf(2) by simp_all
    have m: "masks_wf (unsetFlush ?o i)" "\<And>j. j < m_size os0 \<Longrightarrow> isByteFlushed (unsetFlush ?o i) j = (j = i \<or> isByteFlushed os j)"
      using unsetFlush_spec [OF mw(1,2) _ mw(3)] i' sz by simp_all
    have "flush_inv A \<sigma> os0 False (Suc i) (unsetFlush ?o i)"
      by (rule flush_inv_step [OF inv i])
        (use wf' m u wf(2) i' sz in \<open>simp_all add: nonempty_updates_def\<close>)
    with False f show ?thesis by (simp add: flush_read_byte_def)
  qed
qed

lemma flush_write_byte_step:
  assumes inv: "flush_inv A \<sigma> os0 True i os" and i: "i < m_size os0"
  shows "\<exists>os' n'. flush_write_byte A env (os, n) i = Some (os', n') \<and> flush_inv A \<sigma> os0 True (Suc i) os'"
proof -
  have sz: "m_size os = m_size os0" using inv os_meta_size by (metis flush_inv_def)
  have wf: "os_wf A \<sigma> os" "m_flushMask os \<noteq> None" using inv by (simp_all add: flush_inv_def)
  then have wf': "buffers_wf os" "masks_wf os" "known_wf A \<sigma> os" "updates_wf A \<sigma> os" by (simp_all add: os_wf_def)
  have i': "i < m_size os" using i sz by simp
  have c: "(isByteConcrete os i \<longrightarrow> known_at os i = None) \<and>
     (\<not> isByteFlushed os i \<longrightarrow> isByteConcrete os i \<or> known_at os i \<noteq> None) \<and>
     (isByteFlushed os i \<longrightarrow> list_val A \<sigma> os i = os_val A \<sigma> os i)"
    using inv i' by (simp add: flush_inv_def cache_wf_def)
  define uncache where "uncache o' = (if isByteConcrete os i then markByteSymbolic o' i
    else if known_at os i \<noteq> None then setKnownSymbolic o' i None else o')" for o' :: "'a object_state"
  have un: "buffers_wf (uncache o') \<and> masks_wf (uncache o') \<and> known_wf A \<sigma> (uncache o') \<and> updates_wf A \<sigma> (uncache o') \<and>
      os_meta (uncache o') = os_meta o' \<and> m_flushMask (uncache o') = m_flushMask o' \<and>
      (\<forall>j. os_byte (uncache o') j = os_byte o' j) \<and> (\<forall>j. isByteFlushed (uncache o') j = isByteFlushed o' j) \<and>
      (\<forall>j. list_val A \<sigma> (uncache o') j = list_val A \<sigma> o' j) \<and>
      (\<forall>j < m_size os0. isByteConcrete (uncache o') j = (j \<noteq> i \<and> isByteConcrete os j) \<and>
        known_at (uncache o') j = (if j = i then None else known_at os j))"
    if w: "buffers_wf o'" "masks_wf o'" "known_wf A \<sigma> o'" "updates_wf A \<sigma> o'" and "m_size o' = m_size os0"
      and v: "\<And>j. isByteConcrete o' j = isByteConcrete os j" "\<And>j. known_at o' j = known_at os j" for o'
  proof -
    have i: "i < m_size o'" using i that by simp
    show ?thesis
      using w v c i markByteSymbolic_spec [OF w(2) i] markByteSymbolic_spec [OF w(2) i i]
        setKnownSymbolic_spec [OF w(3) i, of None] that(5)
      by (auto simp: uncache_def)
  qed
  have upd_un: "m_updates (uncache o') = m_updates o'" for o'
    by (simp add: uncache_def markByteSymbolic_def setKnownSymbolic_def Let_def)
  show ?thesis
  proof (cases "isByteFlushed os i")
    case True
    have "flush_write_byte A env (os, n) i = Some (uncache os, n)"
      using True by (simp add: flush_write_byte_def uncache_def isByteKnownSymbolic_iff)
    moreover have "flush_inv A \<sigma> os0 True (Suc i) (uncache os)"
      by (rule flush_inv_step [OF inv i]) (use True wf wf' c i un [OF wf' sz] upd_un in simp_all, use True in auto)
    ultimately show ?thesis by blast
  next
    case False
    with c have c': "isByteConcrete os i \<or> known_at os i \<noteq> None" by blast
    obtain u n' where f: "flush_byte A env (os, n) i = Some (os\<lparr>m_updates := u\<rparr>, n')"
      and u: "updates_wf A \<sigma> (os\<lparr>m_updates := u\<rparr>)" "nonempty_updates (os\<lparr>m_updates := u\<rparr>)"
        "\<forall>j < m_size os. list_val A \<sigma> (os\<lparr>m_updates := u\<rparr>) j = (if j = i then os_val A \<sigma> os i else list_val A \<sigma> os j)"
      using flush_byte_step [OF wf(1) i' c'] by blast
    let ?o = "os\<lparr>m_updates := u\<rparr>"
    have w: "buffers_wf ?o" "masks_wf ?o" "known_wf A \<sigma> ?o" "updates_wf A \<sigma> ?o" "m_size ?o = m_size os0"
      using wf' u sz by simp_all
    note uo = un [OF w, simplified]
    have us: "m_size (uncache ?o) = m_size os0" using uo sz by (simp add: os_meta_def)
    have mw: "masks_wf (uncache ?o)" "i < m_size (uncache ?o)" "m_flushMask (uncache ?o) \<noteq> None" using uo us i wf(2) by simp_all
    have m: "masks_wf (unsetFlush (uncache ?o) i)"
      "\<And>j. j < m_size os0 \<Longrightarrow> isByteFlushed (unsetFlush (uncache ?o) i) j = (j = i \<or> isByteFlushed os j)"
      using unsetFlush_spec [OF mw(1,2) _ mw(3)] us i uo by simp_all
    have "flush_write_byte A env (os, n) i = Some (unsetFlush (uncache ?o) i, n')"
      using False c' f by (auto simp: flush_write_byte_def uncache_def)
    moreover have "flush_inv A \<sigma> os0 True (Suc i) (unsetFlush (uncache ?o) i)"
      by (rule flush_inv_step [OF inv i])
        (use wf' m u uo wf(2) i i' sz upd_un in \<open>simp_all add: nonempty_updates_def\<close>)
    ultimately show ?thesis by blast
  qed
qed

end

context apint
begin

lemma flush_inv_loop:
  assumes ok: "os_ok A \<sigma> os"
    and step: "\<And>os' n i. flush_inv A \<sigma> os w i os' \<Longrightarrow> i < m_size os \<Longrightarrow>
      \<exists>os'' n'. f (os', n) i = Some (os'', n') \<and> flush_inv A \<sigma> os w (Suc i) os''"
  shows "\<exists>os' n'. foldM f (initFlushMask os, n) [0..<to_u32 (0 + m_size os)] = Some (os', n') \<and>
    flush_inv A \<sigma> os w (m_size os) os'"
proof -
  have "to_u32 (0 + m_size os) = m_size os" using ok by (simp add: os_ok_def os_wf_def buffers_wf_def to_u32_def)
  moreover have "\<exists>s'. foldM f (initFlushMask os, n) [0..<m_size os] = Some s' \<and> flush_inv A \<sigma> os w (m_size os) (fst s')"
    by (rule foldM_upt [where P = "\<lambda>i s. flush_inv A \<sigma> os w i (fst s)"])
      (use flush_inv_init [OF ok] step in \<open>auto simp: split_paired_all\<close>)
  ultimately show ?thesis by (metis prod.collapse)
qed

lemma flush_inv_ok: "os_ok A \<sigma> os \<Longrightarrow> flush_inv A \<sigma> os w (m_size os) os' \<Longrightarrow>
  os_step A \<sigma> os (os_val A \<sigma> os) os' \<and> nonempty_updates os'"
  by (auto simp: flush_inv_def os_step_def os_ok_def flush_wf_def nonempty_updates_def os_wf_def buffers_wf_def)

text \<open>A read at a constant offset.\<close>

lemma read8_step:
  assumes ok: "os_ok A \<sigma> os" and i: "i < m_size os"
  shows "\<exists>e os' n'. read8 A env mem (os, n) i = Some (e, os', n') \<and> denotes A \<sigma> e 8 (os_val A \<sigma> os i) \<and>
    os_step A \<sigma> os (os_val A \<sigma> os) os'"
proof -
  have wf: "os_wf A \<sigma> os" and u: "updates_wf A \<sigma> os" "0 < m_size os" "m_size os < 2 ^ 32" and sh: "\<not> m_isSharedConcrete os"
    using ok by (auto simp: os_ok_def os_wf_def buffers_wf_def)
  have refl: "os_step A \<sigma> os (os_val A \<sigma> os) os" using ok by (simp add: os_step_def)
  show ?thesis
  proof (cases "isByteConcrete os i \<or> known_at os i \<noteq> None")
    case True
    have "read8 A env mem (os, n) i = map_option (\<lambda>e. (e, os, n)) (unflushed_value A os i)"
      using i sh True
      by (auto simp: read8_def unflushed_value_def isByteKnownSymbolic_iff option.map_comp comp_def Let_def)
    then show ?thesis using unflushed_value_denotes [OF wf i True] refl by auto
  next
    case False
    then have fl: "isByteFlushed os i" and l: "list_val A \<sigma> os i = os_val A \<sigma> os i" using os_ok_cache [OF ok i] by auto
    obtain r us n' where g: "getUpdates A env (os, n) = Some ((r, us), os\<lparr>m_updates := Some (Some r, us)\<rparr>, n')"
      and same: "\<forall>r' us'. m_updates os = Some (Some r', us') \<longrightarrow> r' = r \<and> us' = us"
      using getUpdates_step [OF u, of env n] by blast
    have "m_flushMask os \<noteq> None" using fl by (auto simp: isByteFlushed_def split: option.splits)
    with ok obtain r' us' where "m_updates os = Some (Some r', us')" by (auto simp: os_ok_def flush_wf_def)
    with same have mu: "m_updates os = Some (Some r, us)" by simp
    then have o: "os\<lparr>m_updates := Some (Some r, us)\<rparr> = os" by simp
    have w: "wt_array A r" "wt_upd A us" "safe_upd A \<sigma> us" "array_size r = m_size os"
      using u(1) mu by (simp_all add: updates_wf_def)
    have "denotes A \<sigma> (ConstantExpr_alloc A i 32) 32 (int i)" using i u(3) by (intro denotes_offset) simp
    then have "denotes A \<sigma> (Read_create A r us (ConstantExpr_alloc A i 32)) 8 (list_val A \<sigma> os i)"
      using Read_create_denotes [OF w(1-3), of "ConstantExpr_alloc A i 32" "int i"] w(4) i
      by (simp add: list_val_def mu ConstantExpr_alloc_def)
    then show ?thesis using g o False fl i sh refl l by (simp add: read8_def isByteKnownSymbolic_iff)
  qed
qed

text \<open>A read and a write at a symbolic offset.\<close>

lemma read8_sym_step:
  assumes ok: "os_ok A \<sigma> os" and off: "denotes A \<sigma> offset 32 (int i)" and nc: "dyn_cast_Constant offset = None"
    and i: "i < m_size os"
  shows "\<exists>e os' n'. read8_sym A env (os, n) offset = Some (e, os', n') \<and> denotes A \<sigma> e 8 (os_val A \<sigma> os i) \<and>
    os_step A \<sigma> os (os_val A \<sigma> os) os'"
proof -
  obtain os1 n1 where f: "flushRangeForRead A env (os, n) 0 (m_size os) = Some (os1, n1)"
    and inv: "flush_inv A \<sigma> os False (m_size os) os1"
    using flush_inv_loop [where f = "flush_read_byte A env" and w = False, OF ok flush_read_byte_step, of n] by (auto simp: flushRangeForRead_def)
  have ok1: "os_step A \<sigma> os (os_val A \<sigma> os) os1" "nonempty_updates os1" using flush_inv_ok [OF ok inv] by simp_all
  have sz: "m_size os1 = m_size os" by (rule os_step_size [OF ok1(1)])
  have u: "updates_wf A \<sigma> os1" "0 < m_size os1" "m_size os1 < 2 ^ 32"
    using ok1(1) by (auto simp: os_step_def os_ok_def os_wf_def buffers_wf_def)
  obtain r us where mu: "m_updates os1 = Some (Some r, us)" "us \<noteq> NoUpdate" using ok1(2) by (auto simp: nonempty_updates_def)
  then have g: "getUpdates A env (os1, n1) = Some ((r, us), os1, n1)" by (simp add: getUpdates_def)
  have w: "wt_array A r" "wt_upd A us" "safe_upd A \<sigma> us" using u(1) mu by (simp_all add: updates_wf_def)
  have "list_val A \<sigma> os1 i = os_val A \<sigma> os i"
  proof -
    have "os_ok A \<sigma> os1" "os_val A \<sigma> os1 i = os_val A \<sigma> os i" using ok1(1) i by (simp_all add: os_step_def)
    moreover have "isByteFlushed os1 i" using inv i by (simp add: flush_inv_def)
    ultimately show ?thesis using os_ok_cache [of A \<sigma> os1 i] sz i by simp
  qed
  moreover have "denotes A \<sigma> (ZExt_create A offset 32) 32 (int i)"
    using ZExt_create_denotes [OF off, of 32] denotes_fits [OF off] by (simp add: fits_iff_take_bit)
  ultimately have "denotes A \<sigma> (Read_create A r us (ZExt_create A offset 32)) 8 (os_val A \<sigma> os i)"
    using Read_create_denotes [OF w, of "ZExt_create A offset 32" "int i"] mu by (simp add: list_val_def)
  moreover have "\<not> m_isSharedConcrete os" using ok by (simp add: os_ok_def os_wf_def)
  ultimately show ?thesis using f g nc ok1(1) by (simp add: read8_sym_def fastRangeCheckOffset_def)
qed

lemma write8_sym_step:
  assumes ok: "os_ok A \<sigma> os" and off: "denotes A \<sigma> offset 32 (int i)" and nc: "dyn_cast_Constant offset = None"
    and v: "denotes A \<sigma> val 8 vv"
  shows "\<exists>os' n'. write8_sym A env (os, n) offset val = Some (os', n') \<and>
    os_step A \<sigma> os (\<lambda>j. if j = i then vv else os_val A \<sigma> os j) os'"
proof -
  obtain os1 n1 where f: "flushRangeForWrite A env (os, n) 0 (m_size os) = Some (os1, n1)"
    and inv: "flush_inv A \<sigma> os True (m_size os) os1"
    using flush_inv_loop [where f = "flush_write_byte A env" and w = True, OF ok flush_write_byte_step, of n] by (auto simp: flushRangeForWrite_def)
  have ok1: "os_step A \<sigma> os (os_val A \<sigma> os) os1" "nonempty_updates os1" using flush_inv_ok [OF ok inv] by simp_all
  have sz: "m_size os1 = m_size os" by (rule os_step_size [OF ok1(1)])
  have wf1: "os_wf A \<sigma> os1" using ok1(1) by (simp add: os_step_def os_ok_def)
  then have u: "updates_wf A \<sigma> os1" "0 < m_size os1" "m_size os1 < 2 ^ 32" by (auto simp: os_wf_def buffers_wf_def)
  have z: "denotes A \<sigma> (ZExt_create A offset 32) 32 (int i)"
    using ZExt_create_denotes [OF off, of 32] denotes_fits [OF off] by (simp add: fits_iff_take_bit)
  obtain r us n2 where x: "extendUpdates A env (os1, n1) (ZExt_create A offset 32) val =
      Some (os1\<lparr>m_updates := Some (Some r, UpdateNode us (ZExt_create A offset 32) val)\<rparr>, n2)"
    and w: "updates_wf A \<sigma> (os1\<lparr>m_updates := Some (Some r, UpdateNode us (ZExt_create A offset 32) val)\<rparr>)"
    and l: "\<forall>j < m_size os1. list_val A \<sigma> (os1\<lparr>m_updates := Some (Some r, UpdateNode us (ZExt_create A offset 32) val)\<rparr>) j =
       (if int i = int j then vv else list_val A \<sigma> os1 j)"
    using extendUpdates_step [OF u z v, of env n1] by blast
  let ?o = "os1\<lparr>m_updates := Some (Some r, UpdateNode us (ZExt_create A offset 32) val)\<rparr>"
  have sym: "isByteFlushed os1 j \<and> \<not> isByteConcrete os1 j \<and> known_at os1 j = None" if "j < m_size os" for j
    using inv that by (simp add: flush_inv_def)
  have l1: "list_val A \<sigma> os1 j = os_val A \<sigma> os j" if "j < m_size os" for j
    using os_ok_cache [of A \<sigma> os1 j] ok1(1) sym [OF that] that sz by (simp add: os_step_def)
  have val: "os_val A \<sigma> ?o j = list_val A \<sigma> ?o j" if "j < m_size os" for j
    using sym [OF that] by (simp add: os_val_def)
  have "cache_wf A \<sigma> ?o" using sym val sz by (simp add: cache_wf_def)
  moreover have "os_wf A \<sigma> ?o" using wf1 w by (simp add: os_wf_def)
  moreover have "flush_wf ?o" by (simp add: flush_wf_def)
  ultimately have "os_step A \<sigma> os (\<lambda>j. if j = i then vv else os_val A \<sigma> os j) ?o"
    using ok1(1) val l l1 sz by (auto simp: os_step_def os_ok_def)
  moreover have "\<not> m_isSharedConcrete os" using ok by (simp add: os_ok_def os_wf_def)
  ultimately show ?thesis using f x nc by (simp add: write8_sym_def fastRangeCheckOffset_def)
qed

end

section \<open>Reads and writes of several bytes\<close>

text \<open>The little-endian number in \<open>n\<close> bytes, and the byte of a written value that goes to position \<open>k\<close>.\<close>

definition bytes_value :: "(nat \<Rightarrow> int) \<Rightarrow> nat \<Rightarrow> int" where
  "bytes_value f n = cat_list 8 (map f (rev [0..<n]))"

definition byte_of :: "os_env \<Rightarrow> nat \<Rightarrow> int \<Rightarrow> nat \<Rightarrow> int" where
  "byte_of env n v k = take_bit 8 (drop_bit (8 * (if isLittleEndian env then k else n - k - 1)) v)"

lemma bytes_value_cong: "(\<And>i. i < n \<Longrightarrow> f i = g i) \<Longrightarrow> bytes_value f n = bytes_value g n"
  unfolding bytes_value_def by (intro arg_cong [where f = "cat_list 8"] map_cong) auto

lemma bytes_value_of: "isLittleEndian env \<Longrightarrow> bytes_value (byte_of env n v) n = take_bit (n * 8) v"
  using cat_list_fields [of 8 v n] by (simp add: bytes_value_def byte_of_def [abs_def])

context apint
begin

lemma read_loop_denotes:
  assumes le: "isLittleEndian env" and w: "width_ok (n * 8)"
    and rd: "\<And>s i. i < n \<Longrightarrow> I s \<Longrightarrow> \<exists>e s'. rd s i = Some (e, s') \<and> denotes A \<sigma> e 8 (f i) \<and> I s'"
  shows "k \<le> n \<Longrightarrow> I s \<Longrightarrow> (0 < k \<longrightarrow> (\<exists>R. Res = Some R \<and> denotes A \<sigma> R (k * 8) (bytes_value f k))) \<Longrightarrow>
    \<exists>R s'. read_loop A env rd n [k..<n] Res s = Some (Some R, s') \<and> I s' \<and> denotes A \<sigma> R (n * 8) (bytes_value f n)"
proof (induction "n - k" arbitrary: k s Res)
  case 0
  then show ?case using w by (auto simp: width_ok_def)
next
  case (Suc m)
  then have k: "k < n" by simp
  obtain e s' where e: "rd s k = Some (e, s')" "denotes A \<sigma> e 8 (f k)" "I s'" using rd [OF k Suc.prems(2)] by blast
  have kw: "width_ok (8 + k * 8)" using k w by (auto simp: width_ok_def)
  obtain R where R: "(if k \<noteq> 0 then map_option (Concat_create A e) Res else Some e) = Some R"
    "denotes A \<sigma> R (Suc k * 8) (bytes_value f (Suc k))"
  proof (cases "k = 0")
    case True
    then show ?thesis using e that by (simp add: bytes_value_def cat_bits_def)
  next
    case False
    then obtain R0 where R0: "Res = Some R0" "denotes A \<sigma> R0 (k * 8) (bytes_value f k)" using Suc.prems(3) by auto
    have "denotes A \<sigma> (Concat_create A e R0) (8 + k * 8) (cat_bits (k * 8) (f k) (bytes_value f k))"
      by (rule Concat_create_denotes [OF e(2) R0(2) kw])
    then show ?thesis using False R0 that by (simp add: bytes_value_def)
  qed
  have "\<exists>R' s''. read_loop A env rd n [Suc k..<n] (Some R) s' = Some (Some R', s'') \<and> I s'' \<and>
      denotes A \<sigma> R' (n * 8) (bytes_value f n)"
    by (rule Suc.hyps(1)) (use Suc.hyps(2) k e R in auto)
  then show ?case using e(1) R(1) le k by (simp add: upt_conv_Cons)
qed

lemmas read_loop_start = read_loop_denotes [where k = 0 and Res = None, simplified]

lemma read_at_step:
  assumes ok: "os_ok A \<sigma> os" and le: "isLittleEndian env" and b: "off + n \<le> m_size os" and w: "width_ok (n * 8)"
  shows "\<exists>e os' cnt'. read_at A env mem (os, cnt) off (n * 8) = Some (Some e, os', cnt') \<and>
    denotes A \<sigma> e (n * 8) (bytes_value (\<lambda>i. os_val A \<sigma> os (off + i)) n) \<and> os_step A \<sigma> os (os_val A \<sigma> os) os'"
proof -
  have sz: "m_size os < 2 ^ 32" using ok by (simp add: os_ok_def os_wf_def buffers_wf_def)
  have "\<exists>e s'. read_loop A env (\<lambda>s idx. read8 A env mem s (to_u32 (off + idx))) n [0..<n] None (os, cnt) = Some (Some e, s') \<and>
      os_step A \<sigma> os (os_val A \<sigma> os) (fst s') \<and> denotes A \<sigma> e (n * 8) (bytes_value (\<lambda>i. os_val A \<sigma> os (off + i)) n)"
  proof (rule read_loop_start [OF le w, where I = "\<lambda>s. os_step A \<sigma> os (os_val A \<sigma> os) (fst s)"])
    fix s :: "'a os_state" and i assume i: "i < n" and s: "os_step A \<sigma> os (os_val A \<sigma> os) (fst s)"
    have o: "off + i < m_size os" using i b by simp
    then have u: "to_u32 (off + i) = off + i" using sz by (simp add: to_u32_less)
    have "os_ok A \<sigma> (fst s)" "m_size (fst s) = m_size os" "os_val A \<sigma> (fst s) (off + i) = os_val A \<sigma> os (off + i)"
      using s o os_step_size [OF s] by (simp_all add: os_step_def)
    with read8_step [of \<sigma> "fst s" "off + i" env mem "snd s"] o obtain e os' n' where
      r: "read8 A env mem s (off + i) = Some (e, os', n')" "denotes A \<sigma> e 8 (os_val A \<sigma> os (off + i))"
      "os_step A \<sigma> (fst s) (os_val A \<sigma> (fst s)) os'" by auto
    have "os_step A \<sigma> os (os_val A \<sigma> os) os'"
      by (rule os_step_trans [OF s r(3)]) (use s in \<open>simp add: os_step_def\<close>)
    with r u show "\<exists>e s'. read8 A env mem s (to_u32 (off + i)) = Some (e, s') \<and>
        denotes A \<sigma> e 8 (os_val A \<sigma> os (off + i)) \<and> os_step A \<sigma> os (os_val A \<sigma> os) (fst s')" by simp
  qed (use ok in \<open>simp add: os_step_def\<close>)
  moreover have "n * 8 \<noteq> 1" by presburger
  ultimately show ?thesis by (auto simp: read_at_def)
qed

text \<open>Writing a value at a constant offset, in either byte order.\<close>

lemma write_bytes_step:
  assumes ok: "os_ok A \<sigma> os" and b: "off + n \<le> m_size os"
    and step: "\<And>s k i. os_ok A \<sigma> (proj s) \<Longrightarrow> m_size (proj s) = m_size os \<Longrightarrow> i < n \<Longrightarrow> k = off + (if isLittleEndian env then i else n - i - 1) \<Longrightarrow>
      k < m_size os \<Longrightarrow> Q s \<Longrightarrow> \<exists>s'. g s i = Some s' \<and> Q s' \<and>
        os_step A \<sigma> (proj s) (\<lambda>j. if j = k then take_bit 8 (drop_bit (8 * i) v) else os_val A \<sigma> (proj s) j) (proj s')"
    and init: "proj s = os" "Q s"
  shows "\<exists>s'. foldM g s [0..<n] = Some s' \<and> Q s' \<and> os_step A \<sigma> os
     (\<lambda>j. if off \<le> j \<and> j < off + n then byte_of env n v (j - off) else os_val A \<sigma> os j) (proj s')"
proof -
  define pos where "pos j = (if isLittleEndian env then j - off else n - (j - off) - 1)" for j
  define val where "val i j = (if off \<le> j \<and> j < off + n \<and> pos j < i then take_bit 8 (drop_bit (8 * pos j) v)
    else os_val A \<sigma> os j)" for i j
  have "\<exists>s'. foldM g s [0..<n] = Some s' \<and> Q s' \<and> os_step A \<sigma> os (val n) (proj s')"
  proof (rule foldM_upt [where P = "\<lambda>i s. Q s \<and> os_step A \<sigma> os (val i) (proj s)"])
    show "Q s \<and> os_step A \<sigma> os (val 0) (proj s)" using ok init by (simp add: os_step_def val_def)
  next
    fix s i assume i: "i < n" and inv: "Q s \<and> os_step A \<sigma> os (val i) (proj s)"
    define k where "k = off + (if isLittleEndian env then i else n - i - 1)"
    have k: "k < m_size os" using i b by (auto simp: k_def)
    from inv have s: "os_step A \<sigma> os (val i) (proj s)" by simp
    have "os_ok A \<sigma> (proj s)" "m_size (proj s) = m_size os" using s os_step_size [OF s] by (simp_all add: os_step_def)
    from step [OF this i k_def k] inv obtain s' where s': "g s i = Some s'" "Q s'"
      "os_step A \<sigma> (proj s) (\<lambda>j. if j = k then take_bit 8 (drop_bit (8 * i) v) else os_val A \<sigma> (proj s) j) (proj s')"
      by blast
    have "(if j = k then take_bit 8 (drop_bit (8 * i) v) else os_val A \<sigma> (proj s) j) = val (Suc i) j" if j: "j < m_size os" for j
    proof (cases "off \<le> j \<and> j < off + n")
      case True
      then have "pos j = i \<longleftrightarrow> j = k" using i by (auto simp: pos_def k_def)
      then show ?thesis using s j True by (auto simp: os_step_def val_def less_Suc_eq)
    next
      case False
      then have "j \<noteq> k" using i by (auto simp: k_def)
      then show ?thesis using s j False by (auto simp: os_step_def val_def)
    qed
    with os_step_trans [OF s s'(3)] s' show "\<exists>s'. g s i = Some s' \<and> Q s' \<and> os_step A \<sigma> os (val (Suc i)) (proj s')" by blast
  qed simp
  moreover have "val n j = (if off \<le> j \<and> j < off + n then byte_of env n v (j - off) else os_val A \<sigma> os j)" for j
    by (auto simp: val_def pos_def byte_of_def)
  ultimately show ?thesis by (simp add: os_step_def)
qed

end

context apint
begin

lemma uint_word_of_nat_byte: "uint (word_of_nat n :: 8 word) = take_bit 8 (int n)"
  by (simp add: unsigned_of_nat of_nat_take_bit)

lemma write_at_step:
  assumes ok: "os_ok A \<sigma> os" and val: "denotes A \<sigma> val w v" and n: "n = (w + 7) div 8" and b: "off + n \<le> m_size os"
    and c: "dyn_cast_Constant val \<noteq> None \<Longrightarrow> w \<le> 64" and s: "dyn_cast_Constant val = None \<Longrightarrow> 8 dvd w"
  shows "\<exists>os'. write_at A env (os, mem) off val = Some (os', mem) \<and> os_step A \<sigma> os
     (\<lambda>j. if off \<le> j \<and> j < off + n then byte_of env n v (j - off) else os_val A \<sigma> os j) os'"
proof -
  have sz: "m_size os < 2 ^ 32" and sh: "\<not> m_isSharedConcrete os" using ok by (simp_all add: os_ok_def os_wf_def buffers_wf_def)
  have u: "to_u32 (off + i) = off + i" if "i \<le> n" for i using that b sz by (simp add: to_u32_less)
  have w: "getWidth A val = w" using val by (simp add: denotes_def)
  have nw: "(getWidth A val + 7) div 8 = n" using w n by simp
  define idx where "idx i = (if isLittleEndian env then i else n - i - 1)" for i
  have le: "idx i \<le> n" if "i < n" for i using that by (simp add: idx_def)
  show ?thesis
  proof (cases "dyn_cast_Constant val")
    case (Some CE)
    then have cw: "getBitWidth A CE \<le> 64" and cv: "ap_getZExtValue A CE = nat v" and v0: "0 \<le> v"
      using c val zext_value [of CE] uint_fits [of CE] by (auto simp: denotes_def fits_def)
    let ?g = "\<lambda>s i. write_byte s (to_u32 (off + idx i)) (word_of_nat (drop_bit (8 * i) (ap_getZExtValue A CE)))"
    have "\<exists>s'. foldM ?g (os, mem) [0..<n] = Some s' \<and> snd s' = mem \<and> os_step A \<sigma> os
       (\<lambda>j. if off \<le> j \<and> j < off + n then byte_of env n v (j - off) else os_val A \<sigma> os j) (fst s')"
    proof (rule write_bytes_step [OF ok b])
      fix s :: "'a object_state \<times> (nat \<Rightarrow> 8 word)" and k i
      assume h: "os_ok A \<sigma> (fst s)" "m_size (fst s) = m_size os" "i < n"
        "k = off + (if isLittleEndian env then i else n - i - 1)" "k < m_size os" "snd s = mem"
      have k: "to_u32 (off + idx i) = k" using u [OF le [OF h(3)]] h(4) by (simp add: idx_def)
      have uv: "uint (word_of_nat (drop_bit (8 * i) (ap_getZExtValue A CE)) :: 8 word) = take_bit 8 (drop_bit (8 * i) v)"
        using v0 by (simp add: uint_word_of_nat_byte cv of_nat_drop_bit)
      have "k < m_size (fst s)" using h by simp
      from write_byte_step [OF h(1) this, of mem "word_of_nat (drop_bit (8 * i) (ap_getZExtValue A CE))", unfolded uv]
      obtain os' where "write_byte (fst s, mem) k (word_of_nat (drop_bit (8 * i) (ap_getZExtValue A CE))) = Some (os', mem)"
        "os_step A \<sigma> (fst s) (\<lambda>j. if j = k then take_bit 8 (drop_bit (8 * i) v) else os_val A \<sigma> (fst s) j) os'" by blast
      then show "\<exists>s'. ?g s i = Some s' \<and> snd s' = mem \<and> os_step A \<sigma> (fst s)
          (\<lambda>j. if j = k then take_bit 8 (drop_bit (8 * i) v) else os_val A \<sigma> (fst s) j) (fst s')"
        using h(6) k by (intro exI [of _ "(os', mem)"]) (cases s, simp)
    qed simp_all
    moreover have "write_at A env (os, mem) off val = foldM ?g (os, mem) [0..<n]"
      unfolding write_at_def Let_def split nw idx_def using Some cw b u [of n] by simp
    ultimately show ?thesis by auto
  next
    case None
    then have wn: "w = 8 * n" using s n by (auto elim!: dvdE)
    let ?g = "\<lambda>os i. write_known A os (to_u32 (off + idx i)) val i"
    have "\<exists>s'. foldM ?g os [0..<n] = Some s' \<and> True \<and> os_step A \<sigma> os
       (\<lambda>j. if off \<le> j \<and> j < off + n then byte_of env n v (j - off) else os_val A \<sigma> os j) s'"
    proof (rule write_bytes_step [OF ok b, where proj = "\<lambda>s. s"])
      fix s :: "'a object_state" and k i
      assume h: "os_ok A \<sigma> s" "m_size s = m_size os" "i < n"
        "k = off + (if isLittleEndian env then i else n - i - 1)" "k < m_size os"
      have k: "to_u32 (off + idx i) = k" using u [OF le [OF h(3)]] h(4) by (simp add: idx_def)
      have "denotes A \<sigma> (Extract_create A val (8 * i) 8) 8 (take_bit 8 (drop_bit (8 * i) v))"
        using Extract_create_denotes [OF val, of 8 "8 * i"] wn h(3) by simp
      from write_known_step [OF h(1) _ this, of k] h k wn w
      show "\<exists>s'. ?g s i = Some s' \<and> True \<and> os_step A \<sigma> s
          (\<lambda>j. if j = k then take_bit 8 (drop_bit (8 * i) v) else os_val A \<sigma> s j) s'"
        by (simp add: write_known_def)
    qed simp_all
    moreover have "write_at A env (os, mem) off val = map_option (\<lambda>os. (os, mem)) (foldM ?g os [0..<n])"
      unfolding write_at_def Let_def split nw idx_def using None sh b u [of n] by simp
    ultimately show ?thesis by auto
  qed
qed

lemma Add_create_zero:
  assumes "denotes A \<sigma> e 32 v" and "dyn_cast_Constant e = None"
  shows "Add_create A e (ConstantExpr_alloc A 0 32) = e"
  using assms
  by (simp add: Add_create.simps ConstantExpr_alloc_def AddExpr_createPartialR.simps Add_create_const.simps const_isZero_def apint_simps
      denotes_def)

end

context apint
begin

lemma offset_denotes:
  assumes "denotes A \<sigma> offset ow (int i)" and "i < 2 ^ 32"
  shows "denotes A \<sigma> (ZExt_create A offset 32) 32 (int i)"
  using ZExt_create_denotes [OF assms(1), of 32] assms(2) by (simp add: take_bit_int_eq_self)

lemma constant_offset:
  assumes "denotes A \<sigma> e 32 (int i)" and "dyn_cast_Constant e = Some CE"
  shows "ap_getZExtValue A CE = i"
  using assms zext_value [of CE] by (simp add: denotes_def)

lemma os_write_step:
  assumes ok: "os_ok A \<sigma> os" and off: "denotes A \<sigma> offset ow (int i)" and i: "i < m_size os"
    and val: "denotes A \<sigma> val w v"
    and w: "w = 8 \<or> w = 1 \<and> (dyn_cast_Constant val \<noteq> None \<or> dyn_cast_Constant (ZExt_create A offset 32) = None)"
  shows "\<exists>os' cnt'. os_write A env mem (os, cnt) offset val = Some ((os', cnt'), mem) \<and>
    os_step A \<sigma> os (\<lambda>j. if j = i then v else os_val A \<sigma> os j) os'"
proof -
  have sz: "m_size os < 2 ^ 32" using ok by (simp add: os_ok_def os_wf_def buffers_wf_def)
  have gw: "getWidth A val = w" using val by (simp add: denotes_def)
  have f: "fits w v" by (rule denotes_fits [OF val])
  with w have v8: "take_bit 8 v = v" using fits_mono [of w v 8] by (auto simp: fits_iff_take_bit)
  have o: "denotes A \<sigma> (ZExt_create A offset 32) 32 (int i)" using offset_denotes [OF off] i sz by simp
  show ?thesis
  proof (cases "dyn_cast_Constant (ZExt_create A offset 32)")
    case (Some CE)
    note ci = constant_offset [OF o Some]
    have n: "1 = (w + 7) div 8" using w by auto
    have "\<exists>os'. write_at A env (os, mem) i val = Some (os', mem) \<and> os_step A \<sigma> os
       (\<lambda>j. if i \<le> j \<and> j < i + 1 then byte_of env 1 v (j - i) else os_val A \<sigma> os j) os'"
      by (rule write_at_step [OF ok val n]) (use i w Some in auto)
    moreover have "(if i \<le> j \<and> j < i + 1 then byte_of env 1 v (j - i) else os_val A \<sigma> os j) =
        (if j = i then v else os_val A \<sigma> os j)" for j
      using v8 by (auto simp: byte_of_def)
    ultimately show ?thesis using Some ci gw w by (auto simp: os_write_def Let_def)
  next
    case None
    show ?thesis
    proof (cases "w = 1")
      case True
      have z: "denotes A \<sigma> (ZExt_create A val 8) 8 v" using ZExt_create_denotes [OF val, of 8] v8 by simp
      from write8_sym_step [OF ok o None z, of env cnt] True None gw show ?thesis
        by (auto simp: os_write_def Let_def)
    next
      case False
      then have w8: "w = 8" using w by simp
      have x: "denotes A \<sigma> (Extract_create A val 0 8) 8 v" using Extract_create_denotes [OF val, of 8 0] w8 v8 by simp
      have a: "Bin_create A Add (ZExt_create A offset 32) (ConstantExpr_alloc A 0 32) = ZExt_create A offset 32"
        using Add_create_zero [OF o None] by simp
      from write8_sym_step [OF ok o None x, of env cnt] None gw w8 a show ?thesis
        by (auto simp: os_write_def Let_def upt_rec)
    qed
  qed
qed

lemma os_read_step:
  assumes ok: "os_ok A \<sigma> os" and le: "isLittleEndian env" and off: "denotes A \<sigma> offset ow (int i)"
    and b: "i + n \<le> m_size os" and w: "width_ok (n * 8)"
    and nc: "dyn_cast_Constant (ZExt_create A offset 32) = None \<Longrightarrow> \<forall>k. 0 < k \<longrightarrow> k < n \<longrightarrow>
      dyn_cast_Constant (Bin_create A Add (ZExt_create A offset 32) (ConstantExpr_alloc A k 32)) = None"
  shows "\<exists>e os' cnt'. os_read A env mem (os, cnt) offset (n * 8) = Some (Some e, os', cnt') \<and>
    denotes A \<sigma> e (n * 8) (bytes_value (\<lambda>k. os_val A \<sigma> os (i + k)) n) \<and> os_step A \<sigma> os (os_val A \<sigma> os) os'"
proof -
  have sz: "m_size os < 2 ^ 32" using ok by (simp add: os_ok_def os_wf_def buffers_wf_def)
  have n0: "0 < n" and n1: "n * 8 \<noteq> 1" using w by (auto simp: width_ok_def)
  have o: "denotes A \<sigma> (ZExt_create A offset 32) 32 (int i)" using offset_denotes [OF off] b n0 sz by simp
  show ?thesis
  proof (cases "dyn_cast_Constant (ZExt_create A offset 32)")
    case (Some CE)
    with constant_offset [OF o Some] read_at_step [OF ok le b w, of mem cnt] show ?thesis
      by (simp add: os_read_def)
  next
    case None
    let ?e = "\<lambda>k. Bin_create A Add (ZExt_create A offset 32) (ConstantExpr_alloc A k 32)"
    have e: "denotes A \<sigma> (?e k) 32 (int (i + k)) \<and> dyn_cast_Constant (?e k) = None" if "k < n" for k
    proof (cases "k = 0")
      case True
      then show ?thesis using Add_create_zero [OF o None] o None by simp
    next
      case False
      have "i + k < 2 ^ 32" using that b sz by simp
      then show ?thesis
        using False that nc [OF None] Add_create_denotes [OF o denotes_offset, of k] by (simp add: take_bit_int_eq_self)
    qed
    have "\<exists>e s'. read_loop A env (\<lambda>s idx. read8_sym A env s (?e idx)) n [0..<n] None (os, cnt) = Some (Some e, s') \<and>
      os_step A \<sigma> os (os_val A \<sigma> os) (fst s') \<and> denotes A \<sigma> e (n * 8) (bytes_value (\<lambda>k. os_val A \<sigma> os (i + k)) n)"
    proof (rule read_loop_start [OF le w, where I = "\<lambda>s. os_step A \<sigma> os (os_val A \<sigma> os) (fst s)"])
      fix s :: "'a os_state" and k assume k: "k < n" and s: "os_step A \<sigma> os (os_val A \<sigma> os) (fst s)"
      have ik: "i + k < m_size os" using k b by simp
      have s': "os_ok A \<sigma> (fst s)" "m_size (fst s) = m_size os" "os_val A \<sigma> (fst s) (i + k) = os_val A \<sigma> os (i + k)"
        using s ik os_step_size [OF s] by (simp_all add: os_step_def)
      with read8_sym_step [OF s'(1) conjunct1 [OF e [OF k]] conjunct2 [OF e [OF k]], of env "snd s"] ik obtain e' os' n' where
        r: "read8_sym A env s (?e k) = Some (e', os', n')" "denotes A \<sigma> e' 8 (os_val A \<sigma> os (i + k))"
        "os_step A \<sigma> (fst s) (os_val A \<sigma> (fst s)) os'" by auto
      have "os_step A \<sigma> os (os_val A \<sigma> os) os'"
        by (rule os_step_trans [OF s r(3)]) (use s in \<open>simp add: os_step_def\<close>)
      with r show "\<exists>e' s'. read8_sym A env s (?e k) = Some (e', s') \<and>
          denotes A \<sigma> e' 8 (os_val A \<sigma> os (i + k)) \<and> os_step A \<sigma> os (os_val A \<sigma> os) (fst s')" by simp
    qed (use ok in \<open>simp add: os_step_def\<close>)
    then show ?thesis using None n1 by (auto simp: os_read_def)
  qed
qed

end

section \<open>New objects, copies and parts\<close>

lemma os_new_ok:
  assumes "os_new ptr address sz fixed = Some os" and "0 < sz" and "sz < 2 ^ 32"
  shows "os_ok A \<sigma> os \<and> m_size os = sz \<and> (\<forall>i < sz. os_val A \<sigma> os i = 0)"
proof -
  have [simp]: "to_u32 sz = sz" using assms(3) by (rule to_u32_less)
  have f: "m_size os = sz" "m_bufferOffset os = 0" "m_concreteMask os = None" "m_flushMask os = None" "m_knownSymbolics os = []"
    "m_updates os = None" "\<not> m_isSharedConcrete os" "m_fastConcreteBuffer os = replicate 8 0"
    "m_concreteBuffer os = (if sz > 8 then Some (replicate sz 0) else None)"
    using assms(1) by (auto simp: os_new_def buffer_create_def FAST_CONCRETE_BUFFER_SIZE_def split: if_splits)
  have b: "os_byte os i = Some 0" if "i < sz" for i
    using that by (auto simp: os_byte_def getConcreteBuffer_def FAST_CONCRETE_BUFFER_SIZE_def f)
  have "os_wf A \<sigma> os"
    using assms(2,3) by (auto simp: os_wf_def buffers_wf_def masks_wf_def known_wf_def updates_wf_def known_at_def f)
  moreover have "cache_wf A \<sigma> os" by (simp add: cache_wf_def isByteConcrete_def isByteFlushed_def known_at_def f)
  moreover have "flush_wf os" by (simp add: flush_wf_def f)
  ultimately show ?thesis using b by (simp add: os_ok_def os_val_def isByteConcrete_def f)
qed

lemma os_copy_eq: "os_ok A \<sigma> os \<Longrightarrow> \<not> m_readOnly os \<Longrightarrow> os_copy os = Some os"
  by (cases "m_concreteMask os"; cases "m_flushMask os"; cases "m_concreteBuffer os")
    (simp_all add: os_copy_def os_ok_def os_wf_def masks_wf_def ba_copy_eq buffer_copy_def)


section \<open>Properties\<close>

text \<open>An object of 16 bytes, a symbolic byte and a symbolic offset for the examples.\<close>

definition ex_os :: "bool list object_state" where
  "ex_os = the (os_new 4096 0 16 False)"

definition ex_env :: os_env where
  "ex_env = \<lparr>new_array = (\<lambda>n. n), utostr = (\<lambda>n. replicate n CHR ''i''), isLittleEndian = True\<rparr>"





lemma ex_os_ok: "os_ok A \<sigma> ex_os \<and> m_size ex_os = 16 \<and> (\<forall>i < 16. os_val A \<sigma> ex_os i = 0)"
proof -
  have "os_new 4096 0 16 False = Some ex_os" by (simp add: ex_os_def os_new_def)
  from os_new_ok [OF this] show ?thesis by simp
qed

lemma splittable_frame [simp]:
  "isByteConcrete (os\<lparr>m_splittable := b\<rparr>) j = isByteConcrete os j" "isByteFlushed (os\<lparr>m_splittable := b\<rparr>) j = isByteFlushed os j"
  "known_at (os\<lparr>m_splittable := b\<rparr>) j = known_at os j" "os_byte (os\<lparr>m_splittable := b\<rparr>) j = os_byte os j"
  "list_val A \<sigma> (os\<lparr>m_splittable := b\<rparr>) j = list_val A \<sigma> os j" "buffers_wf (os\<lparr>m_splittable := b\<rparr>) = buffers_wf os"
  "masks_wf (os\<lparr>m_splittable := b\<rparr>) = masks_wf os" "known_wf A \<sigma> (os\<lparr>m_splittable := b\<rparr>) = known_wf A \<sigma> os"
  "updates_wf A \<sigma> (os\<lparr>m_splittable := b\<rparr>) = updates_wf A \<sigma> os" "flush_wf (os\<lparr>m_splittable := b\<rparr>) = flush_wf os"
  by (simp_all add: view_defs cong: option.case_cong prod.case_cong)

lemma splittable_ok [simp]:
  "os_val A \<sigma> (os\<lparr>m_splittable := b\<rparr>) j = os_val A \<sigma> os j" "os_ok A \<sigma> (os\<lparr>m_splittable := b\<rparr>) = os_ok A \<sigma> os"
proof -
  show v: "os_val A \<sigma> (os\<lparr>m_splittable := b\<rparr>) j = os_val A \<sigma> os j" for j
    by (simp add: os_val_def cong: option.case_cong)
  show "os_ok A \<sigma> (os\<lparr>m_splittable := b\<rparr>) = os_ok A \<sigma> os"
    by (simp add: os_ok_def os_wf_def cache_wf_def v)
qed





text \<open>
  C20.  What \<open>write\<close> stores at a constant offset, \<open>read\<close> of the same width returns: an expression with the value
  of the one written, whether that was constant or symbolic.
\<close>

theorem write_read_roundtrip:
  assumes "apint A" and "os_ok A \<sigma> os" and "isLittleEndian env" and "denotes A \<sigma> val (n * 8) v" and "off + n \<le> m_size os"
    and "dyn_cast_Constant val = None \<or> n \<le> 8"
  shows "\<exists>os' e s'. write_at A env (os, mem) off val = Some (os', mem) \<and>
    read_at A env mem (os', cnt) off (n * 8) = Some (Some e, s') \<and> denotes A \<sigma> e (n * 8) v"
proof -
  have c: "dyn_cast_Constant val \<noteq> None \<Longrightarrow> n * 8 \<le> 64" and d: "dyn_cast_Constant val = None \<Longrightarrow> 8 dvd n * 8" and n: "n = (n * 8 + 7) div 8"
    using assms(6) by auto
  obtain os' where w: "write_at A env (os, mem) off val = Some (os', mem)" and s: "os_step A \<sigma> os
     (\<lambda>j. if off \<le> j \<and> j < off + n then byte_of env n v (j - off) else os_val A \<sigma> os j) os'"
    using apint.write_at_step [OF assms(1,2,4) n assms(5) c d, of env mem] by blast
  have ok: "os_ok A \<sigma> os'" and b: "off + n \<le> m_size os'" using s os_step_size [OF s] assms(5) by (simp_all add: os_step_def)
  obtain e s' where r: "read_at A env mem (os', cnt) off (n * 8) = Some (Some e, s')"
    "denotes A \<sigma> e (n * 8) (bytes_value (\<lambda>i. os_val A \<sigma> os' (off + i)) n)"
    using apint.read_at_step [OF assms(1) ok assms(3) b apint.denotes_width_ok [OF assms(1,4)], of mem cnt] by blast
  have "bytes_value (\<lambda>i. os_val A \<sigma> os' (off + i)) n = bytes_value (byte_of env n v) n"
    by (rule bytes_value_cong) (use s assms(5) in \<open>simp add: os_step_def\<close>)
  also have "\<dots> = v" using bytes_value_of [OF assms(3), of n v] apint.denotes_fits [OF assms(1,4)] by (simp add: fits_iff_take_bit)
  finally show ?thesis using w r by blast
qed

theorem write_read_roundtrip_witness:
  "\<exists>os' e s'. write_at (bv_ops False) ex_env (ex_os, \<lambda>_. 0) 3 (ConstantExpr (bv 32 0x12345678)) = Some (os', \<lambda>_. 0) \<and>
    read_at (bv_ops False) ex_env (\<lambda>_. 0) (os', 0) 3 (4 * 8) = Some (Some e, s') \<and>
    denotes (bv_ops False) (\<lambda>_ _. 0) e (4 * 8) 0x12345678"
  by (rule write_read_roundtrip [OF bv.apint_axioms])
    (use ex_os_ok in \<open>simp_all add: ex_env_def denotes_def width_ok_def\<close>)





text \<open>
  C23.  In a big-endian context no read of more than one byte succeeds: the loop starts with the byte at the
  highest offset and concatenates it with the null reference.
\<close>

theorem read_big_endian_fails:
  assumes "\<not> isLittleEndian env" and "2 \<le> n"
  shows "read_at A env mem s off (n * 8) = None \<and> os_read A env mem s offset (n * 8) = None"
proof -
  have "[0..<n] = 0 # [1..<n]" using assms(2) by (simp add: upt_conv_Cons)
  then have "read_loop A env rd n [0..<n] None s = None" for rd :: "'a os_state \<Rightarrow> nat \<Rightarrow> ('a expr \<times> 'a os_state) option"
    using assms by (cases "rd s (n - Suc 0)") auto
  moreover have "n * 8 \<noteq> 1" by presburger
  ultimately show ?thesis by (simp add: read_at_def os_read_def Let_def split: option.split)
qed

theorem read_big_endian_fails_witness:
  "read_at (bv_ops False) (ex_env\<lparr>isLittleEndian := False\<rparr>) (\<lambda>_. 0) (ex_os, 0) 0 (2 * 8) = None"
  by (rule read_big_endian_fails [THEN conjunct1]) simp_all




end
