(* ===== verification/ImmutableTree.thy ===== *)
theory ImmutableTree
  imports Prelude
begin

text \<open>
  The persistent balanced search tree of \<open>klee/Internal/ADT/ImmutableTree.h\<close> and the map of
  \<open>klee/Internal/ADT/ImmutableMap.h\<close> on top of it.

  \<open>cmp\<close> stands for the template parameter \<open>CMP\<close> and \<open>kov\<close> for \<open>KOV\<close>.  A node is a value, since nodes are
  never changed: reference counting and the cache of freed nodes are left out.  The iterators compare node
  pointers only with the children of a node, which differ as trees if the keys do.
\<close>

section \<open>Nodes\<close>

text \<open>\<open>class Node\<close>; the terminator has no value and is its own child.\<close>

datatype 'v node = Terminator | Node (left_sub: "'v node") (right_sub: "'v node") (node_value: 'v) (node_height: nat)
  where "left_sub Terminator = Terminator"
      | "right_sub Terminator = Terminator"
      | "node_height Terminator = 0"

definition isTerminator :: "'v node \<Rightarrow> bool" where
  "isTerminator n \<longleftrightarrow> n = Terminator"

definition create :: "'v node \<Rightarrow> 'v node \<Rightarrow> 'v \<Rightarrow> 'v node" where
  "create l r v = Node l r v (max (node_height l) (node_height r) + 1)"

definition balance :: "'v node \<Rightarrow> 'v \<Rightarrow> 'v node \<Rightarrow> 'v node" where
  "balance l v r =
     (if node_height l > node_height r + 2 then
        let ll = left_sub l; lr = right_sub l in
        if node_height ll \<ge> node_height lr then create ll (create lr r v) (node_value l)
        else create (create ll (left_sub lr) (node_value l)) (create (right_sub lr) r v) (node_value lr)
      else if node_height r > node_height l + 2 then
        let rl = left_sub r; rr = right_sub r in
        if node_height rr \<ge> node_height rl then create (create l rl v) rr (node_value r)
        else create (create l (left_sub rl) v) (create (right_sub rl) rr (node_value r)) (node_value rl)
      else create l r v)"

fun node_size :: "'v node \<Rightarrow> nat" where
  "node_size Terminator = 0"
| "node_size (Node l r v h) = node_size l + 1 + node_size r"

text \<open>\<open>popMin\<close> and \<open>popMax\<close> of the terminator copy its uninitialised value.\<close>

fun node_popMin :: "'v node \<Rightarrow> ('v \<times> 'v node) option" where
  "node_popMin Terminator = None"
| "node_popMin (Node l r v h) =
     (if isTerminator l then Some (v, r) else map_option (\<lambda>(x, l'). (x, balance l' v r)) (node_popMin l))"


fun node_insert :: "('k \<Rightarrow> 'k \<Rightarrow> bool) \<Rightarrow> ('v \<Rightarrow> 'k) \<Rightarrow> 'v \<Rightarrow> 'v node \<Rightarrow> 'v node" where
  "node_insert cmp kov v Terminator = create Terminator Terminator v"
| "node_insert cmp kov v (Node l r x h) =
     (if cmp (kov v) (kov x) then balance (node_insert cmp kov v l) x r
      else if cmp (kov x) (kov v) then balance l x (node_insert cmp kov v r)
      else Node l r x h)"

fun node_replace :: "('k \<Rightarrow> 'k \<Rightarrow> bool) \<Rightarrow> ('v \<Rightarrow> 'k) \<Rightarrow> 'v \<Rightarrow> 'v node \<Rightarrow> 'v node" where
  "node_replace cmp kov v Terminator = create Terminator Terminator v"
| "node_replace cmp kov v (Node l r x h) =
     (if cmp (kov v) (kov x) then balance (node_replace cmp kov v l) x r
      else if cmp (kov x) (kov v) then balance l x (node_replace cmp kov v r)
      else create l r v)"

fun node_remove :: "('k \<Rightarrow> 'k \<Rightarrow> bool) \<Rightarrow> ('v \<Rightarrow> 'k) \<Rightarrow> 'k \<Rightarrow> 'v node \<Rightarrow> 'v node" where
  "node_remove cmp kov k Terminator = Terminator"
| "node_remove cmp kov k (Node l r x h) =
     (if cmp k (kov x) then balance (node_remove cmp kov k l) x r
      else if cmp (kov x) k then balance l x (node_remove cmp kov k r)
      else if isTerminator l then r
      else if isTerminator r then l
      else case node_popMin r of Some (m, nr) \<Rightarrow> balance l m nr | None \<Rightarrow> Terminator)"

section \<open>Lookups\<close>

fun tree_lookup :: "('k \<Rightarrow> 'k \<Rightarrow> bool) \<Rightarrow> ('v \<Rightarrow> 'k) \<Rightarrow> 'k \<Rightarrow> 'v node \<Rightarrow> 'v option" where
  "tree_lookup cmp kov k Terminator = None"
| "tree_lookup cmp kov k (Node l r x h) =
     (if cmp k (kov x) then tree_lookup cmp kov k l
      else if cmp (kov x) k then tree_lookup cmp kov k r
      else Some x)"

fun tree_count :: "('k \<Rightarrow> 'k \<Rightarrow> bool) \<Rightarrow> ('v \<Rightarrow> 'k) \<Rightarrow> 'k \<Rightarrow> 'v node \<Rightarrow> nat" where
  "tree_count cmp kov k Terminator = 0"
| "tree_count cmp kov k (Node l r x h) =
     (if cmp k (kov x) then tree_count cmp kov k l
      else if cmp (kov x) k then tree_count cmp kov k r
      else 1)"

text \<open>The loop of \<open>lookup_previous\<close>, with \<open>result\<close>.\<close>

fun lookup_previous_loop :: "('k \<Rightarrow> 'k \<Rightarrow> bool) \<Rightarrow> ('v \<Rightarrow> 'k) \<Rightarrow> 'k \<Rightarrow> 'v option \<Rightarrow> 'v node \<Rightarrow> 'v option" where
  "lookup_previous_loop cmp kov k result Terminator = result"
| "lookup_previous_loop cmp kov k result (Node l r x h) =
     (if cmp k (kov x) then lookup_previous_loop cmp kov k result l
      else if cmp (kov x) k then lookup_previous_loop cmp kov k (Some x) r
      else Some x)"

definition tree_lookup_previous :: "('k \<Rightarrow> 'k \<Rightarrow> bool) \<Rightarrow> ('v \<Rightarrow> 'k) \<Rightarrow> 'k \<Rightarrow> 'v node \<Rightarrow> 'v option" where
  "tree_lookup_previous cmp kov k t = lookup_previous_loop cmp kov k None t"

fun tree_min :: "'v node \<Rightarrow> 'v option" where
  "tree_min Terminator = None"
| "tree_min (Node l r x h) = (if isTerminator l then Some x else tree_min l)"

fun tree_max :: "'v node \<Rightarrow> 'v option" where
  "tree_max Terminator = None"
| "tree_max (Node l r x h) = (if isTerminator r then Some x else tree_max r)"

section \<open>Iterators\<close>

text \<open>
  The stack of an iterator holds the path from the current node, its head, to the root; the end has the empty
  stack.  \<open>FixedStack\<close> has room for as many nodes as the root is high, \<open>None\<close> stands for a write beyond that.
\<close>

record 'v iterator =
  it_root :: "'v node"
  it_stack :: "'v node list"

definition push_back :: "'v iterator \<Rightarrow> 'v node \<Rightarrow> 'v iterator option" where
  "push_back it n =
     (if length (it_stack it) < node_height (it_root it) then Some (it\<lparr>it_stack := n # it_stack it\<rparr>) else None)"

fun push_left :: "'v iterator \<Rightarrow> 'v node \<Rightarrow> 'v iterator option" where
  "push_left it Terminator = Some it"
| "push_left it (Node l r x h) = do { it \<leftarrow> push_back it (Node l r x h); push_left it l }"

fun push_right :: "'v iterator \<Rightarrow> 'v node \<Rightarrow> 'v iterator option" where
  "push_right it Terminator = Some it"
| "push_right it (Node l r x h) = do { it \<leftarrow> push_back it (Node l r x h); push_right it r }"

definition new_iterator :: "'v node \<Rightarrow> bool \<Rightarrow> 'v iterator option" where
  "new_iterator root atBeginning =
     (let it = \<lparr>it_root = root, it_stack = []\<rparr> in if atBeginning then push_left it root else Some it)"

definition tree_begin :: "'v node \<Rightarrow> 'v iterator option" where
  "tree_begin t = new_iterator t True"

definition tree_end :: "'v node \<Rightarrow> 'v iterator option" where
  "tree_end t = new_iterator t False"

definition deref :: "'v iterator \<Rightarrow> 'v option" where
  "deref it = (case it_stack it of [] \<Rightarrow> None | n # _ \<Rightarrow> Some (node_value n))"

text \<open>The loops that pop nodes until the path came from a left or from a right child.\<close>

fun pop_until_left :: "'v node \<Rightarrow> 'v node list \<Rightarrow> 'v node list" where
  "pop_until_left prev [] = []"
| "pop_until_left prev (n # st) = (if prev = left_sub n then n # st else pop_until_left n st)"

fun pop_until_right :: "'v node \<Rightarrow> 'v node list \<Rightarrow> 'v node list" where
  "pop_until_right prev [] = []"
| "pop_until_right prev (n # st) = (if prev = right_sub n then n # st else pop_until_right n st)"

definition it_incr :: "'v iterator \<Rightarrow> 'v iterator option" where
  "it_incr it =
     (case it_stack it of
        [] \<Rightarrow> None
      | n # st \<Rightarrow>
          if isTerminator (right_sub n) then Some (it\<lparr>it_stack := pop_until_left n st\<rparr>)
          else do { it \<leftarrow> push_back it (right_sub n); push_left it (left_sub (right_sub n)) })"

definition it_decr :: "'v iterator \<Rightarrow> 'v iterator option" where
  "it_decr it =
     (case it_stack it of
        [] \<Rightarrow> push_right it (it_root it)
      | n # st \<Rightarrow>
          if isTerminator (left_sub n) then Some (it\<lparr>it_stack := pop_until_right n st\<rparr>)
          else do { it \<leftarrow> push_back it (left_sub n); push_right it (right_sub (left_sub n)) })"

text \<open>The loop of \<open>lower_bound\<close>; the flag says that it returned from inside.\<close>

fun lower_bound_loop :: "('k \<Rightarrow> 'k \<Rightarrow> bool) \<Rightarrow> ('v \<Rightarrow> 'k) \<Rightarrow> 'k \<Rightarrow> 'v node \<Rightarrow> 'v iterator \<Rightarrow> (bool \<times> 'v iterator) option" where
  "lower_bound_loop cmp kov k Terminator it = Some (False, it)"
| "lower_bound_loop cmp kov k (Node l r x h) it =
     do {
       it \<leftarrow> push_back it (Node l r x h);
       if cmp k (kov x) then lower_bound_loop cmp kov k l it
       else if cmp (kov x) k then lower_bound_loop cmp kov k r it
       else Some (True, it)
     }"

definition tree_lower_bound :: "('k \<Rightarrow> 'k \<Rightarrow> bool) \<Rightarrow> ('v \<Rightarrow> 'k) \<Rightarrow> 'k \<Rightarrow> 'v node \<Rightarrow> 'v iterator option" where
  "tree_lower_bound cmp kov k t =
     do {
       it \<leftarrow> new_iterator t False;
       (found, it) \<leftarrow> lower_bound_loop cmp kov k t it;
       if found then Some it
       else case it_stack it of
         [] \<Rightarrow> Some it
       | n # _ \<Rightarrow> if cmp (kov (node_value n)) k then it_incr it else Some it
     }"

definition tree_find :: "('k \<Rightarrow> 'k \<Rightarrow> bool) \<Rightarrow> ('v \<Rightarrow> 'k) \<Rightarrow> 'k \<Rightarrow> 'v node \<Rightarrow> 'v iterator option" where
  "tree_find cmp kov k t =
     do {
       end_it \<leftarrow> new_iterator t False;
       it \<leftarrow> tree_lower_bound cmp kov k t;
       case deref it of None \<Rightarrow> Some end_it | Some x \<Rightarrow> Some (if cmp k (kov x) then end_it else it)
     }"

definition tree_upper_bound :: "('k \<Rightarrow> 'k \<Rightarrow> bool) \<Rightarrow> ('v \<Rightarrow> 'k) \<Rightarrow> 'k \<Rightarrow> 'v node \<Rightarrow> 'v iterator option" where
  "tree_upper_bound cmp kov k t =
     do {
       it \<leftarrow> tree_lower_bound cmp kov k t;
       case deref it of None \<Rightarrow> Some it | Some x \<Rightarrow> if \<not> cmp k (kov x) then it_incr it else Some it
     }"

section \<open>Balance\<close>

fun inorder :: "'v node \<Rightarrow> 'v list" where
  "inorder Terminator = []"
| "inorder (Node l r v h) = inorder l @ v # inorder r"

text \<open>The heights are right and those of siblings differ by at most 2.\<close>

fun avl :: "'v node \<Rightarrow> bool" where
  "avl Terminator = True"
| "avl (Node l r v h) \<longleftrightarrow> avl l \<and> avl r \<and> h = max (node_height l) (node_height r) + 1 \<and>
     node_height l \<le> node_height r + 2 \<and> node_height r \<le> node_height l + 2"

lemma inorder_create [simp]: "inorder (create l r v) = inorder l @ v # inorder r"
  by (simp add: create_def)

lemma height_create [simp]: "node_height (create l r v) = max (node_height l) (node_height r) + 1"
  by (simp add: create_def)

lemma avl_create [simp]: "avl (create l r v) \<longleftrightarrow> avl l \<and> avl r \<and>
    node_height l \<le> node_height r + 2 \<and> node_height r \<le> node_height l + 2"
  by (simp add: create_def)

lemma height_pos: "0 < node_height t \<Longrightarrow> \<exists>l r v h. t = Node l r v h"
  by (cases t) auto

lemma inorder_balance [simp]: "inorder (balance l v r) = inorder l @ v # inorder r"
proof -
  have n: "inorder t = inorder (left_sub t) @ node_value t # inorder (right_sub t)" if "0 < node_height t" for t :: "'a node"
    using height_pos [OF that] by auto
  show ?thesis
    using n [of l] n [of r] n [of "right_sub l"] n [of "left_sub r"]
    by (auto simp: balance_def Let_def)
qed

text \<open>What an operation that changes the height of a subtree by at most 1 leaves for \<open>balance\<close>.\<close>

lemma avl_balance:
  assumes "avl l" and "avl r" and "node_height l \<le> node_height r + 3" and "node_height r \<le> node_height l + 3"
  shows "avl (balance l v r)"
    and "node_height (balance l v r) \<le> max (node_height l) (node_height r) + 1"
    and "max (node_height l) (node_height r) \<le> node_height (balance l v r)"
proof -
  have "avl (balance l v r) \<and> node_height (balance l v r) \<le> max (node_height l) (node_height r) + 1 \<and>
    max (node_height l) (node_height r) \<le> node_height (balance l v r)"
  proof (cases "node_height l > node_height r + 2")
    case L: True
    then obtain ll lr lv lh where l: "l = Node ll lr lv lh" using height_pos [of l] by auto
    show ?thesis
    proof (cases "node_height ll \<ge> node_height lr")
      case True
      then show ?thesis using L assms l by (auto simp: balance_def)
    next
      case False
      then obtain a b x h where "lr = Node a b x h" using height_pos [of lr] by auto
      then show ?thesis using False L assms l by (auto simp: balance_def)
    qed
  next
    case notL: False
    show ?thesis
    proof (cases "node_height r > node_height l + 2")
      case R: True
      then obtain rl rr rv rh where r: "r = Node rl rr rv rh" using height_pos [of r] by auto
      show ?thesis
      proof (cases "node_height rr \<ge> node_height rl")
        case True
        then show ?thesis using R notL assms r by (auto simp: balance_def)
      next
        case False
        then obtain a b x h where "rl = Node a b x h" using height_pos [of rl] by auto
        then show ?thesis using False R notL assms r by (auto simp: balance_def)
      qed
    next
      case False
      then show ?thesis using notL assms by (auto simp: balance_def)
    qed
  qed
  then show "avl (balance l v r)" "node_height (balance l v r) \<le> max (node_height l) (node_height r) + 1"
    "max (node_height l) (node_height r) \<le> node_height (balance l v r)" by blast+
qed

lemma height_balance:
  "node_height l \<le> node_height r + 2 \<Longrightarrow> node_height r \<le> node_height l + 2 \<Longrightarrow>
   node_height (balance l v r) = max (node_height l) (node_height r) + 1"
  by (simp add: balance_def)

text \<open>
  A balanced node with a subtree replaced by one that is at most 1 higher, or at most 1 lower.
\<close>

lemma balance_higher:
  assumes "avl (Node l r v h)"
  shows "avl l' \<Longrightarrow> node_height l \<le> node_height l' \<Longrightarrow> node_height l' \<le> node_height l + 1 \<Longrightarrow>
      avl (balance l' x r) \<and> h \<le> node_height (balance l' x r) \<and> node_height (balance l' x r) \<le> h + 1"
    and "avl r' \<Longrightarrow> node_height r \<le> node_height r' \<Longrightarrow> node_height r' \<le> node_height r + 1 \<Longrightarrow>
      avl (balance l x r') \<and> h \<le> node_height (balance l x r') \<and> node_height (balance l x r') \<le> h + 1"
proof -
  assume "avl l'" "node_height l \<le> node_height l'" "node_height l' \<le> node_height l + 1"
  with assms avl_balance [of l' r x] height_balance [of l' r x]
  show "avl (balance l' x r) \<and> h \<le> node_height (balance l' x r) \<and> node_height (balance l' x r) \<le> h + 1"
    by (cases "node_height l' \<le> node_height r + 2") auto
next
  assume "avl r'" "node_height r \<le> node_height r'" "node_height r' \<le> node_height r + 1"
  with assms avl_balance [of l r' x] height_balance [of l r' x]
  show "avl (balance l x r') \<and> h \<le> node_height (balance l x r') \<and> node_height (balance l x r') \<le> h + 1"
    by (cases "node_height r' \<le> node_height l + 2") auto
qed

lemma balance_lower:
  assumes "avl (Node l r v h)"
  shows "avl l' \<Longrightarrow> node_height l' \<le> node_height l \<Longrightarrow> node_height l \<le> node_height l' + 1 \<Longrightarrow>
      avl (balance l' x r) \<and> node_height (balance l' x r) \<le> h \<and> h \<le> node_height (balance l' x r) + 1"
    and "avl r' \<Longrightarrow> node_height r' \<le> node_height r \<Longrightarrow> node_height r \<le> node_height r' + 1 \<Longrightarrow>
      avl (balance l x r') \<and> node_height (balance l x r') \<le> h \<and> h \<le> node_height (balance l x r') + 1"
proof -
  assume "avl l'" "node_height l' \<le> node_height l" "node_height l \<le> node_height l' + 1"
  with assms avl_balance [of l' r x] height_balance [of l' r x]
  show "avl (balance l' x r) \<and> node_height (balance l' x r) \<le> h \<and> h \<le> node_height (balance l' x r) + 1"
    by (cases "node_height r \<le> node_height l' + 2") auto
next
  assume "avl r'" "node_height r' \<le> node_height r" "node_height r \<le> node_height r' + 1"
  with assms avl_balance [of l r' x] height_balance [of l r' x]
  show "avl (balance l x r') \<and> node_height (balance l x r') \<le> h \<and> h \<le> node_height (balance l x r') + 1"
    by (cases "node_height l \<le> node_height r' + 2") auto
qed

lemma avl_insert:
  "avl t \<Longrightarrow> avl (node_insert cmp kov v t) \<and> node_height t \<le> node_height (node_insert cmp kov v t) \<and>
     node_height (node_insert cmp kov v t) \<le> node_height t + 1"
proof (induction t)
  case (Node l r x h)
  then show ?case using balance_higher [OF Node.prems] by auto
qed simp

lemma avl_replace:
  "avl t \<Longrightarrow> avl (node_replace cmp kov v t) \<and> node_height t \<le> node_height (node_replace cmp kov v t) \<and>
     node_height (node_replace cmp kov v t) \<le> node_height t + 1"
proof (induction t)
  case (Node l r x h)
  then show ?case using balance_higher [OF Node.prems] by auto
qed simp

lemma popMin_Some:
  "t \<noteq> Terminator \<Longrightarrow> \<exists>m t'. node_popMin t = Some (m, t') \<and> inorder t = m # inorder t' \<and>
    (avl t \<longrightarrow> avl t' \<and> node_height t' \<le> node_height t \<and> node_height t \<le> node_height t' + 1)"
proof (induction t)
  case (Node l r x h)
  show ?case
  proof (cases "l = Terminator")
    case True
    then show ?thesis by (auto simp: isTerminator_def)
  next
    case False
    with Node.IH(1) obtain m l' where m: "node_popMin l = Some (m, l')" "inorder l = m # inorder l'"
      "avl l \<longrightarrow> avl l' \<and> node_height l' \<le> node_height l \<and> node_height l \<le> node_height l' + 1" by blast
    then show ?thesis using False balance_lower(1) [of l r x h l'] by (auto simp: isTerminator_def)
  qed
qed simp


lemma avl_remove:
  "avl t \<Longrightarrow> avl (node_remove cmp kov k t) \<and> node_height (node_remove cmp kov k t) \<le> node_height t \<and>
     node_height t \<le> node_height (node_remove cmp kov k t) + 1"
proof (induction t)
  case (Node l r x h)
  note lower = balance_lower [OF Node.prems]
  have found: "avl t' \<and> node_height t' \<le> h \<and> h \<le> node_height t' + 1"
    if "t' = (if isTerminator l then r else if isTerminator r then l
      else case node_popMin r of Some (m, nr) \<Rightarrow> balance l m nr | None \<Rightarrow> Terminator)" for t'
  proof (cases "l = Terminator \<or> r = Terminator")
    case True
    then show ?thesis using that Node.prems by (auto simp: isTerminator_def)
  next
    case False
    with popMin_Some [of r] Node.prems that lower(2) show ?thesis by (auto simp: isTerminator_def)
  qed
  show ?case using Node lower found by auto
qed simp


section \<open>Order\<close>

text \<open>
  What the tree needs of \<open>CMP\<close>: on the keys in use it is a strict partial order.  Keys that are not ordered
  are the same to the tree.
\<close>

definition same_key :: "('k \<Rightarrow> 'k \<Rightarrow> bool) \<Rightarrow> 'k \<Rightarrow> 'k \<Rightarrow> bool" where
  "same_key cmp a b \<longleftrightarrow> \<not> cmp a b \<and> \<not> cmp b a"

definition sorted_keys :: "('k \<Rightarrow> 'k \<Rightarrow> bool) \<Rightarrow> ('v \<Rightarrow> 'k) \<Rightarrow> 'v list \<Rightarrow> bool" where
  "sorted_keys cmp kov xs \<longleftrightarrow> sorted_wrt (\<lambda>x y. cmp (kov x) (kov y)) xs"

definition tree_inv :: "('k \<Rightarrow> 'k \<Rightarrow> bool) \<Rightarrow> ('v \<Rightarrow> 'k) \<Rightarrow> ('k \<Rightarrow> bool) \<Rightarrow> 'v node \<Rightarrow> bool" where
  "tree_inv cmp kov ok t \<longleftrightarrow> avl t \<and> sorted_keys cmp kov (inorder t) \<and> (\<forall>x \<in> set (inorder t). ok (kov x))"

text \<open>At most one entry of the tree has the key.\<close>

definition single_key :: "('k \<Rightarrow> 'k \<Rightarrow> bool) \<Rightarrow> ('v \<Rightarrow> 'k) \<Rightarrow> 'k \<Rightarrow> 'v list \<Rightarrow> bool" where
  "single_key cmp kov k xs \<longleftrightarrow> (\<forall>x \<in> set xs. \<forall>y \<in> set xs. same_key cmp k (kov x) \<longrightarrow> same_key cmp k (kov y) \<longrightarrow> x = y)"

text \<open>The operations on the sorted list of entries.\<close>

fun ins_list :: "('k \<Rightarrow> 'k \<Rightarrow> bool) \<Rightarrow> ('v \<Rightarrow> 'k) \<Rightarrow> 'v \<Rightarrow> 'v list \<Rightarrow> 'v list" where
  "ins_list cmp kov v [] = [v]"
| "ins_list cmp kov v (x # xs) =
     (if cmp (kov v) (kov x) then v # x # xs
      else if cmp (kov x) (kov v) then x # ins_list cmp kov v xs
      else x # xs)"

definition rep_list :: "('k \<Rightarrow> 'k \<Rightarrow> bool) \<Rightarrow> ('v \<Rightarrow> 'k) \<Rightarrow> 'v \<Rightarrow> 'v list \<Rightarrow> 'v list" where
  "rep_list cmp kov v xs =
     (if \<exists>x \<in> set xs. same_key cmp (kov v) (kov x) then map (\<lambda>x. if same_key cmp (kov v) (kov x) then v else x) xs
      else ins_list cmp kov v xs)"

definition del_list :: "('k \<Rightarrow> 'k \<Rightarrow> bool) \<Rightarrow> ('v \<Rightarrow> 'k) \<Rightarrow> 'k \<Rightarrow> 'v list \<Rightarrow> 'v list" where
  "del_list cmp kov k xs = filter (\<lambda>x. \<not> same_key cmp k (kov x)) xs"

lemma ins_list_append_less: "cmp (kov v) (kov x) \<Longrightarrow> ins_list cmp kov v (l @ x # r) = ins_list cmp kov v l @ x # r"
  by (induction l) auto

lemma ins_list_append_greater:
  "\<forall>y \<in> set l. cmp (kov y) (kov v) \<and> \<not> cmp (kov v) (kov y) \<Longrightarrow> ins_list cmp kov v (l @ r) = l @ ins_list cmp kov v r"
  by (induction l) auto

lemma ins_list_append_same:
  "\<forall>y \<in> set l. \<not> cmp (kov v) (kov y) \<Longrightarrow> same_key cmp (kov v) (kov x) \<Longrightarrow> ins_list cmp kov v (l @ x # r) = l @ x # r"
  by (induction l) (auto simp: same_key_def)

lemma sorted_keys_Node:
  "sorted_keys cmp kov (l @ x # r) \<longleftrightarrow> sorted_keys cmp kov l \<and> sorted_keys cmp kov r \<and>
     (\<forall>y \<in> set l. cmp (kov y) (kov x)) \<and> (\<forall>y \<in> set r. cmp (kov x) (kov y)) \<and>
     (\<forall>y \<in> set l. \<forall>z \<in> set r. cmp (kov y) (kov z))"
  by (auto simp: sorted_keys_def sorted_wrt_append)

locale key_order =
  fixes cmp :: "'k \<Rightarrow> 'k \<Rightarrow> bool" and kov :: "'v \<Rightarrow> 'k" and ok :: "'k \<Rightarrow> bool"
  assumes irrefl: "ok a \<Longrightarrow> \<not> cmp a a"
    and trans: "ok a \<Longrightarrow> ok b \<Longrightarrow> ok c \<Longrightarrow> cmp a b \<Longrightarrow> cmp b c \<Longrightarrow> cmp a c"
begin

lemma asym: "ok a \<Longrightarrow> ok b \<Longrightarrow> cmp a b \<Longrightarrow> \<not> cmp b a"
  using irrefl trans by blast

text \<open>How a key that is compared with the root compares with the subtrees.\<close>

lemma inv_Node:
  assumes "tree_inv cmp kov ok (Node l r x h)"
  shows "tree_inv cmp kov ok l" "tree_inv cmp kov ok r" "ok (kov x)" "\<forall>y \<in> set (inorder l). ok (kov y) \<and> cmp (kov y) (kov x)"
    "\<forall>y \<in> set (inorder r). ok (kov y) \<and> cmp (kov x) (kov y)"
  using assms by (auto simp: tree_inv_def sorted_keys_Node)

lemma below_root:
  assumes "tree_inv cmp kov ok (Node l r x h)" and "ok k" and "cmp k (kov x)"
  shows "\<forall>y \<in> set (inorder r). cmp k (kov y) \<and> \<not> cmp (kov y) k"
  using assms inv_Node [OF assms(1)] by (meson asym trans)

lemma above_root:
  assumes "tree_inv cmp kov ok (Node l r x h)" and "ok k" and "cmp (kov x) k"
  shows "\<forall>y \<in> set (inorder l). cmp (kov y) k \<and> \<not> cmp k (kov y)"
  using assms inv_Node [OF assms(1)] by (meson asym trans)

lemma at_root:
  assumes "tree_inv cmp kov ok (Node l r x h)" and "ok k" and "same_key cmp k (kov x)"
  shows "\<forall>y \<in> set (inorder l). \<not> cmp k (kov y)" "\<forall>y \<in> set (inorder r). \<not> cmp (kov y) k"
  using assms inv_Node [OF assms(1)] by (auto simp: same_key_def dest: trans)

lemma inorder_insert: "tree_inv cmp kov ok t \<Longrightarrow> ok (kov v) \<Longrightarrow> inorder (node_insert cmp kov v t) = ins_list cmp kov v (inorder t)"
proof (induction t)
  case (Node l r x h)
  note n = inv_Node [OF Node.prems(1)]
  have rec: "inorder (node_insert cmp kov v l) = ins_list cmp kov v (inorder l)"
    "inorder (node_insert cmp kov v r) = ins_list cmp kov v (inorder r)"
    using Node.IH n(1,2) Node.prems(2) by blast+
  consider (less) "cmp (kov v) (kov x)" | (greater) "\<not> cmp (kov v) (kov x)" "cmp (kov x) (kov v)" | (same) "same_key cmp (kov v) (kov x)"
    unfolding same_key_def by blast
  then show ?case
  proof cases
    case less
    then show ?thesis using rec(1) ins_list_append_less [of cmp kov v x] by simp
  next
    case greater
    then show ?thesis
      using rec(2) ins_list_append_greater [of "inorder l" cmp kov v "x # inorder r"] above_root [OF Node.prems greater(2)] by simp
  next
    case same
    then show ?thesis using ins_list_append_same [of "inorder l" cmp kov v x "inorder r"] at_root(1) [OF Node.prems same] by (simp add: same_key_def)
  qed
qed simp

lemma set_ins_list: "set (ins_list cmp kov v xs) \<subseteq> insert v (set xs)"
  by (induction xs) auto

lemma sorted_ins_list:
  "sorted_keys cmp kov xs \<Longrightarrow> \<forall>x \<in> set xs. ok (kov x) \<Longrightarrow> ok (kov v) \<Longrightarrow> sorted_keys cmp kov (ins_list cmp kov v xs)"
proof (induction xs)
  case (Cons x xs)
  then have "sorted_keys cmp kov (ins_list cmp kov v xs)" by (simp add: sorted_keys_def)
  moreover have "\<forall>y \<in> set (ins_list cmp kov v xs). cmp (kov x) (kov y)" if "cmp (kov x) (kov v)"
    using set_ins_list [of v xs] Cons.prems(1) that by (auto simp: sorted_keys_def)
  moreover have "\<forall>y \<in> set xs. cmp (kov v) (kov y)" if "cmp (kov v) (kov x)"
    using Cons.prems that by (auto simp: sorted_keys_def intro: trans)
  ultimately show ?case using Cons.prems(1) by (auto simp: sorted_keys_def)
qed (simp add: sorted_keys_def)

lemma inv_insert: "tree_inv cmp kov ok t \<Longrightarrow> ok (kov v) \<Longrightarrow> tree_inv cmp kov ok (node_insert cmp kov v t)"
  using inorder_insert [of t v] avl_insert [of t cmp kov v] sorted_ins_list [of "inorder t" v] set_ins_list [of v "inorder t"]
  by (auto simp: tree_inv_def)

lemma inorder_replace:
  assumes "tree_inv cmp kov ok t" and "ok (kov v)" and "single_key cmp kov (kov v) (inorder t)"
  shows "inorder (node_replace cmp kov v t) = rep_list cmp kov v (inorder t)"
  using assms
proof (induction t)
  case Terminator
  then show ?case by (simp add: rep_list_def)
next
  case (Node l r x h)
  note n = inv_Node [OF Node.prems(1)]
  have single: "single_key cmp kov (kov v) (inorder l)" "single_key cmp kov (kov v) (inorder r)"
    using Node.prems(3) by (auto simp: single_key_def)
  have rec: "inorder (node_replace cmp kov v l) = rep_list cmp kov v (inorder l)"
    "inorder (node_replace cmp kov v r) = rep_list cmp kov v (inorder r)"
    using Node.IH n(1,2) Node.prems(2) single by blast+
  let ?f = "\<lambda>x. if same_key cmp (kov v) (kov x) then v else x"
  have id: "map ?f xs = xs" if "\<forall>y \<in> set xs. \<not> same_key cmp (kov v) (kov y)" for xs
    using that by (intro map_idI) auto
  consider (less) "cmp (kov v) (kov x)" | (greater) "\<not> cmp (kov v) (kov x)" "cmp (kov x) (kov v)" | (same) "same_key cmp (kov v) (kov x)"
    unfolding same_key_def by blast
  then show ?case
  proof cases
    case less
    then have r: "\<forall>y \<in> set (inorder r). \<not> same_key cmp (kov v) (kov y)" "\<not> same_key cmp (kov v) (kov x)"
      using below_root [OF Node.prems(1,2)] by (auto simp: same_key_def)
    then show ?thesis
      using less rec(1) ins_list_append_less [of cmp kov v x "inorder l" "inorder r"] id [OF r(1)] by (auto simp: rep_list_def)
  next
    case greater
    then have l: "\<forall>y \<in> set (inorder l). \<not> same_key cmp (kov v) (kov y)" "\<not> same_key cmp (kov v) (kov x)"
      using above_root [OF Node.prems(1,2)] by (auto simp: same_key_def)
    then show ?thesis
      using greater rec(2) ins_list_append_greater [of "inorder l" cmp kov v "x # inorder r"] above_root [OF Node.prems(1,2) greater(2)] id [OF l(1)]
      by (auto simp: rep_list_def)
  next
    case same
    have "x \<notin> set (inorder l)" "x \<notin> set (inorder r)" using n irrefl by blast+
    then have others: "\<forall>y \<in> set (inorder l). \<not> same_key cmp (kov v) (kov y)" "\<forall>y \<in> set (inorder r). \<not> same_key cmp (kov v) (kov y)"
      using Node.prems(3) same unfolding single_key_def by fastforce+
    then show ?thesis using same id by (simp add: rep_list_def) (simp add: same_key_def)
  qed
qed

lemma inorder_remove:
  assumes "tree_inv cmp kov ok t" and "ok k" and "single_key cmp kov k (inorder t)"
  shows "inorder (node_remove cmp kov k t) = del_list cmp kov k (inorder t)"
  using assms
proof (induction t)
  case Terminator
  then show ?case by (simp add: del_list_def)
next
  case (Node l r x h)
  note n = inv_Node [OF Node.prems(1)]
  have single: "single_key cmp kov k (inorder l)" "single_key cmp kov k (inorder r)"
    using Node.prems(3) by (auto simp: single_key_def)
  have rec: "inorder (node_remove cmp kov k l) = del_list cmp kov k (inorder l)"
    "inorder (node_remove cmp kov k r) = del_list cmp kov k (inorder r)"
    using Node.IH n(1,2) Node.prems(2) single by blast+
  have id: "del_list cmp kov k xs = xs" if "\<forall>y \<in> set xs. \<not> same_key cmp k (kov y)" for xs
    using that by (simp add: del_list_def)
  consider (less) "cmp k (kov x)" | (greater) "\<not> cmp k (kov x)" "cmp (kov x) k" | (same) "same_key cmp k (kov x)"
    unfolding same_key_def by blast
  then show ?case
  proof cases
    case less
    then have r: "\<forall>y \<in> set (inorder r). \<not> same_key cmp k (kov y)" "\<not> same_key cmp k (kov x)"
      using below_root [OF Node.prems(1,2)] by (auto simp: same_key_def)
    then show ?thesis using less rec(1) id [OF r(1)] by (simp add: del_list_def)
  next
    case greater
    then have l: "\<forall>y \<in> set (inorder l). \<not> same_key cmp k (kov y)" "\<not> same_key cmp k (kov x)"
      using above_root [OF Node.prems(1,2)] by (auto simp: same_key_def)
    then show ?thesis using greater rec(2) id [OF l(1)] by (simp add: del_list_def)
  next
    case same
    have "x \<notin> set (inorder l)" "x \<notin> set (inorder r)" using n irrefl by blast+
    then have others: "\<forall>y \<in> set (inorder l). \<not> same_key cmp k (kov y)" "\<forall>y \<in> set (inorder r). \<not> same_key cmp k (kov y)"
      using Node.prems(3) same unfolding single_key_def by fastforce+
    have "inorder (node_remove cmp kov k (Node l r x h)) = inorder l @ inorder r"
      using same popMin_Some [of r] by (auto simp: same_key_def isTerminator_def)
    also have "\<dots> = del_list cmp kov k (inorder (Node l r x h))" using id [OF others(1)] id [OF others(2)] same by (simp add: del_list_def)
    finally show ?thesis .
  qed
qed

lemma inv_remove: "tree_inv cmp kov ok t \<Longrightarrow> ok k \<Longrightarrow> single_key cmp kov k (inorder t) \<Longrightarrow> tree_inv cmp kov ok (node_remove cmp kov k t)"
  using inorder_remove [of t k] avl_remove [of t cmp kov k]
  by (auto simp: tree_inv_def del_list_def sorted_keys_def sorted_wrt_filter)

lemma inv_replace:
  assumes "tree_inv cmp kov ok t" and "ok (kov v)" and "single_key cmp kov (kov v) (inorder t)"
  shows "tree_inv cmp kov ok (node_replace cmp kov v t)"
proof -
  let ?xs = "inorder t" and ?f = "\<lambda>x. if same_key cmp (kov v) (kov x) then v else x"
  have s: "sorted_keys cmp kov ?xs" "\<forall>x \<in> set ?xs. ok (kov x)" using assms(1) by (auto simp: tree_inv_def)
  have "sorted_keys cmp kov (rep_list cmp kov v ?xs)"
  proof (cases "\<exists>x \<in> set ?xs. same_key cmp (kov v) (kov x)")
    case True
    then obtain l x r where x: "?xs = l @ x # r" "same_key cmp (kov v) (kov x)" by (meson split_list)
    have d: "x \<notin> set l" "x \<notin> set r" using s x(1) irrefl by (auto simp: sorted_keys_Node)
    then have o: "\<forall>y \<in> set l. \<not> same_key cmp (kov v) (kov y)" "\<forall>y \<in> set r. \<not> same_key cmp (kov v) (kov y)"
      using assms(3) x unfolding single_key_def by fastforce+
    then have "map ?f ?xs = l @ v # r" using x by (simp add: map_idI)
    moreover have "\<forall>y \<in> set l. cmp (kov y) (kov v)"
    proof
      fix y assume y: "y \<in> set l"
      then have "\<not> cmp (kov v) (kov y)" using s x by (auto simp: sorted_keys_Node same_key_def intro: trans assms(2))
      then show "cmp (kov y) (kov v)" using o(1) y by (auto simp: same_key_def)
    qed
    moreover have "\<forall>y \<in> set r. cmp (kov v) (kov y)"
    proof
      fix y assume y: "y \<in> set r"
      then have "\<not> cmp (kov y) (kov v)" using s x by (auto simp: sorted_keys_Node same_key_def intro: trans assms(2))
      then show "cmp (kov v) (kov y)" using o(2) y by (auto simp: same_key_def)
    qed
    ultimately show ?thesis using s(1) x(1) True by (simp add: rep_list_def sorted_keys_Node)
  next
    case False
    then show ?thesis using sorted_ins_list [OF s assms(2)] by (simp add: rep_list_def)
  qed
  moreover have "set (rep_list cmp kov v ?xs) \<subseteq> insert v (set ?xs)"
    using set_ins_list [of v ?xs] by (auto simp: rep_list_def)
  ultimately show ?thesis
    using inorder_replace [OF assms] avl_replace [of t cmp kov v] assms(1,2) s(2) by (auto simp: tree_inv_def)
qed

text \<open>Lookups.\<close>

lemma lookup_spec:
  "tree_inv cmp kov ok t \<Longrightarrow> ok k \<Longrightarrow> single_key cmp kov k (inorder t) \<Longrightarrow> tree_lookup cmp kov k t = List.find (\<lambda>x. same_key cmp k (kov x)) (inorder t)"
proof (induction t)
  case (Node l r x h)
  note n = inv_Node [OF Node.prems(1)]
  have single: "single_key cmp kov k (inorder l)" "single_key cmp kov k (inorder r)"
    using Node.prems(3) by (auto simp: single_key_def)
  have none: "List.find P xs = None" if "\<forall>x \<in> set xs. \<not> P x" for P and xs :: "'v list"
    using that by (simp add: find_None_iff)
  have app: "List.find P (xs @ ys) = (case List.find P xs of None \<Rightarrow> List.find P ys | Some x \<Rightarrow> Some x)" for P and xs ys :: "'v list"
    by (induction xs) auto
  consider (less) "cmp k (kov x)" | (greater) "\<not> cmp k (kov x)" "cmp (kov x) k" | (same) "same_key cmp k (kov x)"
    unfolding same_key_def by blast
  then show ?case
  proof cases
    case less
    then have "List.find (\<lambda>x. same_key cmp k (kov x)) (x # inorder r) = None"
      using below_root [OF Node.prems(1,2)] by (auto simp: same_key_def intro!: none)
    then show ?thesis using less Node.IH(1) n(1) Node.prems(2) single(1) by (simp add: app split: option.split)
  next
    case greater
    then have "List.find (\<lambda>x. same_key cmp k (kov x)) (inorder l) = None"
      using above_root [OF Node.prems(1,2)] by (auto simp: same_key_def intro!: none)
    then show ?thesis using greater Node.IH(2) n(2) Node.prems(2) single(2) by (simp add: app same_key_def)
  next
    case same
    have "x \<notin> set (inorder l)" using n irrefl by blast
    then have "List.find (\<lambda>x. same_key cmp k (kov x)) (inorder l) = None"
      using Node.prems(3) same unfolding single_key_def by (intro none) fastforce
    then show ?thesis using same by (simp add: app) (simp add: same_key_def)
  qed
qed simp

lemma count_lookup: "tree_count cmp kov k t = (if tree_lookup cmp kov k t = None then 0 else 1)"
  by (induction t) auto

lemma lookup_previous_loop_spec:
  "tree_inv cmp kov ok t \<Longrightarrow> ok k \<Longrightarrow> single_key cmp kov k (inorder t) \<Longrightarrow> lookup_previous_loop cmp kov k result t =
     (let xs = takeWhile (\<lambda>x. \<not> cmp k (kov x)) (inorder t) in if xs = [] then result else Some (last xs))"
proof (induction t arbitrary: result)
  case (Node l r x h)
  let ?P = "\<lambda>x. \<not> cmp k (kov x)"
  note n = inv_Node [OF Node.prems(1)]
  have single: "single_key cmp kov k (inorder l)" "single_key cmp kov k (inorder r)"
    using Node.prems(3) by (auto simp: single_key_def)
  consider (less) "cmp k (kov x)" | (greater) "\<not> cmp k (kov x)" "cmp (kov x) k" | (same) "same_key cmp k (kov x)"
    unfolding same_key_def by blast
  then show ?case
  proof cases
    case less
    then show ?thesis using Node.IH(1) [OF n(1) Node.prems(2) single(1)] by (simp add: takeWhile_tail)
  next
    case greater
    have "takeWhile ?P (inorder l @ x # inorder r) = inorder l @ x # takeWhile ?P (inorder r)"
      using above_root [OF Node.prems(1,2) greater(2)] greater by simp
    then show ?thesis using Node.IH(2) [OF n(2) Node.prems(2) single(2)] greater by (simp add: Let_def)
  next
    case same
    have l: "\<forall>y \<in> set (inorder l). ?P y" by (rule at_root(1) [OF Node.prems(1,2) same])
    have "x \<notin> set (inorder r)" using n irrefl by blast
    then have "\<forall>y \<in> set (inorder r). \<not> same_key cmp k (kov y)" using Node.prems(3) same unfolding single_key_def by fastforce
    then have "\<forall>y \<in> set (inorder r). \<not> ?P y" using at_root(2) [OF Node.prems(1,2) same] by (auto simp: same_key_def)
    then have "takeWhile ?P (inorder r) = []" by (cases "inorder r") auto
    with l same have "takeWhile ?P (inorder l @ x # inorder r) = inorder l @ [x]" by (simp add: same_key_def)
    with same show ?thesis by (simp add: same_key_def)
  qed
qed simp

lemma inv_distinct:
  assumes "tree_inv cmp kov ok t"
  shows "distinct (inorder t)"
proof -
  have "distinct xs" if "sorted_keys cmp kov xs" "\<forall>x \<in> set xs. ok (kov x)" for xs
    using that irrefl by (induction xs) (auto simp: sorted_keys_def)
  then show ?thesis using assms by (simp add: tree_inv_def)
qed

end

lemma tree_min_spec: "tree_min t = (if inorder t = [] then None else Some (hd (inorder t)))"
proof (induction t)
  case (Node l r x h)
  then show ?case by (cases l) (auto simp: isTerminator_def hd_append)
qed simp

lemma tree_max_spec: "tree_max t = (if inorder t = [] then None else Some (last (inorder t)))"
proof (induction t)
  case (Node l r x h)
  then show ?case by (cases r) (auto simp: isTerminator_def)
qed simp

lemma node_size_inorder: "node_size t = length (inorder t)"
  by (induction t) auto

section \<open>The position of an iterator\<close>

text \<open>
  The entries after and before the subtree at the end of a path, the entries from the position of an iterator
  on and those before it.
\<close>

fun after_sub :: "'v node \<Rightarrow> 'v node list \<Rightarrow> 'v list" where
  "after_sub n [] = []"
| "after_sub n (p # st) =
     (if n = left_sub p then node_value p # inorder (right_sub p) @ after_sub p st else after_sub p st)"

fun before_sub :: "'v node \<Rightarrow> 'v node list \<Rightarrow> 'v list" where
  "before_sub n [] = []"
| "before_sub n (p # st) =
     (if n = left_sub p then before_sub p st else before_sub p st @ inorder (left_sub p) @ [node_value p])"

fun it_rest :: "'v node list \<Rightarrow> 'v list" where
  "it_rest [] = []"
| "it_rest (n # st) = node_value n # inorder (right_sub n) @ after_sub n st"

fun it_done :: "'v node \<Rightarrow> 'v node list \<Rightarrow> 'v list" where
  "it_done root [] = inorder root"
| "it_done root (n # st) = before_sub n st @ inorder (left_sub n)"

text \<open>The stack is a path to the root.\<close>

fun path_ok :: "'v node \<Rightarrow> 'v node list \<Rightarrow> bool" where
  "path_ok root [] = True"
| "path_ok root [n] \<longleftrightarrow> n = root \<and> n \<noteq> Terminator"
| "path_ok root (n # p # st) \<longleftrightarrow> (n = left_sub p \<or> n = right_sub p) \<and> n \<noteq> Terminator \<and> path_ok root (p # st)"

text \<open>The trees iterators run over.\<close>

definition iterable :: "'v node \<Rightarrow> bool" where
  "iterable root \<longleftrightarrow> avl root \<and> distinct (inorder root)"

lemma node_collapse: "n \<noteq> Terminator \<Longrightarrow> n = Node (left_sub n) (right_sub n) (node_value n) (node_height n)"
  by (cases n) auto

lemma inorder_collapse: "n \<noteq> Terminator \<Longrightarrow> inorder n = inorder (left_sub n) @ node_value n # inorder (right_sub n)"
  by (cases n) auto

lemma iterable_child: "iterable p \<Longrightarrow> n = left_sub p \<or> n = right_sub p \<Longrightarrow> iterable n"
  by (cases p) (auto simp: iterable_def)

lemma iterable_path: "path_ok root (n # st) \<Longrightarrow> iterable root \<Longrightarrow> iterable n"
proof (induction st arbitrary: n)
  case (Cons p st)
  then show ?case using iterable_child [of p n] by auto
qed simp

lemma child_sides: "iterable p \<Longrightarrow> n \<noteq> Terminator \<Longrightarrow> n = right_sub p \<Longrightarrow> n \<noteq> left_sub p"
  by (cases p; cases n) (auto simp: iterable_def)

lemma path_room:
  "path_ok root (n # st) \<Longrightarrow> iterable root \<Longrightarrow> length st + node_height n \<le> node_height root"
proof (induction st arbitrary: n)
  case (Cons p st)
  then have p: "path_ok root (p # st)" "n = left_sub p \<or> n = right_sub p" "n \<noteq> Terminator" by auto
  have "avl p" using iterable_path [OF p(1) Cons.prems(2)] by (simp add: iterable_def)
  then have "node_height n < node_height p" using p(2,3) by (cases p) auto
  then show ?case using Cons.IH [OF p(1) Cons.prems(2)] by simp
qed simp

lemma path_inorder:
  "path_ok root (n # st) \<Longrightarrow> iterable root \<Longrightarrow> before_sub n st @ inorder n @ after_sub n st = inorder root"
proof (induction st arbitrary: n)
  case (Cons p st)
  then have p: "path_ok root (p # st)" "n = left_sub p \<or> n = right_sub p" "n \<noteq> Terminator" by auto
  have "iterable p" by (rule iterable_path [OF p(1) Cons.prems(2)])
  then have "n = right_sub p \<longrightarrow> n \<noteq> left_sub p" using child_sides p(3) by blast
  moreover have "p \<noteq> Terminator" using p by (cases p) auto
  ultimately show ?case using Cons.IH [OF p(1) Cons.prems(2)] p(2) inorder_collapse [of p] by auto
qed simp

lemma it_split: "path_ok root st \<Longrightarrow> iterable root \<Longrightarrow> it_done root st @ it_rest st = inorder root"
proof (cases st)
  case (Cons n st')
  assume a: "path_ok root st" "iterable root"
  then have "n \<noteq> Terminator" using Cons by (cases st') auto
  then show ?thesis using path_inorder [of root n st'] a Cons inorder_collapse [of n] by simp
qed simp

lemma push_back_Some:
  "path_ok root (n # st) \<Longrightarrow> iterable root \<Longrightarrow>
   push_back \<lparr>it_root = root, it_stack = st\<rparr> n = Some \<lparr>it_root = root, it_stack = n # st\<rparr>"
proof -
  assume a: "path_ok root (n # st)" "iterable root"
  then have "n \<noteq> Terminator" by (cases st) auto
  moreover have "avl n" using iterable_path [OF a] by (simp add: iterable_def)
  ultimately have "0 < node_height n" by (cases n) auto
  then show ?thesis using path_room [OF a] by (simp add: push_back_def)
qed

lemma path_Cons_left: "path_ok root (n # st) \<Longrightarrow> left_sub n \<noteq> Terminator \<Longrightarrow> path_ok root (left_sub n # n # st)"
  by simp

lemma path_Cons_right: "path_ok root (n # st) \<Longrightarrow> right_sub n \<noteq> Terminator \<Longrightarrow> path_ok root (right_sub n # n # st)"
  by simp

lemma push_left_spec:
  "path_ok root (n # st) \<Longrightarrow> iterable root \<Longrightarrow> \<exists>st'. push_left \<lparr>it_root = root, it_stack = st\<rparr> n = Some \<lparr>it_root = root, it_stack = st'\<rparr> \<and>
     path_ok root st' \<and> it_rest st' = inorder n @ after_sub n st"
proof (induction n arbitrary: st)
  case Terminator
  then show ?case by (cases st) auto
next
  case (Node l r x h)
  note pb = push_back_Some [OF Node.prems]
  show ?case
  proof (cases "l = Terminator")
    case True
    then show ?thesis using pb Node.prems(1) by simp
  next
    case False
    have "path_ok root (l # Node l r x h # st)" using path_Cons_left [OF Node.prems(1)] False by simp
    from Node.IH(1) [OF this Node.prems(2)] show ?thesis using pb by auto
  qed
qed

lemma push_right_spec:
  "path_ok root (n # st) \<Longrightarrow> iterable root \<Longrightarrow> \<exists>st'. push_right \<lparr>it_root = root, it_stack = st\<rparr> n = Some \<lparr>it_root = root, it_stack = st'\<rparr> \<and>
     path_ok root st' \<and> it_rest st' = last (inorder n) # after_sub n st"
proof (induction n arbitrary: st)
  case Terminator
  then show ?case by (cases st) auto
next
  case (Node l r x h)
  note pb = push_back_Some [OF Node.prems]
  show ?case
  proof (cases "r = Terminator")
    case True
    then show ?thesis using pb Node.prems(1) by simp
  next
    case False
    have p: "path_ok root (r # Node l r x h # st)" using path_Cons_right [OF Node.prems(1)] False by simp
    have "r \<noteq> l" using child_sides [OF iterable_path [OF Node.prems], of r] False by simp
    moreover have "inorder r \<noteq> []" using False inorder_collapse [of r] by simp
    ultimately show ?thesis using Node.IH(2) [OF p Node.prems(2)] pb by auto
  qed
qed

lemma pop_until_left_spec:
  "path_ok root (n # st) \<Longrightarrow> path_ok root (pop_until_left n st) \<and> it_rest (pop_until_left n st) = after_sub n st"
  by (induction st arbitrary: n) auto

lemma pop_until_right_spec:
  "path_ok root (n # st) \<Longrightarrow> iterable root \<Longrightarrow> path_ok root (pop_until_right n st) \<and> it_rest (pop_until_right n st) =
     (if before_sub n st = [] then [] else last (before_sub n st) # inorder n @ after_sub n st)"
proof (induction st arbitrary: n)
  case (Cons p st)
  then have p: "path_ok root (p # st)" "n = left_sub p \<or> n = right_sub p" "n \<noteq> Terminator" by auto
  have ip: "iterable p" by (rule iterable_path [OF p(1) Cons.prems(2)])
  show ?case
  proof (cases "n = right_sub p")
    case True
    then have "n \<noteq> left_sub p" using child_sides [OF ip p(3)] by blast
    then show ?thesis using True p(1) by simp
  next
    case False
    then have l: "n = left_sub p" using p(2) by simp
    have "p \<noteq> Terminator" using p by (cases p) auto
    then show ?thesis using False l Cons.IH [OF p(1) Cons.prems(2)] inorder_collapse [of p] by simp
  qed
qed simp

text \<open>Moving an iterator.\<close>

lemma it_incr_spec:
  assumes "path_ok root st" and "iterable root" and "st \<noteq> []"
  shows "\<exists>st'. it_incr \<lparr>it_root = root, it_stack = st\<rparr> = Some \<lparr>it_root = root, it_stack = st'\<rparr> \<and> path_ok root st' \<and>
    it_rest st' = tl (it_rest st)"
proof -
  obtain n st0 where st: "st = n # st0" using assms(3) by (cases st) auto
  show ?thesis
  proof (cases "right_sub n = Terminator")
    case True
    then show ?thesis using st pop_until_left_spec [of root n st0] assms(1) by (simp add: it_incr_def isTerminator_def)
  next
    case False
    have p: "path_ok root (right_sub n # st)" using path_Cons_right assms(1) False unfolding st by blast
    have "right_sub n \<noteq> left_sub n" using child_sides iterable_path assms(1,2) False unfolding st by blast
    moreover have "push_left it (right_sub n) = do { it \<leftarrow> push_back it (right_sub n); push_left it (left_sub (right_sub n)) }" for it
      using node_collapse [OF False] by (metis push_left.simps(2))
    ultimately show ?thesis using push_left_spec [OF p assms(2)] False st
      by (auto simp: it_incr_def isTerminator_def)
  qed
qed

lemma it_decr_spec:
  assumes "path_ok root st" and "iterable root"
  shows "\<exists>st'. it_decr \<lparr>it_root = root, it_stack = st\<rparr> = Some \<lparr>it_root = root, it_stack = st'\<rparr> \<and> path_ok root st' \<and>
    it_rest st' = (if it_done root st = [] then [] else last (it_done root st) # it_rest st)"
proof (cases st)
  case Nil
  show ?thesis
  proof (cases "root = Terminator")
    case True
    then show ?thesis using Nil by (simp add: it_decr_def)
  next
    case False
    then show ?thesis using push_right_spec [of root root "[]"] assms(2) Nil inorder_collapse [of root] by (auto simp: it_decr_def)
  qed
next
  case (Cons n st0)
  show ?thesis
  proof (cases "left_sub n = Terminator")
    case True
    have "n \<noteq> Terminator" using assms(1) Cons by (cases st0) auto
    then show ?thesis
      using True Cons pop_until_right_spec [of root n st0] assms inorder_collapse [of n] by (auto simp: it_decr_def isTerminator_def)
  next
    case False
    have p: "path_ok root (left_sub n # st)" using path_Cons_left assms(1) False unfolding Cons by blast
    have "push_right it (left_sub n) = do { it \<leftarrow> push_back it (left_sub n); push_right it (right_sub (left_sub n)) }" for it
      using node_collapse [OF False] by (metis push_right.simps(2))
    then show ?thesis using push_right_spec [OF p assms(2)] False Cons inorder_collapse [OF False]
      by (auto simp: it_decr_def isTerminator_def)
  qed
qed

lemma it_begin_end:
  assumes "iterable t"
  shows "\<exists>st. tree_begin t = Some \<lparr>it_root = t, it_stack = st\<rparr> \<and> path_ok t st \<and> it_rest st = inorder t"
    and "tree_end t = Some \<lparr>it_root = t, it_stack = []\<rparr>"
proof -
  show "\<exists>st. tree_begin t = Some \<lparr>it_root = t, it_stack = st\<rparr> \<and> path_ok t st \<and> it_rest st = inorder t"
  proof (cases "t = Terminator")
    case True
    then show ?thesis by (simp add: tree_begin_def new_iterator_def)
  next
    case False
    then show ?thesis using push_left_spec [of t t "[]"] assms by (simp add: tree_begin_def new_iterator_def)
  qed
qed (simp add: tree_end_def new_iterator_def)

lemma it_rest_empty: "it_rest st = [] \<longleftrightarrow> st = []"
  by (cases st) auto

lemma deref_rest: "deref \<lparr>it_root = root, it_stack = st\<rparr> = (if it_rest st = [] then None else Some (hd (it_rest st)))"
  by (cases st) (auto simp: deref_def)

lemma dropWhile_split: "\<forall>x \<in> set d. P x \<Longrightarrow> (r = [] \<or> \<not> P (hd r)) \<Longrightarrow> dropWhile P (d @ r) = r"
  by (cases r) auto

context key_order
begin

lemma inv_iterable: "tree_inv cmp kov ok t \<Longrightarrow> iterable t"
  using inv_distinct by (simp add: iterable_def tree_inv_def)

text \<open>The position \<open>lower_bound\<close> stops at: the entries before it are smaller, those from it on are not.\<close>

lemma lower_bound_loop_spec:
  assumes root: "iterable root" and k: "ok k" and single: "single_key cmp kov k (inorder root)"
  shows "path_ok root (n # st) \<Longrightarrow> tree_inv cmp kov ok n \<Longrightarrow> \<forall>y \<in> set (before_sub n st). cmp (kov y) k \<Longrightarrow>
    \<forall>y \<in> set (after_sub n st). \<not> cmp (kov y) k \<Longrightarrow>
    \<exists>f p st'. lower_bound_loop cmp kov k n \<lparr>it_root = root, it_stack = st\<rparr> = Some (f, \<lparr>it_root = root, it_stack = p # st'\<rparr>) \<and>
      path_ok root (p # st') \<and> (if \<not> f \<and> cmp (kov (node_value p)) k then tl (it_rest (p # st')) else it_rest (p # st')) =
        dropWhile (\<lambda>x. cmp (kov x) k) (inorder root)"
proof (induction n arbitrary: st)
  case Terminator
  then show ?case by (cases st) auto
next
  case (Node l r x h)
  let ?n = "Node l r x h" and ?P = "\<lambda>x. cmp (kov x) k"
  note n = inv_Node [OF Node.prems(2)] and path = Node.prems(1) and before = Node.prems(3) and after = Node.prems(4)
  note pb = push_back_Some [OF path root]
  have all: "inorder root = before_sub ?n st @ inorder l @ x # inorder r @ after_sub ?n st"
    using path_inorder [OF path root] by simp
  consider (less) "cmp k (kov x)" | (greater) "\<not> cmp k (kov x)" "cmp (kov x) k" | (same) "same_key cmp k (kov x)"
    unfolding same_key_def by blast
  then show ?case
  proof cases
    case less
    have up: "\<forall>y \<in> set (x # inorder r @ after_sub ?n st). \<not> cmp (kov y) k"
      using below_root [OF Node.prems(2) k less] after asym [OF k n(3) less] by auto
    show ?thesis
    proof (cases "l = Terminator")
      case True
      have "dropWhile ?P (inorder root) = x # inorder r @ after_sub ?n st"
        unfolding all using dropWhile_split [OF before, of "x # inorder r @ after_sub ?n st"] up True by simp
      then show ?thesis using True less pb path asym [OF k n(3) less] by auto
    next
      case False
      have "path_ok root (l # ?n # st)" using path_Cons_left [OF path] False by simp
      from Node.IH(1) [OF this n(1)] before up show ?thesis using less pb by simp
    qed
  next
    case greater
    have lo: "\<forall>y \<in> set (before_sub ?n st @ inorder l @ [x]). cmp (kov y) k"
      using above_root [OF Node.prems(2) k greater(2)] before greater(2) by auto
    show ?thesis
    proof (cases "r = Terminator")
      case True
      have "after_sub ?n st = [] \<or> \<not> ?P (hd (after_sub ?n st))" using after by (cases "after_sub ?n st") auto
      then have "dropWhile ?P (inorder root) = after_sub ?n st"
        unfolding all using dropWhile_split [OF lo, of "after_sub ?n st"] True by simp
      then show ?thesis using True greater pb path by auto
    next
      case False
      have p: "path_ok root (r # ?n # st)" using path_Cons_right [OF path] False by simp
      have "r \<noteq> l" using child_sides [OF iterable_path [OF path root], of r] False by simp
      then have b: "before_sub r (?n # st) = before_sub ?n st @ inorder l @ [x]" "after_sub r (?n # st) = after_sub ?n st" by simp_all
      have "\<exists>f p st'. lower_bound_loop cmp kov k r \<lparr>it_root = root, it_stack = ?n # st\<rparr> = Some (f, \<lparr>it_root = root, it_stack = p # st'\<rparr>) \<and>
        path_ok root (p # st') \<and> (if \<not> f \<and> cmp (kov (node_value p)) k then tl (it_rest (p # st')) else it_rest (p # st')) =
          dropWhile (\<lambda>x. cmp (kov x) k) (inorder root)"
        by (rule Node.IH(2) [OF p n(2)]) (unfold b, use lo after in auto)
      then show ?thesis using greater pb by simp
    qed
  next
    case same
    have "x \<notin> set (inorder l)" using n irrefl by blast
    then have "\<forall>y \<in> set (inorder l). \<not> same_key cmp k (kov y)" using single same all unfolding single_key_def by fastforce
    then have "\<forall>y \<in> set (before_sub ?n st @ inorder l). ?P y"
      using at_root(1) [OF Node.prems(2) k same] before by (auto simp: same_key_def)
    then have "dropWhile ?P (inorder root) = x # inorder r @ after_sub ?n st"
      unfolding all using dropWhile_split [of "before_sub ?n st @ inorder l" ?P "x # inorder r @ after_sub ?n st"] same
      by (simp add: same_key_def)
    then show ?thesis using same pb path by (auto simp: same_key_def)
  qed
qed

lemma lower_bound_spec:
  assumes "tree_inv cmp kov ok t" and "ok k" and "single_key cmp kov k (inorder t)"
  shows "\<exists>st. tree_lower_bound cmp kov k t = Some \<lparr>it_root = t, it_stack = st\<rparr> \<and> path_ok t st \<and>
    it_rest st = dropWhile (\<lambda>x. cmp (kov x) k) (inorder t)"
proof (cases "t = Terminator")
  case True
  then show ?thesis by (simp add: tree_lower_bound_def new_iterator_def)
next
  case False
  note it = inv_iterable [OF assms(1)]
  obtain f p st where l: "lower_bound_loop cmp kov k t \<lparr>it_root = t, it_stack = []\<rparr> = Some (f, \<lparr>it_root = t, it_stack = p # st\<rparr>)"
    "path_ok t (p # st)" "(if \<not> f \<and> cmp (kov (node_value p)) k then tl (it_rest (p # st)) else it_rest (p # st)) =
        dropWhile (\<lambda>x. cmp (kov x) k) (inorder t)"
    using lower_bound_loop_spec [OF it assms(2,3), of t "[]"] assms(1) False by auto
  then show ?thesis
    using it_incr_spec [OF l(2) it] by (auto simp: tree_lower_bound_def new_iterator_def split: if_splits)
qed

text \<open>The entries from the one with the given key on are not smaller, those after it are greater.\<close>

lemma dropWhile_bounds:
  assumes "tree_inv cmp kov ok t" and "ok k" and "single_key cmp kov k (inorder t)" and "dropWhile (\<lambda>x. cmp (kov x) k) (inorder t) = x # xs"
  shows "\<not> cmp (kov x) k" and "\<forall>y \<in> set xs. cmp k (kov y)"
    and "dropWhile (\<lambda>x. \<not> cmp k (kov x)) (inorder t) = (if cmp k (kov x) then x # xs else xs)"
    and "x \<in> set (inorder t)"
proof -
  let ?d = "takeWhile (\<lambda>x. cmp (kov x) k) (inorder t)"
  have split: "inorder t = ?d @ x # xs" using takeWhile_dropWhile_id [of "\<lambda>x. cmp (kov x) k" "inorder t"] assms(4) by simp
  show x: "\<not> cmp (kov x) k" using hd_dropWhile [of "\<lambda>x. cmp (kov x) k" "inorder t"] assms(4) by simp
  show mem: "x \<in> set (inorder t)" by (subst split) simp
  have s: "sorted_keys cmp kov (?d @ x # xs)" "\<forall>y \<in> set (?d @ x # xs). ok (kov y)"
    using assms(1) split by (simp_all add: tree_inv_def)
  have single: "single_key cmp kov k (?d @ x # xs)" using assms(3) split by simp
  show xs: "\<forall>y \<in> set xs. cmp k (kov y)"
  proof
    fix y assume y: "y \<in> set xs"
    have o: "ok (kov x)" "ok (kov y)" "cmp (kov x) (kov y)" using s y by (simp_all add: sorted_keys_Node)
    then have "x \<noteq> y" using irrefl by blast
    have "\<not> cmp (kov y) k" using trans [OF o(1,2) assms(2) o(3)] x by blast
    moreover have "\<not> (same_key cmp k (kov x) \<and> same_key cmp k (kov y))" using single y \<open>x \<noteq> y\<close> by (auto simp: single_key_def)
    moreover have "cmp k (kov y)" if "cmp k (kov x)" using trans [OF assms(2) o(1,2) that o(3)] .
    ultimately show "cmp k (kov y)" using x by (auto simp: same_key_def)
  qed
  have d: "\<forall>y \<in> set ?d. \<not> cmp k (kov y)"
  proof
    fix y assume y: "y \<in> set ?d"
    then have "cmp (kov y) k" by (rule set_takeWhileD [THEN conjunct2])
    then show "\<not> cmp k (kov y)" using asym [of "kov y" k] s(2) assms(2) y by auto
  qed
  have "dropWhile (\<lambda>x. \<not> cmp k (kov x)) (?d @ x # xs) = (if cmp k (kov x) then x # xs else xs)"
  proof (cases "cmp k (kov x)")
    case True
    then show ?thesis using dropWhile_split [OF d, of "x # xs"] by simp
  next
    case False
    have "xs = [] \<or> \<not> \<not> cmp k (kov (hd xs))" using xs by (cases xs) auto
    moreover have "\<forall>y \<in> set (?d @ [x]). \<not> cmp k (kov y)" using d False by auto
    ultimately show ?thesis using dropWhile_split [of "?d @ [x]" "\<lambda>x. \<not> cmp k (kov x)" xs] False by simp
  qed
  then show "dropWhile (\<lambda>x. \<not> cmp k (kov x)) (inorder t) = (if cmp k (kov x) then x # xs else xs)" using split by metis
qed

lemma upper_bound_spec:
  assumes "tree_inv cmp kov ok t" and "ok k" and "single_key cmp kov k (inorder t)"
  shows "\<exists>st. tree_upper_bound cmp kov k t = Some \<lparr>it_root = t, it_stack = st\<rparr> \<and> path_ok t st \<and>
    it_rest st = dropWhile (\<lambda>x. \<not> cmp k (kov x)) (inorder t)"
proof -
  obtain st where l: "tree_lower_bound cmp kov k t = Some \<lparr>it_root = t, it_stack = st\<rparr>" "path_ok t st"
    "it_rest st = dropWhile (\<lambda>x. cmp (kov x) k) (inorder t)" using lower_bound_spec [OF assms] by blast
  show ?thesis
  proof (cases "it_rest st")
    case Nil
    then have "\<forall>x \<in> set (inorder t). cmp (kov x) k" using l(3) by (simp add: dropWhile_eq_Nil_conv)
    then have "\<forall>x \<in> set (inorder t). \<not> cmp k (kov x)" using asym assms(1,2) unfolding tree_inv_def by blast
    then have "dropWhile (\<lambda>x. \<not> cmp k (kov x)) (inorder t) = []" by (simp add: dropWhile_eq_Nil_conv)
    then show ?thesis using l Nil by (simp add: tree_upper_bound_def deref_rest del: dropWhile_eq_Nil_conv)
  next
    case (Cons x xs)
    note b = dropWhile_bounds [OF assms HOL.trans [OF l(3) [symmetric] Cons]]
    have "st \<noteq> []" using Cons by auto
    from it_incr_spec [OF l(2) inv_iterable [OF assms(1)] this] obtain st' where
      i: "it_incr \<lparr>it_root = t, it_stack = st\<rparr> = Some \<lparr>it_root = t, it_stack = st'\<rparr>" "path_ok t st'" "it_rest st' = xs"
      using Cons by auto
    have "tree_upper_bound cmp kov k t = (if \<not> cmp k (kov x) then Some \<lparr>it_root = t, it_stack = st'\<rparr> else Some \<lparr>it_root = t, it_stack = st\<rparr>)"
      using l(1) Cons i(1) by (simp add: tree_upper_bound_def deref_rest)
    then show ?thesis unfolding b(3) using i(2,3) l(2) Cons by simp
  qed
qed

lemma find_spec:
  assumes "tree_inv cmp kov ok t" and "ok k" and "single_key cmp kov k (inorder t)"
  shows "\<exists>st. tree_find cmp kov k t = Some \<lparr>it_root = t, it_stack = st\<rparr> \<and> path_ok t st \<and>
    it_rest st = dropWhile (\<lambda>x. \<not> same_key cmp k (kov x)) (inorder t)"
proof -
  obtain st where l: "tree_lower_bound cmp kov k t = Some \<lparr>it_root = t, it_stack = st\<rparr>" "path_ok t st"
    "it_rest st = dropWhile (\<lambda>x. cmp (kov x) k) (inorder t)" using lower_bound_spec [OF assms] by blast
  obtain d where split: "inorder t = d @ it_rest st" and d: "\<forall>y \<in> set d. \<not> same_key cmp k (kov y)"
  proof
    show "inorder t = takeWhile (\<lambda>x. cmp (kov x) k) (inorder t) @ it_rest st" using l(3) by simp
  qed (auto simp: same_key_def dest: set_takeWhileD)
  show ?thesis
  proof (cases "it_rest st")
    case Nil
    then have "dropWhile (\<lambda>x. \<not> same_key cmp k (kov x)) (inorder t) = []" using split d by simp
    then show ?thesis using l Nil by (simp add: tree_find_def new_iterator_def deref_rest del: dropWhile_eq_Nil_conv)
  next
    case (Cons x xs)
    note b = dropWhile_bounds [OF assms HOL.trans [OF l(3) [symmetric] Cons]]
    show ?thesis
    proof (cases "cmp k (kov x)")
      case True
      then have "\<forall>y \<in> set (x # xs). \<not> same_key cmp k (kov y)" using b(1,2) by (auto simp: same_key_def)
      then have "dropWhile (\<lambda>x. \<not> same_key cmp k (kov x)) (inorder t) = []" using split d Cons by auto
      then show ?thesis using l(1,2) Cons True by (simp add: tree_find_def new_iterator_def deref_rest del: dropWhile_eq_Nil_conv)
    next
      case False
      then have "same_key cmp k (kov x)" using b(1) by (simp add: same_key_def)
      then have "dropWhile (\<lambda>x. \<not> same_key cmp k (kov x)) (inorder t) = x # xs"
        using split Cons dropWhile_split [OF d, of "x # xs"] by simp
      then show ?thesis using l(1,2) Cons False by (simp add: tree_find_def new_iterator_def deref_rest)
    qed
  qed
qed

end

section \<open>Properties\<close>

text \<open>A tree of natural numbers for the examples.\<close>

definition ex_tree :: "nat node" where
  "ex_tree = foldr (node_insert (<) id) [1, 9, 2, 8, 3, 7, 4, 6, 5] Terminator"

lemma nat_key_order: "key_order ((<) :: nat \<Rightarrow> nat \<Rightarrow> bool) (\<lambda>_. True)"
  by unfold_locales auto

lemma ex_tree_inorder: "inorder ex_tree = [1, 2, 3, 4, 5, 6, 7, 8, 9]"
  by (simp add: ex_tree_def create_def balance_def)

lemma ex_tree_inv: "tree_inv (<) id (\<lambda>_. True) ex_tree"
proof -
  have "tree_inv (<) id (\<lambda>_. True) (Terminator :: nat node)" by (simp add: tree_inv_def sorted_keys_def)
  then show ?thesis by (simp add: ex_tree_def key_order.inv_insert [OF nat_key_order] del: node_insert.simps)
qed

lemma ex_tree_single: "single_key (<) id k (inorder ex_tree)"
  by (auto simp: single_key_def same_key_def)

text \<open>
  C25.  \<open>insert\<close>, \<open>replace\<close> and \<open>remove\<close> keep the tree sorted and balanced, and do to the sorted list of its
  entries what their names say: insertion of an entry unless one has its key, replacement or insertion,
  deletion of the entry with the key.
\<close>

theorem tree_update_correct:
  assumes "key_order cmp ok" and "tree_inv cmp kov ok t" and "ok (kov v)" and "single_key cmp kov (kov v) (inorder t)"
  shows "tree_inv cmp kov ok (node_insert cmp kov v t) \<and> inorder (node_insert cmp kov v t) = ins_list cmp kov v (inorder t) \<and>
    tree_inv cmp kov ok (node_replace cmp kov v t) \<and> inorder (node_replace cmp kov v t) = rep_list cmp kov v (inorder t) \<and>
    tree_inv cmp kov ok (node_remove cmp kov (kov v) t) \<and> inorder (node_remove cmp kov (kov v) t) = del_list cmp kov (kov v) (inorder t)"
  using assms key_order.inv_insert key_order.inorder_insert key_order.inv_replace key_order.inorder_replace
    key_order.inv_remove key_order.inorder_remove by metis

theorem tree_update_correct_witness:
  "inorder (node_remove (<) id 4 ex_tree) = [1, 2, 3, 5, 6, 7, 8, 9] \<and> inorder (node_insert (<) id 4 ex_tree) = [1, 2, 3, 4, 5, 6, 7, 8, 9]"
  using tree_update_correct [OF nat_key_order ex_tree_inv, of 4] ex_tree_single [of 4]
  by (simp add: ex_tree_inorder del_list_def same_key_def)



text \<open>
  C27.  \<open>lookup\<close> and \<open>count\<close> find the entry with the key, \<open>lookup_previous\<close> the last entry that is not greater,
  \<open>min\<close> and \<open>max\<close> the first and the last entry, and \<open>size\<close> is the number of entries.
\<close>

theorem tree_lookup_correct:
  assumes "key_order cmp ok" and "tree_inv cmp kov ok t" and "ok k" and "single_key cmp kov k (inorder t)"
  shows "tree_lookup cmp kov k t = List.find (\<lambda>x. same_key cmp k (kov x)) (inorder t) \<and>
    tree_count cmp kov k t = (if \<exists>x \<in> set (inorder t). same_key cmp k (kov x) then 1 else 0) \<and>
    tree_lookup_previous cmp kov k t =
      (let xs = takeWhile (\<lambda>x. \<not> cmp k (kov x)) (inorder t) in if xs = [] then None else Some (last xs)) \<and>
    tree_min t = (if inorder t = [] then None else Some (hd (inorder t))) \<and>
    tree_max t = (if inorder t = [] then None else Some (last (inorder t))) \<and>
    node_size t = length (inorder t)"
  using key_order.lookup_spec [OF assms] key_order.count_lookup [OF assms(1), of kov k t]
    key_order.lookup_previous_loop_spec [OF assms]
  by (auto simp: tree_lookup_previous_def tree_min_spec tree_max_spec node_size_inorder find_None_iff)

theorem tree_lookup_correct_witness:
  "tree_lookup (<) id 4 ex_tree = Some 4 \<and> tree_lookup (<) id 12 ex_tree = None \<and> tree_lookup_previous (<) id 12 ex_tree = Some 9"
  using tree_lookup_correct [OF nat_key_order ex_tree_inv, of 4] tree_lookup_correct [OF nat_key_order ex_tree_inv, of 12]
    ex_tree_single [of 4] ex_tree_single [of 12]
  by (simp add: ex_tree_inorder same_key_def)

lemma iterate_spec:
  assumes "iterable t" and "path_ok t st" and "n \<le> length (it_rest st)"
  shows "\<exists>st'. foldM (\<lambda>it _. it_incr it) \<lparr>it_root = t, it_stack = st\<rparr> [0..<n] = Some \<lparr>it_root = t, it_stack = st'\<rparr> \<and>
    path_ok t st' \<and> it_rest st' = drop n (it_rest st)"
proof -
  have "\<exists>it'. foldM (\<lambda>it _. it_incr it) \<lparr>it_root = t, it_stack = st\<rparr> [0..<n] = Some it' \<and>
      (it_root it' = t \<and> path_ok t (it_stack it') \<and> it_rest (it_stack it') = drop n (it_rest st))"
  proof (rule foldM_upt)
    fix it :: "'a iterator" and i
    assume i: "i < n" and inv: "it_root it = t \<and> path_ok t (it_stack it) \<and> it_rest (it_stack it) = drop i (it_rest st)"
    have it: "\<lparr>it_root = t, it_stack = it_stack it\<rparr> = it" using inv by simp
    have "it_stack it \<noteq> []" using inv i assms(3) by (metis drop_eq_Nil it_rest_empty le_less_trans not_less order_less_imp_le)
    from it_incr_spec [OF _ assms(1) this] inv obtain st' where s: "it_incr it = Some \<lparr>it_root = t, it_stack = st'\<rparr>" "path_ok t st'"
      "it_rest st' = tl (it_rest (it_stack it))" unfolding it by blast
    then have "it_rest st' = drop (Suc i) (it_rest st)" using inv by (simp add: drop_Suc drop_tl)
    with s show "\<exists>it'. it_incr it = Some it' \<and> (it_root it' = t \<and> path_ok t (it_stack it') \<and> it_rest (it_stack it') = drop (Suc i) (it_rest st))"
      by auto
  qed (use assms(2) in auto)
  then obtain it' where f: "foldM (\<lambda>it _. it_incr it) \<lparr>it_root = t, it_stack = st\<rparr> [0..<n] = Some it'" "it_root it' = t"
    "path_ok t (it_stack it')" "it_rest (it_stack it') = drop n (it_rest st)" by blast
  have "it' = \<lparr>it_root = t, it_stack = it_stack it'\<rparr>" using f(2) by simp
  then show ?thesis using f by metis
qed

text \<open>
  C28.  Iteration from \<open>begin()\<close> reaches every entry in order and then \<open>end()\<close>, and never writes beyond the
  iterator's stack; from every position, \<open>--\<close> goes to the entry before.
\<close>

theorem tree_iteration_correct:
  assumes "iterable t" and "n \<le> node_size t"
  shows "\<exists>it0 it. tree_begin t = Some it0 \<and> foldM (\<lambda>it _. it_incr it) it0 [0..<n] = Some it \<and>
    deref it = (if n < node_size t then Some (inorder t ! n) else None) \<and> (n = node_size t \<longrightarrow> tree_end t = Some it) \<and>
    (0 < n \<longrightarrow> (\<exists>it'. it_decr it = Some it' \<and> deref it' = Some (inorder t ! (n - 1))))"
proof -
  obtain st0 where b: "tree_begin t = Some \<lparr>it_root = t, it_stack = st0\<rparr>" "path_ok t st0" "it_rest st0 = inorder t"
    using it_begin_end(1) [OF assms(1)] by blast
  have n: "n \<le> length (it_rest st0)" using assms(2) b(3) by (simp add: node_size_inorder)
  obtain st where s: "foldM (\<lambda>it _. it_incr it) \<lparr>it_root = t, it_stack = st0\<rparr> [0..<n] = Some \<lparr>it_root = t, it_stack = st\<rparr>"
    "path_ok t st" "it_rest st = drop n (inorder t)" using iterate_spec [OF assms(1) b(2) n] b(3) by auto
  have "it_done t st @ drop n (inorder t) = inorder t" using it_split [OF s(2) assms(1)] s(3) by simp
  then have d: "it_done t st = take n (inorder t)" by (metis append_same_eq append_take_drop_id)
  have e: "st = []" if "n = node_size t" using that s(3) it_rest_empty [of st] by (simp add: node_size_inorder)
  have dd: "last (take n (inorder t)) = inorder t ! (n - 1)" "take n (inorder t) \<noteq> []" if "0 < n"
    using that n b(3) by (cases n; simp add: take_Suc_conv_app_nth)+
  have "\<exists>it'. it_decr \<lparr>it_root = t, it_stack = st\<rparr> = Some it' \<and> deref it' = Some (inorder t ! (n - 1))" if "0 < n"
    using it_decr_spec [OF s(2) assms(1)] dd [OF that] d by (auto simp: deref_rest)
  then show ?thesis
    using b(1) s(1,3) e it_begin_end(2) [OF assms(1)] assms(2) by (auto simp: deref_rest hd_drop_conv_nth node_size_inorder)
qed

theorem tree_iteration_correct_witness:
  "\<exists>it0 it. tree_begin ex_tree = Some it0 \<and> foldM (\<lambda>it _. it_incr it) it0 [0..<5] = Some it \<and> deref it = Some 6"
proof -
  have "iterable ex_tree" by (rule key_order.inv_iterable [OF nat_key_order ex_tree_inv])
  from tree_iteration_correct [OF this, of 5] show ?thesis by (auto simp: node_size_inorder ex_tree_inorder)
qed

text \<open>
  C29.  \<open>lower_bound\<close> is the position of the first entry that is not smaller than the key, \<open>upper_bound\<close> that of
  the first greater one, and \<open>find\<close> that of the entry with the key or the end.
\<close>

theorem tree_bounds_correct:
  assumes "key_order cmp ok" and "tree_inv cmp kov ok t" and "ok k" and "single_key cmp kov k (inorder t)"
  shows "\<exists>lo up fd. tree_lower_bound cmp kov k t = Some \<lparr>it_root = t, it_stack = lo\<rparr> \<and>
    it_rest lo = dropWhile (\<lambda>x. cmp (kov x) k) (inorder t) \<and>
    tree_upper_bound cmp kov k t = Some \<lparr>it_root = t, it_stack = up\<rparr> \<and>
    it_rest up = dropWhile (\<lambda>x. \<not> cmp k (kov x)) (inorder t) \<and>
    tree_find cmp kov k t = Some \<lparr>it_root = t, it_stack = fd\<rparr> \<and>
    it_rest fd = dropWhile (\<lambda>x. \<not> same_key cmp k (kov x)) (inorder t)"
  using key_order.lower_bound_spec [OF assms] key_order.upper_bound_spec [OF assms] key_order.find_spec [OF assms] by blast

theorem tree_bounds_correct_witness:
  "\<exists>lo up fd. tree_lower_bound (<) id 4 ex_tree = Some lo \<and> deref lo = Some 4 \<and>
    tree_upper_bound (<) id 4 ex_tree = Some up \<and> deref up = Some 5 \<and> tree_find (<) id 4 ex_tree = Some fd \<and> deref fd = Some 4"
  using tree_bounds_correct [OF nat_key_order ex_tree_inv, of 4] ex_tree_single [of 4]
  by (auto simp: ex_tree_inorder deref_rest same_key_def)

end
