(* ===== verification/Assignment.thy ===== *)
theory Assignment
  imports BitfieldSimplifier "HOL-Library.Word"
begin

text \<open>
  Assignments of bytes to symbolic arrays and their evaluation (\<open>klee/include/klee/util/Assignment.h\<close>,
  \<open>klee/lib/Expr/CachedAssignmentEvaluator.cpp\<close>), and the search for the symbolic arrays of an expression
  (\<open>SymbolicObjectFinder\<close> of \<open>klee/lib/Expr/ExprUtil.cpp\<close> on top of \<open>ExprVisitor\<close>).

  The members \<open>cacheHits\<close> and \<open>cacheMisses\<close> only count; nothing ever enters \<open>updateListCache\<close>, so the evaluator
  always starts from an empty update list.  They are left out.
\<close>

section \<open>\<open>Assignment\<close>\<close>

text \<open>\<open>bindings\<close> is a map ordered by the addresses of the arrays, \<open>expressionCache\<close> a hash map.\<close>

record 'a assignment =
  allowFreeValues :: bool
  bindings :: "('a array_obj \<times> 8 word list) list"
  expressionCache :: "('a expr \<times> 'a expr) list"

definition Assignment :: "bool \<Rightarrow> 'a assignment" where
  "Assignment free = \<lparr>allowFreeValues = free, bindings = [], expressionCache = []\<rparr>"

text \<open>\<open>bindings.insert\<close>: an array that is bound already keeps its bytes.\<close>

fun bindings_insert ::
    "'a array_obj \<Rightarrow> 8 word list \<Rightarrow> ('a array_obj \<times> 8 word list) list \<Rightarrow> ('a array_obj \<times> 8 word list) list" where
  "bindings_insert obj v [] = [(obj, v)]"
| "bindings_insert obj v ((obj', v') # bs) =
     (if obj = obj' then (obj', v') # bs
      else if array_addr obj < array_addr obj' then (obj, v) # (obj', v') # bs
      else (obj', v') # bindings_insert obj v bs)"

text \<open>The constructor from objects and values; \<open>None\<close> if it runs past the end of the values.\<close>

fun bind_objects ::
    "'a array_obj list \<Rightarrow> 8 word list list \<Rightarrow> ('a array_obj \<times> 8 word list) list \<Rightarrow> ('a array_obj \<times> 8 word list) list option" where
  "bind_objects [] vals bs = Some bs"
| "bind_objects (obj # objects) [] bs = None"
| "bind_objects (obj # objects) (v # vals) bs = bind_objects objects vals (bindings_insert obj v bs)"

definition Assignment_objects :: "'a array_obj list \<Rightarrow> 8 word list list \<Rightarrow> bool \<Rightarrow> 'a assignment option" where
  "Assignment_objects objects vals free =
     map_option (\<lambda>bs. (Assignment free)\<lparr>bindings := bs\<rparr>) (bind_objects objects vals [])"

definition assignment_add :: "'a array_obj \<Rightarrow> 8 word list \<Rightarrow> 'a assignment \<Rightarrow> 'a assignment" where
  "assignment_add obj v a = a\<lparr>bindings := bindings_insert obj v (bindings a)\<rparr>"

definition assignment_clear :: "'a assignment \<Rightarrow> 'a assignment" where
  "assignment_clear a = a\<lparr>bindings := [], expressionCache := []\<rparr>"

text \<open>\<open>Assignment::evaluate(array, index)\<close>.\<close>

definition evaluate_byte :: "'a ops \<Rightarrow> 'a assignment \<Rightarrow> 'a array_obj \<Rightarrow> nat \<Rightarrow> 'a expr" where
  "evaluate_byte A a array index =
     (case map_of (bindings a) array of
        Some v \<Rightarrow>
          if index < length v then ConstantExpr_alloc A (unat (v ! index)) 8
          else if allowFreeValues a then Read_create A array NoUpdate (ConstantExpr_alloc A index 32)
          else ConstantExpr_alloc A 0 8
      | None \<Rightarrow>
          if allowFreeValues a then Read_create A array NoUpdate (ConstantExpr_alloc A index 32)
          else ConstantExpr_alloc A 0 8)"

section \<open>\<open>CachedAssignmentEvaluator\<close>\<close>

text \<open>\<open>visit\<close> of an expression that is not a constant, around \<open>evaluateActual\<close>.\<close>

definition with_cache ::
    "'a expr \<Rightarrow> ('a assignment \<Rightarrow> 'a expr \<times> 'a assignment) \<Rightarrow> 'a assignment \<Rightarrow> 'a expr \<times> 'a assignment" where
  "with_cache e actual a =
     (case map_of (expressionCache a) e of
        Some r \<Rightarrow> (r, a)
      | None \<Rightarrow>
          (let (r, a) = actual a in
           (r, if dyn_cast_Constant r \<noteq> None then a\<lparr>expressionCache := (e, r) # expressionCache a\<rparr> else a)))"

text \<open>The end of \<open>evaluateRead\<close>: the loop over the rewritten updates, then the array.\<close>

fun read_rewritten ::
    "'a ops \<Rightarrow> 'a assignment \<Rightarrow> 'a array_obj \<Rightarrow> 'a \<Rightarrow> 'a update_node \<Rightarrow> 'a expr" where
  "read_rewritten A a root ci NoUpdate =
     (if isConstantArray root \<and> ap_getZExtValue A ci < array_size root
      then ConstantExpr (constantValues root ! ap_getZExtValue A ci)
      else evaluate_byte A a root (ap_getZExtValue A ci))"
| "read_rewritten A a root ci (UpdateNode nxt ui uv) =
     (case dyn_cast_Constant ui of
        Some u \<Rightarrow> if ap_getZExtValue A ci = ap_getZExtValue A u then uv else read_rewritten A a root ci nxt
      | None \<Rightarrow> Read_create A root (UpdateNode nxt ui uv) (ConstantExpr ci))"

definition is_division :: "binkind \<Rightarrow> bool" where
  "is_division k \<longleftrightarrow> k = UDiv \<or> k = SDiv \<or> k = URem \<or> k = SRem"

text \<open>\<open>evaluateAnd\<close>, \<open>evaluateUSDivRem\<close> and the rebuilding of the other binary expressions, once the kids are visited.\<close>

definition evaluate_binary :: "'a ops \<Rightarrow> binkind \<Rightarrow> 'a expr \<Rightarrow> 'a expr \<Rightarrow> 'a expr \<Rightarrow> 'a expr" where
  "evaluate_binary A k r a1 a2 =
     (if k = And then
        if isZero A a1 then a1
        else if isZero A a2 then a2
        else And_create A a1 a2
      else if is_division k \<and> isZero A a2 then Bin_create A k a1 r
      else Bin_create A k a1 a2)"

fun visit :: "'a ops \<Rightarrow> 'a expr \<Rightarrow> 'a assignment \<Rightarrow> 'a expr \<times> 'a assignment"
and rewriteUpdatesUncached :: "'a ops \<Rightarrow> 'a update_node \<Rightarrow> 'a assignment \<Rightarrow> 'a update_node \<times> 'a assignment" where
  "visit A (ConstantExpr c) a = (ConstantExpr c, a)"
| "visit A (ReadExpr root us i) a = with_cache (ReadExpr root us i) (\<lambda>a.
     let (index, a) = visit A i a in
     case dyn_cast_Constant index of
       None \<Rightarrow> (Read_create A root us index, a)
     | Some ci \<Rightarrow>
         (let (ul, a) = rewriteUpdatesUncached A us a in (read_rewritten A a root ci ul, a))) a"
| "visit A (SelectExpr c t f) a = with_cache (SelectExpr c t f) (\<lambda>a.
     let (cond, a) = visit A c a in
     case dyn_cast_Constant cond of
       None \<Rightarrow> (let (t', a) = visit A t a; (f', a) = visit A f a in (Select_create A cond t' f', a))
     | Some ce \<Rightarrow> if const_isTrue A ce then visit A t a else visit A f a) a"
| "visit A (ConcatExpr l r) a = with_cache (ConcatExpr l r) (\<lambda>a.
     let (l', a) = visit A l a; (r', a) = visit A r a in (rebuild A (ConcatExpr l r) [l', r'], a)) a"
| "visit A (ExtractExpr e off w) a = with_cache (ExtractExpr e off w) (\<lambda>a.
     let (e', a) = visit A e a in (rebuild A (ExtractExpr e off w) [e'], a)) a"
| "visit A (NotExpr e) a = with_cache (NotExpr e) (\<lambda>a.
     let (e', a) = visit A e a in (rebuild A (NotExpr e) [e'], a)) a"
| "visit A (ZExtExpr e w) a = with_cache (ZExtExpr e w) (\<lambda>a.
     let (e', a) = visit A e a in (rebuild A (ZExtExpr e w) [e'], a)) a"
| "visit A (SExtExpr e w) a = with_cache (SExtExpr e w) (\<lambda>a.
     let (e', a) = visit A e a in (rebuild A (SExtExpr e w) [e'], a)) a"
| "visit A (BinaryExpr k l r) a = with_cache (BinaryExpr k l r) (\<lambda>a.
     let (l', a) = visit A l a; (r', a) = visit A r a in (evaluate_binary A k r l' r', a)) a"
| "rewriteUpdatesUncached A NoUpdate a = (NoUpdate, a)"
| "rewriteUpdatesUncached A (UpdateNode nxt ui uv) a =
     (let (rewritten, a) = rewriteUpdatesUncached A nxt a;
          (index, a) = visit A ui a;
          (val, a) = visit A uv a
      in (UpdateNode rewritten index val, a))"

declare visit.simps [simp del] rewriteUpdatesUncached.simps [simp del]

text \<open>\<open>Assignment::evaluate(e)\<close> is \<open>visit\<close>; \<open>Assignment::satisfies\<close>.\<close>

fun satisfies :: "'a ops \<Rightarrow> 'a expr list \<Rightarrow> 'a assignment \<Rightarrow> bool \<times> 'a assignment" where
  "satisfies A [] a = (True, a)"
| "satisfies A (e # es) a =
     (let (r, a) = visit A e a in
      case dyn_cast_Constant r of
        Some c \<Rightarrow> if const_isTrue A c then satisfies A es a else (False, a)
      | None \<Rightarrow> (False, a))"

section \<open>\<open>findSymbolicObjects\<close>\<close>

text \<open>The visitor: the visited expressions, the set \<open>results\<close> and the vector \<open>objects\<close>.\<close>

record 'a finder =
  f_visited :: "'a expr list"
  f_results :: "'a array_obj list"
  f_objects :: "'a array_obj list"

definition visit_once :: "'a expr \<Rightarrow> ('a finder \<Rightarrow> 'a finder) \<Rightarrow> 'a finder \<Rightarrow> 'a finder" where
  "visit_once e actual s =
     (if e \<in> set (f_visited s) then s
      else let s = actual s in s\<lparr>f_visited := e # f_visited s\<rparr>)"

definition found_root :: "'a array_obj \<Rightarrow> 'a finder \<Rightarrow> 'a finder" where
  "found_root root s =
     (if isSymbolicArray root \<and> root \<notin> set (f_results s)
      then s\<lparr>f_results := root # f_results s, f_objects := f_objects s @ [root]\<rparr> else s)"

fun finder_visit :: "'a expr \<Rightarrow> 'a finder \<Rightarrow> 'a finder"
and finder_updates :: "'a update_node \<Rightarrow> 'a finder \<Rightarrow> 'a finder" where
  "finder_visit (ConstantExpr c) s = s"
| "finder_visit (ReadExpr root us i) s = visit_once (ReadExpr root us i)
     (\<lambda>s. finder_visit i (found_root root (finder_updates us s))) s"
| "finder_visit (SelectExpr c t f) s = visit_once (SelectExpr c t f)
     (\<lambda>s. finder_visit f (finder_visit t (finder_visit c s))) s"
| "finder_visit (ConcatExpr l r) s = visit_once (ConcatExpr l r) (\<lambda>s. finder_visit r (finder_visit l s)) s"
| "finder_visit (ExtractExpr e off w) s = visit_once (ExtractExpr e off w) (finder_visit e) s"
| "finder_visit (NotExpr e) s = visit_once (NotExpr e) (finder_visit e) s"
| "finder_visit (ZExtExpr e w) s = visit_once (ZExtExpr e w) (finder_visit e) s"
| "finder_visit (SExtExpr e w) s = visit_once (SExtExpr e w) (finder_visit e) s"
| "finder_visit (BinaryExpr k l r) s = visit_once (BinaryExpr k l r) (\<lambda>s. finder_visit r (finder_visit l s)) s"
| "finder_updates NoUpdate s = s"
| "finder_updates (UpdateNode nxt ui uv) s = finder_updates nxt (finder_visit uv (finder_visit ui s))"

definition findSymbolicObjects :: "'a expr list \<Rightarrow> 'a array_obj list \<Rightarrow> 'a array_obj list" where
  "findSymbolicObjects es objects =
     f_objects (fold finder_visit es \<lparr>f_visited = [], f_results = [], f_objects = objects\<rparr>)"

end
