(* ===== verification/MapOfSets.thy ===== *)
theory MapOfSets
  imports Expr_Compare
begin

text \<open>
  The map from sets to values of \<open>klee/include/klee/Internal/ADT/MapOfSets.h\<close>: a tree whose paths are the sets in
  increasing order.  \<open>lt\<close> is the order of the keys (\<open>std::less\<close>), a \<open>std::set\<close> is the increasing list of its elements,
  and a \<open>std::map\<close> of children is the increasing list of its entries.  The predicate of the searches may change a state.

  The lemmas show that the searches find a subset or a superset with the property if and only if there is one, for
  keys that \<open>lt\<close> orders strictly and totally (the locale \<open>set_order\<close>), as \<open>Expr::compare\<close> orders expressions.
\<close>

section \<open>Definitions\<close>

text \<open>\<open>isEndOfSet\<close> and \<open>value\<close> are one optional value.\<close>

datatype ('k, 'v) mos_node = MNode "'v option" "('k, 'v) mos_kids"
and ('k, 'v) mos_kids = NoKid | Kid 'k "('k, 'v) mos_node" "('k, 'v) mos_kids"

definition mos_empty :: "('k, 'v) mos_node" where
  "mos_empty = MNode None NoKid"

definition mos_clear :: "('k, 'v) mos_node \<Rightarrow> ('k, 'v) mos_node" where
  "mos_clear t = MNode None NoKid"

text \<open>\<open>std::set::insert\<close>.\<close>

fun set_insert :: "('k \<Rightarrow> 'k \<Rightarrow> bool) \<Rightarrow> 'k \<Rightarrow> 'k list \<Rightarrow> 'k list" where
  "set_insert lt x [] = [x]"
| "set_insert lt x (y # ys) = (if x = y then y # ys else if lt x y then x # y # ys else y # set_insert lt x ys)"

text \<open>\<open>insert\<close>: \<open>kids_insert\<close> inserts into the map of children and continues in the child.\<close>

function mos_insert :: "('k \<Rightarrow> 'k \<Rightarrow> bool) \<Rightarrow> 'k list \<Rightarrow> 'v \<Rightarrow> ('k, 'v) mos_node \<Rightarrow> ('k, 'v) mos_node"
and kids_insert :: "('k \<Rightarrow> 'k \<Rightarrow> bool) \<Rightarrow> 'k \<Rightarrow> 'k list \<Rightarrow> 'v \<Rightarrow> ('k, 'v) mos_kids \<Rightarrow> ('k, 'v) mos_kids" where
  "mos_insert lt [] v (MNode x ch) = MNode (Some v) ch"
| "mos_insert lt (k # ks) v (MNode x ch) = MNode x (kids_insert lt k ks v ch)"
| "kids_insert lt k ks v NoKid = Kid k (mos_insert lt ks v mos_empty) NoKid"
| "kids_insert lt k ks v (Kid k' n ch) =
     (if k = k' then Kid k' (mos_insert lt ks v n) ch
      else if lt k k' then Kid k (mos_insert lt ks v mos_empty) (Kid k' n ch)
      else Kid k' n (kids_insert lt k ks v ch))"
  by pat_completeness auto
termination
  by (relation "measures [case_sum (\<lambda>(lt, ks, v, t). 2 * length ks) (\<lambda>(lt, k, ks, v, ch). 2 * length ks + 1),
      case_sum (\<lambda>_. 0) (\<lambda>(lt, k, ks, v, ch). size ch)]") auto

fun kid_find :: "'k \<Rightarrow> ('k, 'v) mos_kids \<Rightarrow> ('k, 'v) mos_node option" where
  "kid_find k NoKid = None"
| "kid_find k (Kid k' n ch) = (if k = k' then Some n else kid_find k ch)"

fun mos_lookup :: "'k list \<Rightarrow> ('k, 'v) mos_node \<Rightarrow> 'v option" where
  "mos_lookup [] (MNode x ch) = x"
| "mos_lookup (k # ks) (MNode x ch) = (case kid_find k ch of None \<Rightarrow> None | Some n \<Rightarrow> mos_lookup ks n)"

text \<open>\<open>findSubsets\<close>, with its loop over the elements of the set, and \<open>subsets\<close>.\<close>

function findSubsets ::
    "('k \<Rightarrow> 'k \<Rightarrow> bool) \<Rightarrow> ('k, 'v) mos_node \<Rightarrow> 'k list \<Rightarrow> 'k list \<Rightarrow> ('k list \<times> 'v) list"
and findSubsets_loop ::
    "('k \<Rightarrow> 'k \<Rightarrow> bool) \<Rightarrow> ('k, 'v) mos_kids \<Rightarrow> 'k list \<Rightarrow> 'k list \<Rightarrow> ('k list \<times> 'v) list" where
  "findSubsets lt (MNode x ch) accum es =
     (case x of Some v \<Rightarrow> [(accum, v)] | None \<Rightarrow> []) @ findSubsets_loop lt ch accum es"
| "findSubsets_loop lt ch accum [] = []"
| "findSubsets_loop lt ch accum (elt # es) =
     (case kid_find elt ch of
        Some n \<Rightarrow> findSubsets lt n (set_insert lt elt accum) es
      | None \<Rightarrow> []) @ findSubsets_loop lt ch accum es"
  by pat_completeness auto
termination
  by (relation "measures [case_sum (\<lambda>(lt, n, a, es). length es) (\<lambda>(lt, ch, a, es). length es),
      case_sum (\<lambda>_. 1) (\<lambda>_. 0)]") auto

definition mos_subsets :: "('k \<Rightarrow> 'k \<Rightarrow> bool) \<Rightarrow> 'k list \<Rightarrow> ('k, 'v) mos_node \<Rightarrow> ('k list \<times> 'v) list" where
  "mos_subsets lt es t = findSubsets lt t [] es"

text \<open>\<open>findSupersets\<close>, with its loops over the children, and \<open>supersets\<close>.\<close>

fun findSupersets ::
    "('k \<Rightarrow> 'k \<Rightarrow> bool) \<Rightarrow> ('k, 'v) mos_node \<Rightarrow> 'k list \<Rightarrow> 'k list \<Rightarrow> ('k list \<times> 'v) list"
and findSupersets_kids ::
    "('k \<Rightarrow> 'k \<Rightarrow> bool) \<Rightarrow> ('k, 'v) mos_kids \<Rightarrow> 'k list \<Rightarrow> 'k list \<Rightarrow> ('k list \<times> 'v) list" where
  "findSupersets lt (MNode x ch) accum es =
     (if es = [] then (case x of Some v \<Rightarrow> [(accum, v)] | None \<Rightarrow> []) else []) @ findSupersets_kids lt ch accum es"
| "findSupersets_kids lt NoKid accum es = []"
| "findSupersets_kids lt (Kid k n ch) accum es =
     (let nacc = set_insert lt k accum in
      case es of
        [] \<Rightarrow> findSupersets lt n nacc [] @ findSupersets_kids lt ch accum []
      | elt # next \<Rightarrow>
          if elt = k then findSupersets lt n nacc next @ findSupersets_kids lt ch accum es
          else if lt k elt then findSupersets lt n nacc es @ findSupersets_kids lt ch accum es
          else [])"

definition mos_supersets :: "('k \<Rightarrow> 'k \<Rightarrow> bool) \<Rightarrow> 'k list \<Rightarrow> ('k, 'v) mos_node \<Rightarrow> ('k list \<times> 'v) list" where
  "mos_supersets lt es t = findSupersets lt t [] es"

text \<open>
  \<open>findSubset\<close>.  \<open>subset_kids\<close> is its loop, entered where the source skips the children before the current element,
  which \<open>lower_bound\<close> does as well.  \<open>None\<close> is a loop that makes no progress.
\<close>

fun findSubset ::
    "('k \<Rightarrow> 'k \<Rightarrow> bool) \<Rightarrow> ('v \<Rightarrow> 's \<Rightarrow> bool \<times> 's) \<Rightarrow> ('k, 'v) mos_node \<Rightarrow> 'k list \<Rightarrow> 's \<Rightarrow> ('v option \<times> 's) option"
and subset_kids ::
    "('k \<Rightarrow> 'k \<Rightarrow> bool) \<Rightarrow> ('v \<Rightarrow> 's \<Rightarrow> bool \<times> 's) \<Rightarrow> ('k, 'v) mos_kids \<Rightarrow> 'k list \<Rightarrow> 's \<Rightarrow> ('v option \<times> 's) option" where
  "findSubset lt p (MNode x ch) es s =
     (let (found, s) = (case x of Some v \<Rightarrow> p v s | None \<Rightarrow> (False, s)) in
      if found then Some (x, s)
      else if es = [] then Some (None, s)
      else subset_kids lt p ch es s)"
| "subset_kids lt p NoKid es s = Some (None, s)"
| "subset_kids lt p (Kid k n ch) es s =
     (if es \<noteq> [] \<and> lt k (hd es) then subset_kids lt p ch es s
      else case dropWhile (\<lambda>x. lt x k) es of
        [] \<Rightarrow> Some (None, s)
      | x # xs \<Rightarrow>
          if x = k then
            (case findSubset lt p n xs s of
               None \<Rightarrow> None
             | Some (res, s) \<Rightarrow>
                 if res \<noteq> None \<or> xs = [] then Some (res, s)
                 else if lt k (hd xs) then subset_kids lt p ch xs s else None)
          else if lt k x then subset_kids lt p ch (x # xs) s
          else None)"

text \<open>
  \<open>findSuperset\<close>: \<open>superset_kids\<close> is its loop over all the children, \<open>superset_mid\<close> the attempt at \<open>lower_bound\<close> of the
  first element.
\<close>

fun findSuperset ::
    "('k \<Rightarrow> 'k \<Rightarrow> bool) \<Rightarrow> ('v \<Rightarrow> 's \<Rightarrow> bool \<times> 's) \<Rightarrow> ('k, 'v) mos_node \<Rightarrow> 'k list \<Rightarrow> 's \<Rightarrow> 'v option \<times> 's"
and superset_kids ::
    "('k \<Rightarrow> 'k \<Rightarrow> bool) \<Rightarrow> ('v \<Rightarrow> 's \<Rightarrow> bool \<times> 's) \<Rightarrow> ('k, 'v) mos_kids \<Rightarrow> 'k list \<Rightarrow> 's \<Rightarrow> 'v option \<times> 's"
and superset_mid ::
    "('k \<Rightarrow> 'k \<Rightarrow> bool) \<Rightarrow> ('v \<Rightarrow> 's \<Rightarrow> bool \<times> 's) \<Rightarrow> ('k, 'v) mos_kids \<Rightarrow> 'k \<Rightarrow> 'k list \<Rightarrow> 's \<Rightarrow> 'v option \<times> 's" where
  "findSuperset lt p (MNode x ch) es s =
     (case es of
        [] \<Rightarrow>
          (let (found, s) = (case x of Some v \<Rightarrow> p v s | None \<Rightarrow> (False, s)) in
           if found then (x, s) else superset_kids lt p ch [] s)
      | b # bs \<Rightarrow>
          (let (res, s) = superset_kids lt p ch es s in
           if res \<noteq> None then (res, s) else superset_mid lt p ch b bs s))"
| "superset_kids lt p NoKid es s = (None, s)"
| "superset_kids lt p (Kid k n ch) es s =
     (let (res, s) = findSuperset lt p n es s in
      if res \<noteq> None then (res, s) else superset_kids lt p ch es s)"
| "superset_mid lt p NoKid b bs s = (None, s)"
| "superset_mid lt p (Kid k n ch) b bs s =
     (if lt k b then superset_mid lt p ch b bs s
      else if b = k then findSuperset lt p n bs s
      else (None, s))"

section \<open>Contents\<close>

text \<open>The sets and values in the tree.\<close>

fun entries :: "('k, 'v) mos_node \<Rightarrow> ('k list \<times> 'v) set"
and kid_entries :: "('k, 'v) mos_kids \<Rightarrow> ('k list \<times> 'v) set" where
  "entries (MNode x ch) = {([], v) | v. x = Some v} \<union> kid_entries ch"
| "kid_entries NoKid = {}"
| "kid_entries (Kid k n ch) = {(k # ks, v) | ks v. (ks, v) \<in> entries n} \<union> kid_entries ch"

fun all_keys :: "('k, 'v) mos_node \<Rightarrow> 'k set"
and all_kid_keys :: "('k, 'v) mos_kids \<Rightarrow> 'k set" where
  "all_keys (MNode x ch) = all_kid_keys ch"
| "all_kid_keys NoKid = {}"
| "all_kid_keys (Kid k n ch) = {k} \<union> all_keys n \<union> all_kid_keys ch"

text \<open>Keys increase along the paths and along the children.\<close>

fun mos_ok :: "('k \<Rightarrow> 'k \<Rightarrow> bool) \<Rightarrow> ('k, 'v) mos_node \<Rightarrow> bool"
and kids_ok :: "('k \<Rightarrow> 'k \<Rightarrow> bool) \<Rightarrow> ('k, 'v) mos_kids \<Rightarrow> bool" where
  "mos_ok lt (MNode x ch) \<longleftrightarrow> kids_ok lt ch"
| "kids_ok lt NoKid \<longleftrightarrow> True"
| "kids_ok lt (Kid k n ch) \<longleftrightarrow> mos_ok lt n \<and> kids_ok lt ch \<and> (\<forall>k' \<in> all_keys n \<union> all_kid_keys ch. lt k k')"

lemma set_set_insert [simp]: "set (set_insert lt x xs) = insert x (set xs)"
  by (induction lt x xs rule: set_insert.induct) auto

lemma entries_empty [simp]: "entries mos_empty = {}" "all_keys mos_empty = {}" "mos_ok lt mos_empty"
  by (simp_all add: mos_empty_def)

lemma entries_keys: "(ks, v) \<in> entries t \<Longrightarrow> set ks \<subseteq> all_keys t"
  and kid_entries_keys: "(ks, v) \<in> kid_entries ch \<Longrightarrow> set ks \<subseteq> all_kid_keys ch \<and> ks \<noteq> []"
  by (induction t and ch arbitrary: ks and ks) (auto, blast)

lemma kid_find_entries: "kid_find k ch = Some n \<Longrightarrow> (ks, v) \<in> entries n \<Longrightarrow> (k # ks, v) \<in> kid_entries ch"
  by (induction ch rule: kid_find.induct) (auto split: if_splits)

text \<open>What holds whatever the order is.\<close>

lemma mos_lookup_entries: "mos_lookup ks t = Some v \<Longrightarrow> (ks, v) \<in> entries t"
  by (induction ks t rule: mos_lookup.induct) (auto split: option.splits intro: kid_find_entries)

lemma entries_insert: "entries (mos_insert lt ks v t) \<subseteq> insert (ks, v) (entries t)"
  and kid_entries_insert: "kid_entries (kids_insert lt k ks v ch) \<subseteq> insert (k # ks, v) (kid_entries ch)"
  by (induction lt ks v t and lt k ks v ch rule: mos_insert_kids_insert.induct) (auto split: if_splits)

section \<open>The searches\<close>

text \<open>The result of a search among \<open>E\<close> for an entry that \<open>rel\<close> admits and whose value has the property \<open>Q\<close>.\<close>

definition found :: "('v \<Rightarrow> bool) \<Rightarrow> ('k list \<times> 'v) set \<Rightarrow> ('k list \<Rightarrow> bool) \<Rightarrow> 'v option \<Rightarrow> bool" where
  "found Q E rel res =
     (case res of
        Some v \<Rightarrow> Q v \<and> (\<exists>ks. (ks, v) \<in> E \<and> rel ks)
      | None \<Rightarrow> \<forall>ks v. (ks, v) \<in> E \<longrightarrow> rel ks \<longrightarrow> \<not> Q v)"

lemma found_cong: "(\<And>ks v. (ks, v) \<in> E \<Longrightarrow> rel ks = rel' ks) \<Longrightarrow> found Q E rel res = found Q E rel' res"
  by (auto simp: found_def split: option.split)

lemma found_Some_mono: "found Q E rel (Some v) \<Longrightarrow> E \<subseteq> E' \<Longrightarrow> found Q E' rel (Some v)"
  by (auto simp: found_def)

lemma found_None_Un: "found Q (E \<union> E') rel None \<longleftrightarrow> found Q E rel None \<and> found Q E' rel None"
  by (auto simp: found_def)

lemma found_Un: "found Q E rel None \<Longrightarrow> found Q E' rel res \<Longrightarrow> found Q (E \<union> E') rel res"
  "found Q E' rel None \<Longrightarrow> found Q E rel res \<Longrightarrow> found Q (E \<union> E') rel res"
  by (auto simp: found_def split: option.splits)

lemma found_prefix: "found Q {(k # ks, v) | ks v. (ks, v) \<in> E} rel res \<longleftrightarrow> found Q E (\<lambda>ks. rel (k # ks)) res"
  by (auto simp: found_def split: option.split)

lemma found_none: "(\<And>ks v. (ks, v) \<in> E \<Longrightarrow> \<not> rel ks) \<Longrightarrow> found Q E rel None"
  by (auto simp: found_def)

lemma sorted_wrt_dropWhile: "sorted_wrt P xs \<Longrightarrow> sorted_wrt P (dropWhile Q xs)"
  by (induction xs) auto

lemma kids_induct [case_names NoKid Kid]:
  assumes "P NoKid" and "\<And>k n ch. P ch \<Longrightarrow> P (Kid k n ch)"
  shows "P ch"
proof (induction ch rule: measure_induct_rule [of size])
  case (less ch)
  then show ?case by (cases ch) (auto intro: assms)
qed

text \<open>A strictly increasing list of keys of \<open>C\<close>, the contents of a \<open>std::set\<close>.\<close>

definition sorted_set :: "('k \<Rightarrow> 'k \<Rightarrow> bool) \<Rightarrow> 'k set \<Rightarrow> 'k list \<Rightarrow> bool" where
  "sorted_set lt C es \<longleftrightarrow> sorted_wrt lt es \<and> set es \<subseteq> C"

text \<open>
  The searches with a predicate that decides \<open>Q\<close> on the values of \<open>V\<close> and keeps the invariant \<open>I\<close> of the state.
\<close>

definition decides :: "('v \<Rightarrow> 's \<Rightarrow> bool \<times> 's) \<Rightarrow> ('s \<Rightarrow> bool) \<Rightarrow> 'v set \<Rightarrow> ('v \<Rightarrow> bool) \<Rightarrow> bool" where
  "decides p I V Q \<longleftrightarrow> (\<forall>v s. v \<in> V \<longrightarrow> I s \<longrightarrow> (\<exists>s'. p v s = (Q v, s') \<and> I s'))"

text \<open>The rest of the path of an entry after its first key.\<close>

definition tails :: "('k, 'v) mos_kids \<Rightarrow> ('k list \<times> 'v) set" where
  "tails ch = {(ks, v) | k ks v. (k # ks, v) \<in> kid_entries ch}"

lemma tails_simps [simp]: "tails NoKid = {}" "tails (Kid k n ch) = entries n \<union> tails ch"
  by (auto simp: tails_def)

text \<open>The results of \<open>subsets\<close> and \<open>supersets\<close>, and the entries of \<open>E\<close> that \<open>rel\<close> admits, as sets of keys.\<close>

definition results :: "('k list \<times> 'v) list \<Rightarrow> ('k set \<times> 'v) set" where
  "results rs = (\<lambda>(a, v). (set a, v)) ` set rs"

definition selected :: "'k set \<Rightarrow> ('k list \<times> 'v) set \<Rightarrow> ('k list \<Rightarrow> bool) \<Rightarrow> ('k set \<times> 'v) set" where
  "selected acc E rel = (\<lambda>(ks, v). (acc \<union> set ks, v)) ` {e \<in> E. rel (fst e)}"

lemma results_simps [simp]: "results [] = {}" "results ((a, v) # rs) = insert (set a, v) (results rs)"
  "results (xs @ ys) = results xs \<union> results ys"
  by (auto simp: results_def)

lemma selected_Un: "selected acc (E \<union> E') rel = selected acc E rel \<union> selected acc E' rel"
  by (auto simp: selected_def)

lemma selected_prefix:
  "selected acc {(k # ks, v) | ks v. (ks, v) \<in> E} rel = selected (insert k acc) E (\<lambda>ks. rel (k # ks))"
  by (force simp: selected_def image_iff)

lemma selected_cong: "(\<And>ks v. (ks, v) \<in> E \<Longrightarrow> rel ks = rel' ks) \<Longrightarrow> selected acc E rel = selected acc E rel'"
  by (force simp: selected_def)

lemma selected_none: "(\<And>ks v. (ks, v) \<in> E \<Longrightarrow> \<not> rel ks) \<Longrightarrow> selected acc E rel = {}"
  by (force simp: selected_def)

lemma selected_value:
  "selected acc {([], v) | v. x = Some v} rel = (case x of Some v \<Rightarrow> if rel [] then {(acc, v)} else {} | None \<Rightarrow> {})"
  by (auto simp: selected_def split: option.split)

locale set_order =
  fixes lt :: "'k \<Rightarrow> 'k \<Rightarrow> bool" and C :: "'k set"
  assumes lt_irrefl: "x \<in> C \<Longrightarrow> \<not> lt x x"
    and lt_trans: "x \<in> C \<Longrightarrow> y \<in> C \<Longrightarrow> z \<in> C \<Longrightarrow> lt x y \<Longrightarrow> lt y z \<Longrightarrow> lt x z"
    and lt_total: "x \<in> C \<Longrightarrow> y \<in> C \<Longrightarrow> x \<noteq> y \<Longrightarrow> lt x y \<or> lt y x"
begin

lemma lt_asym: "x \<in> C \<Longrightarrow> y \<in> C \<Longrightarrow> lt x y \<Longrightarrow> \<not> lt y x"
  using lt_irrefl lt_trans by blast

lemma sorted_set_Cons: "sorted_set lt C (x # xs) \<longleftrightarrow> x \<in> C \<and> sorted_set lt C xs \<and> (\<forall>y \<in> set xs. lt x y)"
  by (auto simp: sorted_set_def)

lemma sorted_set_insert: "sorted_set lt C es \<Longrightarrow> x \<in> C \<Longrightarrow> sorted_set lt C (set_insert lt x es)"
proof (induction es)
  case (Cons y ys)
  have y: "y \<in> C" "sorted_set lt C ys" "\<forall>z \<in> set ys. lt y z" "set ys \<subseteq> C"
    using Cons.prems(1) by (auto simp: sorted_set_Cons) (auto simp: sorted_set_def)
  consider "x = y" | "x \<noteq> y" "lt x y" | "x \<noteq> y" "\<not> lt x y" "lt y x" using lt_total Cons.prems(2) y(1) by blast
  then show ?case
  proof cases
    case 2
    have "\<forall>z \<in> set ys. lt x z" using lt_trans Cons.prems(2) y 2(2) by blast
    with 2 Cons.prems y show ?thesis by (simp add: sorted_set_Cons)
  next
    case 3
    with Cons.IH [OF y(2) Cons.prems(2)] y show ?thesis by (simp add: sorted_set_Cons)
  qed (use Cons.prems in simp)
qed (simp add: sorted_set_def)

text \<open>What the elements before \<open>k\<close> do not matter for.\<close>

lemma subset_dropWhile:
  assumes "sorted_set lt C es" and "k \<in> C" and "\<forall>y \<in> set ks. y = k \<or> lt k y" and "set ks \<subseteq> C"
  shows "set ks \<subseteq> set es \<longleftrightarrow> set ks \<subseteq> set (dropWhile (\<lambda>x. lt x k) es)"
proof -
  have "y \<in> set (dropWhile (\<lambda>x. lt x k) es)" if "y \<in> set ks" "y \<in> set es" for y
  proof -
    have "y \<in> C" using assms(4) that(1) by blast
    then have "\<not> lt y k" using assms(3) that(1) lt_irrefl [of k] lt_asym [OF assms(2), of y] assms(2) by auto
    then have "y \<notin> set (takeWhile (\<lambda>x. lt x k) es)" by (auto dest: set_takeWhileD)
    moreover have "set es = set (takeWhile (\<lambda>x. lt x k) es) \<union> set (dropWhile (\<lambda>x. lt x k) es)"
      by (metis set_append takeWhile_dropWhile_id)
    ultimately show ?thesis using that(2) by blast
  qed
  then show ?thesis by (auto dest: set_dropWhileD)
qed

lemma kids_insert_ok:
  assumes IH: "\<And>t. mos_ok lt t \<Longrightarrow> all_keys t \<subseteq> C \<Longrightarrow>
      mos_ok lt (mos_insert lt ks v t) \<and> all_keys (mos_insert lt ks v t) = all_keys t \<union> set ks"
    and "kids_ok lt ch" and "all_kid_keys ch \<subseteq> C" and "sorted_set lt C (k # ks)"
  shows "kids_ok lt (kids_insert lt k ks v ch) \<and>
    all_kid_keys (kids_insert lt k ks v ch) = all_kid_keys ch \<union> set (k # ks)"
  using assms(2,3)
proof (induction ch rule: kids_induct)
  case NoKid
  then show ?case using IH [of mos_empty] assms(4) by (auto simp: sorted_set_Cons)
next
  case (Kid k' n ch)
  have C: "k \<in> C" "k' \<in> C" "all_keys n \<subseteq> C" "all_kid_keys ch \<subseteq> C" "set ks \<subseteq> C"
    using Kid.prems assms(4) by (auto simp: sorted_set_def)
  have ks: "\<forall>y \<in> set ks. lt k y" using assms(4) by (simp add: sorted_set_Cons)
  consider "k = k'" | "k \<noteq> k'" "lt k k'" | "k \<noteq> k'" "\<not> lt k k'" "lt k' k" using lt_total C by blast
  then show ?case
  proof cases
    case 1
    then show ?thesis using IH [of n] Kid.prems ks C by auto
  next
    case 2
    have "lt k y" if "y \<in> all_keys n \<union> all_kid_keys ch" for y
      using that Kid.prems C 2 lt_trans [of k k' y] by auto
    then show ?thesis using 2 IH [of mos_empty] Kid.prems ks C by auto
  next
    case 3
    have "lt k' y" if "y \<in> set ks" for y using that ks C 3 lt_trans [of k' k y] by auto
    then show ?thesis using 3 Kid.IH Kid.prems C by auto
  qed
qed

lemma mos_insert_ok:
  "mos_ok lt t \<Longrightarrow> all_keys t \<subseteq> C \<Longrightarrow> sorted_set lt C ks \<Longrightarrow>
   mos_ok lt (mos_insert lt ks v t) \<and> all_keys (mos_insert lt ks v t) = all_keys t \<union> set ks"
proof (induction ks arbitrary: t)
  case Nil
  then show ?case by (cases t) simp
next
  case (Cons k ks)
  obtain x ch where t: "t = MNode x ch" by (cases t)
  have "sorted_set lt C ks" using Cons.prems(3) by (simp add: sorted_set_Cons)
  then have "kids_ok lt (kids_insert lt k ks v ch) \<and>
      all_kid_keys (kids_insert lt k ks v ch) = all_kid_keys ch \<union> set (k # ks)"
    using Cons.prems Cons.IH by (intro kids_insert_ok) (auto simp: t)
  then show ?case by (simp add: t)
qed

text \<open>Insert and lookup.\<close>

lemma kid_find_None: "kids_ok lt ch \<Longrightarrow> all_kid_keys ch \<subseteq> C \<Longrightarrow> x \<in> C \<Longrightarrow> \<forall>y \<in> all_kid_keys ch. lt x y \<Longrightarrow> kid_find x ch = None"
  by (induction ch rule: kids_induct) (auto dest: lt_irrefl)

lemma kid_find_insert:
  assumes "kids_ok lt ch" and "all_kid_keys ch \<subseteq> C" and "k \<in> C"
  shows "kid_find x (kids_insert lt k ks v ch) =
    (if x = k then Some (mos_insert lt ks v (case kid_find k ch of None \<Rightarrow> mos_empty | Some n \<Rightarrow> n)) else kid_find x ch)"
  using assms
proof (induction ch rule: kids_induct)
  case (Kid k' n ch)
  have "kid_find k ch = None" if "lt k k'"
  proof (rule kid_find_None)
    show "\<forall>y \<in> all_kid_keys ch. lt k y" using that Kid.prems lt_trans [of k k'] by auto
  qed (use Kid.prems in auto)
  with Kid show ?case by (auto split: option.splits)
qed simp

lemma lookup_insert:
  "mos_ok lt t \<Longrightarrow> all_keys t \<subseteq> C \<Longrightarrow> sorted_set lt C ks \<Longrightarrow>
   mos_lookup es (mos_insert lt ks v t) = (if es = ks then Some v else mos_lookup es t)"
proof (induction ks arbitrary: t es)
  case Nil
  then show ?case by (cases t; cases es) auto
next
  case (Cons k ks)
  obtain x ch where t: "t = MNode x ch" by (cases t)
  have k: "kids_ok lt ch" "all_kid_keys ch \<subseteq> C" "k \<in> C" "sorted_set lt C ks" using Cons.prems by (auto simp: t sorted_set_Cons)
  have n: "mos_ok lt n \<and> all_keys n \<subseteq> C" if "kid_find y ch = Some n" for y n
    using k(1,2) that by (induction ch rule: kids_induct) (auto split: if_splits)
  show ?case
  proof (cases es)
    case (Cons e es')
    have "mos_lookup es' (mos_insert lt ks v mos_empty) = (if es' = ks then Some v else None)"
      using Cons.IH [of mos_empty es'] k(4) by (cases es') (auto simp: mos_empty_def)
    then show ?thesis
      using Cons.IH [OF _ _ k(4), of _ es'] n [of k]
      by (auto simp: t Cons kid_find_insert [OF k(1-3)] split: option.split)
  qed (simp add: t)
qed

lemma decides_value:
  assumes "decides p I V Q" and "I s" and "\<forall>v. x = Some v \<longrightarrow> v \<in> V"
  shows "\<exists>s'. (case x of Some v \<Rightarrow> p v s | None \<Rightarrow> (False, s)) = (\<exists>v. x = Some v \<and> Q v, s') \<and> I s'"
  using assms by (cases x) (auto simp: decides_def)

lemma subset_kids_step:
  assumes n: "\<And>es s. sorted_set lt C es \<Longrightarrow> I s \<Longrightarrow>
      \<exists>res s'. findSubset lt p n es s = Some (res, s') \<and> I s' \<and> found Q (entries n) (\<lambda>ks. set ks \<subseteq> set es) res"
    and ch: "\<And>es s. sorted_set lt C es \<Longrightarrow> I s \<Longrightarrow>
      \<exists>res s'. subset_kids lt p ch es s = Some (res, s') \<and> I s' \<and> found Q (kid_entries ch) (\<lambda>ks. set ks \<subseteq> set es) res"
    and ok: "kids_ok lt (Kid k n ch)" "all_kid_keys (Kid k n ch) \<subseteq> C" and es: "sorted_set lt C es" and "I s"
  shows "\<exists>res s'. subset_kids lt p (Kid k n ch) es s = Some (res, s') \<and> I s' \<and>
    found Q (kid_entries (Kid k n ch)) (\<lambda>ks. set ks \<subseteq> set es) res"
proof -
  have C: "k \<in> C" "all_keys n \<subseteq> C" "all_kid_keys ch \<subseteq> C" "set es \<subseteq> C" using ok es by (auto simp: sorted_set_def)
  have gt: "\<forall>y \<in> all_keys n \<union> all_kid_keys ch. lt k y" using ok by simp
  define N where "N = {(k # ks, v) | ks v. (ks, v) \<in> entries n}"
  have E: "kid_entries (Kid k n ch) = N \<union> kid_entries ch" by (simp add: N_def)
  have N: "found Q N (\<lambda>ks. set ks \<subseteq> set es) None" if "k \<notin> set es" using that by (intro found_none) (auto simp: N_def)
  have keys: "(\<forall>y \<in> set ks. y = k \<or> lt k y) \<and> set ks \<subseteq> C" if "(ks, v) \<in> N \<union> kid_entries ch" for ks v
  proof (cases "(ks, v) \<in> N")
    case True
    then obtain ks' where "ks = k # ks'" "(ks', v) \<in> entries n" by (auto simp: N_def)
    with entries_keys [of ks' v n] gt C show ?thesis by auto
  next
    case False
    with that kid_entries_keys [of ks v ch] gt C show ?thesis by blast
  qed
  have nonempty: "(ks, v) \<in> N \<union> kid_entries ch \<Longrightarrow> ks \<noteq> []" for ks v
    using kid_entries_keys [of ks v ch] by (auto simp: N_def)
  have drop: "(ks, v) \<in> N \<union> kid_entries ch \<Longrightarrow> set ks \<subseteq> set es \<longleftrightarrow> set ks \<subseteq> set (dropWhile (\<lambda>x. lt x k) es)" for ks v
    using keys [of ks v] by (intro subset_dropWhile [OF es C(1)]) simp_all
  have "set (dropWhile (\<lambda>x. lt x k) es) \<subseteq> set es" by (auto dest: set_dropWhileD)
  then have sd: "sorted_set lt C (dropWhile (\<lambda>x. lt x k) es)"
    using es sorted_wrt_dropWhile [of lt es] by (auto simp: sorted_set_def)
  show ?thesis
  proof (cases "es \<noteq> [] \<and> lt k (hd es)")
    case True
    then obtain b bs where b: "es = b # bs" "lt k b" by (cases es) auto
    with es have "b \<in> C" "\<forall>y \<in> set bs. lt b y" by (auto simp: sorted_set_Cons)
    with b lt_irrefl [OF C(1)] lt_asym [OF C(1)] have "k \<notin> set es" by auto
    moreover obtain res s' where "subset_kids lt p ch es s = Some (res, s')" "I s'"
        "found Q (kid_entries ch) (\<lambda>ks. set ks \<subseteq> set es) res"
      using ch [OF es \<open>I s\<close>] by blast
    ultimately show ?thesis using found_Un(1) [OF N] True unfolding E by simp
  next
    case not_less: False
    show ?thesis
    proof (cases "dropWhile (\<lambda>x. lt x k) es")
      case Nil
      have "found Q (N \<union> kid_entries ch) (\<lambda>ks. set ks \<subseteq> set es) None"
        using drop nonempty unfolding Nil by (intro found_none) simp
      then show ?thesis
        unfolding E subset_kids.simps if_not_P [OF not_less] Nil list.case using \<open>I s\<close> by auto
    next
      case (Cons x xs)
      have x: "\<not> lt x k" using Cons hd_dropWhile [of "\<lambda>x. lt x k" es] by simp
      have xs: "x \<in> C" "sorted_set lt C xs" "\<forall>y \<in> set xs. lt x y" using sd by (auto simp: Cons sorted_set_Cons)
      note drop = drop [unfolded Cons]
      show ?thesis
      proof (cases "x = k")
        case True
        have kx: "(ks, v) \<in> kid_entries ch \<Longrightarrow> set ks \<subseteq> set es \<longleftrightarrow> set ks \<subseteq> set xs" for ks v
        proof -
          assume e: "(ks, v) \<in> kid_entries ch"
          then have "k \<notin> set ks" using kid_entries_keys [of ks v ch] gt lt_irrefl [OF C(1)] by blast
          with drop [of ks v] e True show ?thesis by auto
        qed
        have nx: "(ks, v) \<in> entries n \<Longrightarrow> set (k # ks) \<subseteq> set es \<longleftrightarrow> set ks \<subseteq> set xs" for ks v
        proof -
          assume e: "(ks, v) \<in> entries n"
          then have "k \<notin> set ks" using entries_keys [of ks v n] gt lt_irrefl [OF C(1)] by blast
          with drop [of "k # ks" v] e True show ?thesis by (auto simp: N_def)
        qed
        obtain res s' where r: "findSubset lt p n xs s = Some (res, s')" "I s'" "found Q (entries n) (\<lambda>ks. set ks \<subseteq> set xs) res"
          using n [OF xs(2) \<open>I s\<close>] by blast
        have rN: "found Q N (\<lambda>ks. set ks \<subseteq> set es) res"
          unfolding N_def found_prefix using r(3) nx by (subst found_cong [OF nx])
        show ?thesis
        proof (cases "res \<noteq> None \<or> xs = []")
          case fin: True
          have "found Q (N \<union> kid_entries ch) (\<lambda>ks. set ks \<subseteq> set es) res"
          proof (cases res)
            case None
            have "found Q (kid_entries ch) (\<lambda>ks. set ks \<subseteq> set es) None"
            proof (rule found_none)
              fix ks v assume e: "(ks, v) \<in> kid_entries ch"
              then have "ks \<noteq> []" using nonempty by blast
              with kx [OF e] fin None show "\<not> set ks \<subseteq> set es" by simp
            qed
            with rN None show ?thesis by (simp add: found_None_Un)
          next
            case (Some v)
            with rN show ?thesis by (auto intro: found_Some_mono)
          qed
          then show ?thesis
            unfolding E subset_kids.simps if_not_P [OF not_less] Cons list.case if_P [OF True] using r(1,2) fin by auto
        next
          case False
          then have "lt k (hd xs)" using xs(3) True by (cases xs) auto
          moreover obtain res' s'' where "subset_kids lt p ch xs s' = Some (res', s'')" "I s''"
              "found Q (kid_entries ch) (\<lambda>ks. set ks \<subseteq> set xs) res'"
            using ch [OF xs(2) r(2)] by blast
          moreover from this have "found Q (kid_entries ch) (\<lambda>ks. set ks \<subseteq> set es) res'" by (subst found_cong [OF kx])
          ultimately show ?thesis
            unfolding E subset_kids.simps if_not_P [OF not_less] Cons list.case if_P [OF True] using r(1) rN False
            by (simp add: found_Un(1))
        qed
      next
        case False
        then have "lt k x" using lt_total [OF xs(1) C(1)] x by blast
        have "k \<notin> set (x # xs)"
          using False xs lt_asym [OF C(1) xs(1) \<open>lt k x\<close>] by auto
        have "found Q N (\<lambda>ks. set ks \<subseteq> set es) None"
        proof (rule found_none)
          fix ks v assume e: "(ks, v) \<in> N"
          then have "k \<in> set ks" by (auto simp: N_def)
          with drop [of ks v] e \<open>k \<notin> set (x # xs)\<close> show "\<not> set ks \<subseteq> set es" by blast
        qed
        moreover obtain res s' where "subset_kids lt p ch (x # xs) s = Some (res, s')" "I s'"
            "found Q (kid_entries ch) (\<lambda>ks. set ks \<subseteq> set (x # xs)) res"
          using ch [of "x # xs" s] sd \<open>I s\<close> unfolding Cons by blast
        moreover have "found Q (kid_entries ch) (\<lambda>ks. set ks \<subseteq> set es) res \<longleftrightarrow>
            found Q (kid_entries ch) (\<lambda>ks. set ks \<subseteq> set (x # xs)) res"
          by (rule found_cong, rule drop, erule UnI2)
        ultimately show ?thesis
          unfolding E subset_kids.simps if_not_P [OF not_less] Cons list.case if_not_P [OF False] if_P [OF \<open>lt k x\<close>]
          by (blast intro: found_Un(1))
      qed
    qed
  qed
qed

lemma findSubset_correct:
  "decides p I V Q \<Longrightarrow> mos_ok lt t \<Longrightarrow> all_keys t \<subseteq> C \<Longrightarrow> snd ` entries t \<subseteq> V \<Longrightarrow> sorted_set lt C es \<Longrightarrow> I s \<Longrightarrow>
   \<exists>res s'. findSubset lt p t es s = Some (res, s') \<and> I s' \<and> found Q (entries t) (\<lambda>ks. set ks \<subseteq> set es) res"
  "decides p I V Q \<Longrightarrow> kids_ok lt ch \<Longrightarrow> all_kid_keys ch \<subseteq> C \<Longrightarrow> snd ` kid_entries ch \<subseteq> V \<Longrightarrow> sorted_set lt C es \<Longrightarrow> I s \<Longrightarrow>
   \<exists>res s'. subset_kids lt p ch es s = Some (res, s') \<and> I s' \<and> found Q (kid_entries ch) (\<lambda>ks. set ks \<subseteq> set es) res"
proof (induction t and ch arbitrary: es s and es s)
  case (MNode x ch)
  have "\<forall>v. x = Some v \<longrightarrow> v \<in> V" using MNode.prems(4) by force
  from decides_value [OF MNode.prems(1,6) this] obtain s'
    where s': "(case x of Some v \<Rightarrow> p v s | None \<Rightarrow> (False, s)) = (\<exists>v. x = Some v \<and> Q v, s')" "I s'" by blast
  show ?case
  proof (cases "\<exists>v. x = Some v \<and> Q v")
    case True
    then obtain v where v: "x = Some v" "Q v" by blast
    then have "([], v) \<in> entries (MNode x ch) \<and> set [] \<subseteq> set es" by simp
    with v have "found Q (entries (MNode x ch)) (\<lambda>ks. set ks \<subseteq> set es) (Some v)" unfolding found_def option.case by blast
    then show ?thesis using s' v by simp
  next
    case False
    have "snd ` kid_entries ch \<subseteq> V" using MNode.prems(4) by (simp add: image_Un)
    then obtain res s'' where r: "subset_kids lt p ch es s' = Some (res, s'')" "I s''"
        "found Q (kid_entries ch) (\<lambda>ks. set ks \<subseteq> set es) res"
      using MNode.IH [OF MNode.prems(1) _ _ _ MNode.prems(5) s'(2)] MNode.prems(2,3) by auto
    have "found Q (kid_entries ch) (\<lambda>ks. set ks \<subseteq> set es) None" if "es = []"
    proof (rule found_none)
      fix ks v assume "(ks, v) \<in> kid_entries ch"
      then have "ks \<noteq> []" using kid_entries_keys [of ks v ch] by simp
      with that show "\<not> set ks \<subseteq> set es" by simp
    qed
    then have "found Q (kid_entries ch) (\<lambda>ks. set ks \<subseteq> set es) (if es = [] then None else res)" using r(3) by simp
    moreover have "found Q {([], v) | v. x = Some v} (\<lambda>ks. set ks \<subseteq> set es) None"
      using False by (auto simp: found_def)
    ultimately have "found Q (entries (MNode x ch)) (\<lambda>ks. set ks \<subseteq> set es) (if es = [] then None else res)"
      using found_Un(1) unfolding entries.simps by blast
    then show ?thesis using s' r(1,2) False by (cases "es = []") simp_all
  qed
next
  case NoKid
  then show ?case by (auto simp: found_def)
next
  case (Kid k n ch)
  have "v \<in> V" if "(ks, v) \<in> kid_entries (Kid k n ch)" for ks v using Kid.prems(4) that by (metis imageI snd_conv subsetD)
  then have V: "snd ` entries n \<subseteq> V" "snd ` kid_entries ch \<subseteq> V" by (auto, blast+)
  show ?case
  proof (rule subset_kids_step [OF Kid.IH(1,2)])
    show "kids_ok lt (Kid k n ch)" "all_kid_keys (Kid k n ch) \<subseteq> C" "sorted_set lt C es" "I s" by (rule Kid.prems)+
  qed (use Kid.prems V in simp_all)
qed

text \<open>The entries that contain the set, for \<open>findSuperset\<close>.\<close>

lemma superset_mid_correct:
  assumes n: "\<And>n s. kid_find b ch = Some n \<Longrightarrow> I s \<Longrightarrow>
      \<exists>res s'. findSuperset lt p n bs s = (res, s') \<and> I s' \<and> found Q (entries n) (\<lambda>ks. set bs \<subseteq> set ks) res"
    and "kids_ok lt ch" and "all_kid_keys ch \<subseteq> C" and "b \<in> C" and "I s"
  shows "\<exists>res s'. superset_mid lt p ch b bs s = (res, s') \<and> I s' \<and>
    (case kid_find b ch of Some n \<Rightarrow> found Q (entries n) (\<lambda>ks. set bs \<subseteq> set ks) res | None \<Rightarrow> res = None)"
  using assms
proof (induction ch rule: kids_induct)
  case (Kid k m ch)
  have "k \<in> C" using Kid.prems(3) by simp
  consider "b = k" | "b \<noteq> k" "lt k b" | "b \<noteq> k" "\<not> lt k b" "lt b k" using lt_total [OF \<open>k \<in> C\<close> Kid.prems(4)] by blast
  then show ?case
  proof cases
    case 1
    then show ?thesis using Kid.prems(1) [of m s] Kid.prems(5) lt_irrefl [OF \<open>k \<in> C\<close>] by auto
  next
    case 2
    have "\<exists>res s'. superset_mid lt p ch b bs s = (res, s') \<and> I s' \<and>
        (case kid_find b ch of Some n \<Rightarrow> found Q (entries n) (\<lambda>ks. set bs \<subseteq> set ks) res | None \<Rightarrow> res = None)"
    proof (rule Kid.IH)
      fix n s assume "kid_find b ch = Some n" "I s"
      then show "\<exists>res s'. findSuperset lt p n bs s = (res, s') \<and> I s' \<and> found Q (entries n) (\<lambda>ks. set bs \<subseteq> set ks) res"
        using 2 by (intro Kid.prems(1)) simp_all
    qed (use Kid.prems in simp_all)
    with 2 show ?thesis by simp
  next
    case 3
    have "kid_find b ch = None"
      using Kid.prems 3 lt_trans [OF Kid.prems(4) \<open>k \<in> C\<close>] by (intro kid_find_None) auto
    with 3 Kid.prems(5) show ?thesis by simp
  qed
qed simp

lemma kid_find_entry:
  "kids_ok lt ch \<Longrightarrow> all_kid_keys ch \<subseteq> C \<Longrightarrow> (b # ks, v) \<in> kid_entries ch \<Longrightarrow>
   \<exists>n. kid_find b ch = Some n \<and> (ks, v) \<in> entries n"
proof (induction ch rule: kids_induct)
  case (Kid k n ch)
  show ?case
  proof (cases "b = k")
    case True
    have "b \<notin> all_kid_keys ch" using Kid.prems lt_irrefl [of k] True by auto
    then have "(b # ks, v) \<notin> kid_entries ch" using kid_entries_keys [of "b # ks" v ch] by auto
    with Kid.prems True show ?thesis by simp
  next
    case False
    with Kid show ?thesis by auto
  qed
qed simp

lemma kid_entry_less: "kids_ok lt ch \<Longrightarrow> (k # ks, v) \<in> kid_entries ch \<Longrightarrow> \<forall>y \<in> set ks. lt k y"
proof (induction ch rule: kids_induct)
  case (Kid k' n ch)
  then show ?case using entries_keys [of ks v n] by auto
qed simp

lemma superset_entry:
  assumes "kids_ok lt ch" and "all_kid_keys ch \<subseteq> C" and "sorted_set lt C (b # bs)"
    and e: "(k # ks, v) \<in> kid_entries ch"
  shows "set (b # bs) \<subseteq> set (k # ks) \<longleftrightarrow> set (b # bs) \<subseteq> set ks \<or> k = b \<and> set bs \<subseteq> set ks"
proof -
  have kC: "k \<in> C" "set ks \<subseteq> C" using kid_entries_keys [OF e] assms(2) by auto
  have bC: "b \<in> C" "\<forall>y \<in> set bs. lt b y" "set bs \<subseteq> C" using assms(3) by (auto simp: sorted_set_def)
  have less: "\<forall>y \<in> set ks. lt k y" by (rule kid_entry_less [OF assms(1) e])
  have "b \<notin> set bs" using bC lt_irrefl by blast
  moreover have "k \<notin> set bs" if "b \<in> set ks"
    using lt_asym [OF bC(1) kC(1)] less bC(2) that by blast
  ultimately show ?thesis by auto
qed

lemma findSuperset_node:
  assumes p: "decides p I V Q" "\<forall>v. x = Some v \<longrightarrow> v \<in> V" and ok: "kids_ok lt ch" "all_kid_keys ch \<subseteq> C"
    and kids: "\<And>es s. sorted_set lt C es \<Longrightarrow> I s \<Longrightarrow>
      \<exists>res s'. superset_kids lt p ch es s = (res, s') \<and> I s' \<and> found Q (tails ch) (\<lambda>ks. set es \<subseteq> set ks) res"
    and find: "\<And>b n es s. kid_find b ch = Some n \<Longrightarrow> sorted_set lt C es \<Longrightarrow> I s \<Longrightarrow>
      \<exists>res s'. findSuperset lt p n es s = (res, s') \<and> I s' \<and> found Q (entries n) (\<lambda>ks. set es \<subseteq> set ks) res"
    and es: "sorted_set lt C es" and "I s"
  shows "\<exists>res s'. findSuperset lt p (MNode x ch) es s = (res, s') \<and> I s' \<and>
    found Q (entries (MNode x ch)) (\<lambda>ks. set es \<subseteq> set ks) res"
proof (cases es)
  case Nil
  from decides_value [OF p(1) \<open>I s\<close> p(2)] obtain s'
    where s': "(case x of Some v \<Rightarrow> p v s | None \<Rightarrow> (False, s)) = (\<exists>v. x = Some v \<and> Q v, s')" "I s'" by blast
  show ?thesis
  proof (cases "\<exists>v. x = Some v \<and> Q v")
    case True
    then obtain v where v: "x = Some v" "Q v" by blast
    then have "([], v) \<in> entries (MNode x ch) \<and> set es \<subseteq> set []" by (simp add: Nil)
    with v have "found Q (entries (MNode x ch)) (\<lambda>ks. set es \<subseteq> set ks) (Some v)" unfolding found_def option.case by blast
    then show ?thesis using s' v Nil by simp
  next
    case False
    obtain res s'' where r: "superset_kids lt p ch [] s' = (res, s'')" "I s''" "found Q (tails ch) (\<lambda>ks. set es \<subseteq> set ks) res"
      using kids [OF es s'(2)] Nil by auto
    have "found Q (entries (MNode x ch)) (\<lambda>ks. set es \<subseteq> set ks) res"
    proof (cases res)
      case None
      have "\<not> Q v" if e: "(ks, v) \<in> kid_entries ch" for ks v
      proof -
        obtain k ks' where "ks = k # ks'" using kid_entries_keys [OF e] by (cases ks) auto
        with e have "(ks', v) \<in> tails ch" by (auto simp: tails_def)
        with r(3) None Nil show ?thesis by (auto simp: found_def)
      qed
      with False None show ?thesis by (auto simp: found_def)
    next
      case (Some v)
      with r(3) Nil show ?thesis by (auto simp: found_def tails_def)
    qed
    then show ?thesis using s' r False Nil by simp
  qed
next
  case (Cons b bs)
  have bs: "b \<in> C" "sorted_set lt C bs" using es by (auto simp: Cons sorted_set_Cons)
  note sup = superset_entry [OF ok es [unfolded Cons]]
  obtain res s' where r: "superset_kids lt p ch es s = (res, s')" "I s'" "found Q (tails ch) (\<lambda>ks. set es \<subseteq> set ks) res"
    using kids [OF es \<open>I s\<close>] by blast
  show ?thesis
  proof (cases res)
    case (Some v)
    then obtain k ks where "Q v" "(k # ks, v) \<in> kid_entries ch" "set es \<subseteq> set ks"
      using r(3) by (auto simp: found_def tails_def)
    then have "found Q (entries (MNode x ch)) (\<lambda>ks. set es \<subseteq> set ks) (Some v)"
      by (auto simp: found_def intro!: exI [of _ "k # ks"])
    then show ?thesis using r Some by (simp add: Cons)
  next
    case None
    obtain res' s'' where m: "superset_mid lt p ch b bs s' = (res', s'')" "I s''"
        "case kid_find b ch of Some n \<Rightarrow> found Q (entries n) (\<lambda>ks. set bs \<subseteq> set ks) res' | None \<Rightarrow> res' = None"
      using superset_mid_correct [of b ch I p bs Q s'] find [OF _ bs(2)] ok bs(1) r(2) by blast
    have "found Q (entries (MNode x ch)) (\<lambda>ks. set es \<subseteq> set ks) res'"
    proof (cases res')
      case None': None
      have "\<not> Q v" if e: "(ks, v) \<in> kid_entries ch" and s: "set es \<subseteq> set ks" for ks v
      proof -
        obtain k ks' where ks: "ks = k # ks'" using kid_entries_keys [OF e] by (cases ks) auto
        with e have t: "(ks', v) \<in> tails ch" by (auto simp: tails_def)
        from sup [OF e [unfolded ks]] s consider "set es \<subseteq> set ks'" | "k = b" "set bs \<subseteq> set ks'" by (auto simp: ks Cons)
        then show ?thesis
        proof cases
          case 1
          with t r(3) None show ?thesis by (auto simp: found_def)
        next
          case 2
          with kid_find_entry [OF ok, of b ks' v] e ks obtain n where "kid_find b ch = Some n" "(ks', v) \<in> entries n" by auto
          with m(3) None' 2 show ?thesis by (auto simp: found_def)
        qed
      qed
      then show ?thesis using Cons None' by (auto simp: found_def)
    next
      case (Some v)
      then obtain n where n: "kid_find b ch = Some n" "found Q (entries n) (\<lambda>ks. set bs \<subseteq> set ks) (Some v)"
        using m(3) by (auto split: option.splits)
      then obtain ks where "Q v" "(ks, v) \<in> entries n" "set bs \<subseteq> set ks" by (auto simp: found_def)
      with kid_find_entries [OF n(1)] Some Cons show ?thesis by (auto simp: found_def intro!: exI [of _ "b # ks"])
    qed
    then show ?thesis using r m None by (simp add: Cons)
  qed
qed

lemma findSuperset_correct:
  "decides p I V Q \<Longrightarrow> mos_ok lt t \<Longrightarrow> all_keys t \<subseteq> C \<Longrightarrow> snd ` entries t \<subseteq> V \<Longrightarrow>
   \<forall>es s. sorted_set lt C es \<longrightarrow> I s \<longrightarrow>
     (\<exists>res s'. findSuperset lt p t es s = (res, s') \<and> I s' \<and> found Q (entries t) (\<lambda>ks. set es \<subseteq> set ks) res)"
  "decides p I V Q \<Longrightarrow> kids_ok lt ch \<Longrightarrow> all_kid_keys ch \<subseteq> C \<Longrightarrow> snd ` kid_entries ch \<subseteq> V \<Longrightarrow>
   (\<forall>es s. sorted_set lt C es \<longrightarrow> I s \<longrightarrow>
     (\<exists>res s'. superset_kids lt p ch es s = (res, s') \<and> I s' \<and> found Q (tails ch) (\<lambda>ks. set es \<subseteq> set ks) res)) \<and>
   (\<forall>b n. kid_find b ch = Some n \<longrightarrow> (\<forall>es s. sorted_set lt C es \<longrightarrow> I s \<longrightarrow>
     (\<exists>res s'. findSuperset lt p n es s = (res, s') \<and> I s' \<and> found Q (entries n) (\<lambda>ks. set es \<subseteq> set ks) res)))"
proof (induction t and ch)
  case (MNode x ch)
  have V: "\<forall>v. x = Some v \<longrightarrow> v \<in> V" "snd ` kid_entries ch \<subseteq> V" using MNode.prems(4) by (auto simp: image_Un)
  have ok: "kids_ok lt ch" "all_kid_keys ch \<subseteq> C" using MNode.prems(2,3) by simp_all
  note IH = MNode.IH [OF MNode.prems(1) ok V(2)]
  show ?case
  proof (intro allI impI)
    fix es s assume "sorted_set lt C es" "I s"
    then show "\<exists>res s'. findSuperset lt p (MNode x ch) es s = (res, s') \<and> I s' \<and>
        found Q (entries (MNode x ch)) (\<lambda>ks. set es \<subseteq> set ks) res"
      using conjunct1 [OF IH, rule_format] conjunct2 [OF IH, rule_format]
      by (intro findSuperset_node [OF MNode.prems(1) V(1) ok])
  qed
next
  case NoKid
  then show ?case by (simp add: found_def)
next
  case (Kid k n ch)
  have "v \<in> V" if "(ks, v) \<in> kid_entries (Kid k n ch)" for ks v using Kid.prems(4) that by (metis imageI snd_conv subsetD)
  then have V: "snd ` entries n \<subseteq> V" "snd ` kid_entries ch \<subseteq> V" by (auto, blast+)
  have ok: "mos_ok lt n" "all_keys n \<subseteq> C" "kids_ok lt ch" "all_kid_keys ch \<subseteq> C" using Kid.prems(2,3) by simp_all
  note n = Kid.IH(1) [OF Kid.prems(1) ok(1,2) V(1), rule_format]
  note ch = Kid.IH(2) [OF Kid.prems(1) ok(3,4) V(2)]
  show ?case
  proof (intro conjI allI impI)
    fix es s assume es: "sorted_set lt C es" and "I s"
    obtain res s' where r: "findSuperset lt p n es s = (res, s')" "I s'" "found Q (entries n) (\<lambda>ks. set es \<subseteq> set ks) res"
      using n [OF es \<open>I s\<close>] by blast
    show "\<exists>res s'. superset_kids lt p (Kid k n ch) es s = (res, s') \<and> I s' \<and>
        found Q (tails (Kid k n ch)) (\<lambda>ks. set es \<subseteq> set ks) res"
    proof (cases res)
      case None
      obtain res' s'' where "superset_kids lt p ch es s' = (res', s'')" "I s''" "found Q (tails ch) (\<lambda>ks. set es \<subseteq> set ks) res'"
        using conjunct1 [OF ch, rule_format, OF es r(2)] by blast
      with r None show ?thesis using found_Un(1) [of Q "entries n" "\<lambda>ks. set es \<subseteq> set ks" "tails ch" res'] by simp
    next
      case (Some v)
      with r show ?thesis using found_Some_mono [of Q "entries n" "\<lambda>ks. set es \<subseteq> set ks" v] by simp
    qed
  next
    fix b m es s assume m: "kid_find b (Kid k n ch) = Some m" and es: "sorted_set lt C es" and "I s"
    show "\<exists>res s'. findSuperset lt p m es s = (res, s') \<and> I s' \<and> found Q (entries m) (\<lambda>ks. set es \<subseteq> set ks) res"
    proof (cases "b = k")
      case True
      with m n [OF es \<open>I s\<close>] show ?thesis by simp
    next
      case False
      with m have "kid_find b ch = Some m" by simp
      then show ?thesis using conjunct2 [OF ch] es \<open>I s\<close> by blast
    qed
  qed
qed

text \<open>All subsets and all supersets.\<close>

lemma findSubsets_loop_correct:
  assumes find: "\<And>b n acc es. kid_find b (ch :: ('k, 'v) mos_kids) = Some n \<Longrightarrow> sorted_set lt C es \<Longrightarrow>
      results (findSubsets lt n acc es) = selected (set acc) (entries n) (\<lambda>ks. set ks \<subseteq> set es)"
    and ok: "kids_ok lt ch" "all_kid_keys ch \<subseteq> C" and "sorted_set lt C es"
  shows "results (findSubsets_loop lt ch acc es) = selected (set acc) (kid_entries ch) (\<lambda>ks. set ks \<subseteq> set es)"
  using assms(4)
proof (induction es)
  case Nil
  have "selected (set acc) (kid_entries ch) (\<lambda>ks. set ks \<subseteq> set []) = {}"
  proof (rule selected_none)
    fix ks v assume "(ks, v) \<in> kid_entries ch"
    then show "\<not> set ks \<subseteq> set []" using kid_entries_keys [of ks v ch] by auto
  qed
  then show ?case by simp
next
  case (Cons b bs)
  have b: "b \<in> C" "sorted_set lt C bs" "\<forall>y \<in> set bs. lt b y" using Cons.prems by (auto simp: sorted_set_Cons)
  define F where "F = {(b # ks, v) | ks v. (b # ks, v) \<in> kid_entries ch}"
  have E: "kid_entries ch = F \<union> kid_entries ch" by (auto simp: F_def)
  have sub: "set ks \<subseteq> set (b # bs) \<longleftrightarrow> set ks \<subseteq> set bs \<or> hd ks = b \<and> set (tl ks) \<subseteq> set bs"
    if e: "(ks, v) \<in> kid_entries ch" for ks v
  proof -
    obtain k ks' where ks: "ks = k # ks'" using kid_entries_keys [OF e] by (cases ks) auto
    have less: "\<forall>y \<in> set ks'. lt k y" using kid_entry_less [OF ok(1)] e ks by blast
    have "k \<in> C" using kid_entries_keys [OF e] ok(2) ks by auto
    then have "b \<notin> set ks'" if "k = b \<or> k \<in> set bs" using less b lt_irrefl [of b] lt_asym [of b k] that by blast
    then show ?thesis by (auto simp: ks)
  qed
  have "results (case kid_find b ch of Some n \<Rightarrow> findSubsets lt n (set_insert lt b acc) bs | None \<Rightarrow> []) =
      selected (set acc) F (\<lambda>ks. set (tl ks) \<subseteq> set bs)"
  proof (cases "kid_find b ch")
    case None
    then have "F = {}" using kid_find_entry [OF ok, of b] by (auto simp: F_def)
    with None show ?thesis by (simp add: selected_def)
  next
    case (Some n)
    then have "F = {(b # ks, v) | ks v. (ks, v) \<in> entries n}"
      using kid_find_entry [OF ok, of b] kid_find_entries [OF Some] by (auto simp: F_def)
    with find [OF Some b(2), of "set_insert lt b acc"] Some show ?thesis by (simp add: selected_prefix)
  qed
  moreover have "selected (set acc) (kid_entries ch) (\<lambda>ks. set ks \<subseteq> set (b # bs)) =
      selected (set acc) F (\<lambda>ks. set (tl ks) \<subseteq> set bs) \<union> selected (set acc) (kid_entries ch) (\<lambda>ks. set ks \<subseteq> set bs)"
  proof -
    have "{e \<in> kid_entries ch. set (fst e) \<subseteq> set (b # bs)} =
        {e \<in> F. set (tl (fst e)) \<subseteq> set bs} \<union> {e \<in> kid_entries ch. set (fst e) \<subseteq> set bs}"
    proof (intro set_eqI)
      fix e :: "'k list \<times> 'v"
      obtain ks v where e: "e = (ks, v)" by (cases e)
      have "(ks, v) \<in> F \<longleftrightarrow> (ks, v) \<in> kid_entries ch \<and> hd ks = b"
        using kid_entries_keys [of ks v ch] by (cases ks) (auto simp: F_def)
      then show "e \<in> {e \<in> kid_entries ch. set (fst e) \<subseteq> set (b # bs)} \<longleftrightarrow>
          e \<in> {e \<in> F. set (tl (fst e)) \<subseteq> set bs} \<union> {e \<in> kid_entries ch. set (fst e) \<subseteq> set bs}"
        using sub [of ks v] e by auto
    qed
    then show ?thesis by (simp only: selected_def image_Un)
  qed
  ultimately show ?case using Cons.IH [OF b(2)] by simp
qed

lemma findSubsets_correct:
  "mos_ok lt (t :: ('k, 'v) mos_node) \<Longrightarrow> all_keys t \<subseteq> C \<Longrightarrow> \<forall>acc es. sorted_set lt C es \<longrightarrow>
   results (findSubsets lt t acc es) = selected (set acc) (entries t) (\<lambda>ks. set ks \<subseteq> set es)"
  "kids_ok lt (ch :: ('k, 'v) mos_kids) \<Longrightarrow> all_kid_keys ch \<subseteq> C \<Longrightarrow> \<forall>b n acc es. kid_find b ch = Some n \<longrightarrow> sorted_set lt C es \<longrightarrow>
   results (findSubsets lt n acc es) = selected (set acc) (entries n) (\<lambda>ks. set ks \<subseteq> set es)"
proof (induction t and ch)
  case (MNode x ch)
  have ok: "kids_ok lt ch" "all_kid_keys ch \<subseteq> C" using MNode.prems by simp_all
  show ?case
  proof (intro allI impI)
    fix acc es assume "sorted_set lt C es"
    from findSubsets_loop_correct [OF MNode.IH [OF ok, rule_format] ok this]
    show "results (findSubsets lt (MNode x ch) acc es) = selected (set acc) (entries (MNode x ch)) (\<lambda>ks. set ks \<subseteq> set es)"
      by (simp add: selected_Un selected_value split: option.split)
  qed
qed (auto split: if_splits)

lemma findSupersets_correct:
  "mos_ok lt (t :: ('k, 'v) mos_node) \<Longrightarrow> all_keys t \<subseteq> C \<Longrightarrow> \<forall>acc es. sorted_set lt C es \<longrightarrow>
   results (findSupersets lt t acc es) = selected (set acc) (entries t) (\<lambda>ks. set es \<subseteq> set ks)"
  "kids_ok lt (ch :: ('k, 'v) mos_kids) \<Longrightarrow> all_kid_keys ch \<subseteq> C \<Longrightarrow> \<forall>acc es. sorted_set lt C es \<longrightarrow>
   results (findSupersets_kids lt ch acc es) = selected (set acc) (kid_entries ch) (\<lambda>ks. set es \<subseteq> set ks)"
proof (induction t and ch)
  case (MNode x ch)
  then show ?case by (simp add: selected_Un selected_value split: option.split)
next
  case NoKid
  then show ?case by (simp add: selected_def)
next
  case (Kid k n ch)
  have ok: "mos_ok lt n" "all_keys n \<subseteq> C" "kids_ok lt ch" "all_kid_keys ch \<subseteq> C" "k \<in> C"
    and gt: "\<forall>y \<in> all_keys n \<union> all_kid_keys ch. lt k y" using Kid.prems by auto
  note IH = Kid.IH(1) [OF ok(1,2), rule_format] Kid.IH(2) [OF ok(3,4), rule_format]
  show ?case
  proof (intro allI impI)
    fix acc es assume es: "sorted_set lt C es"
    have "results (findSupersets_kids lt (Kid k n ch) acc es) =
      selected (insert k (set acc)) (entries n) (\<lambda>ks. set es \<subseteq> set (k # ks)) \<union>
      selected (set acc) (kid_entries ch) (\<lambda>ks. set es \<subseteq> set ks)"
    proof (cases es)
      case Nil
      then show ?thesis using IH es by simp
    next
      case (Cons b bs)
      have b: "b \<in> C" "sorted_set lt C bs" "\<forall>y \<in> set bs. lt b y" using es by (auto simp: Cons sorted_set_Cons)
      consider "b = k" | "b \<noteq> k" "lt k b" | "b \<noteq> k" "\<not> lt k b" "lt b k" using lt_total [OF b(1) ok(5)] by blast
      then show ?thesis
      proof cases
        case 1
        then have "k \<notin> set bs" using b lt_irrefl by blast
        then have "selected (insert k (set acc)) (entries n) (\<lambda>ks. set es \<subseteq> set (k # ks)) =
            selected (insert k (set acc)) (entries n) (\<lambda>ks. set bs \<subseteq> set ks)"
          using 1 by (intro selected_cong) (auto simp: Cons)
        then show ?thesis using 1 IH(1) [OF b(2)] IH(2) [OF es] by (simp add: Cons)
      next
        case 2
        then have "k \<notin> set es" using b lt_asym [OF ok(5) b(1)] by (auto simp: Cons)
        then have "selected (insert k (set acc)) (entries n) (\<lambda>ks. set es \<subseteq> set (k # ks)) =
            selected (insert k (set acc)) (entries n) (\<lambda>ks. set es \<subseteq> set ks)"
          by (intro selected_cong) auto
        then show ?thesis using 2 IH(1) [OF es] IH(2) [OF es] by (simp add: Cons)
      next
        case 3
        have "lt b y" if "y \<in> all_keys n \<union> all_kid_keys ch" for y
          using that gt ok 3 lt_trans [OF b(1) ok(5)] by blast
        then have nb: "b \<notin> all_keys n \<union> all_kid_keys ch" using lt_irrefl [OF b(1)] by blast
        have "selected (insert k (set acc)) (entries n) (\<lambda>ks. set es \<subseteq> set (k # ks)) = {}"
          using entries_keys [of _ _ n] nb 3(1) by (intro selected_none) (force simp: Cons)
        moreover have "selected (set acc) (kid_entries ch) (\<lambda>ks. set es \<subseteq> set ks) = {}"
          using kid_entries_keys [of _ _ ch] nb by (intro selected_none) (force simp: Cons)
        ultimately show ?thesis using 3 by (simp add: Cons)
      qed
    qed
    then show "results (findSupersets_kids lt (Kid k n ch) acc es) =
        selected (set acc) (kid_entries (Kid k n ch)) (\<lambda>ks. set es \<subseteq> set ks)"
      by (simp add: selected_Un selected_prefix)
  qed
qed

end

section \<open>Sets of expressions\<close>

text \<open>The order of expressions and the arrays that are objects of the memory \<open>mem\<close>.\<close>

definition expr_less :: "'a ops \<Rightarrow> 'a expr \<Rightarrow> 'a expr \<Rightarrow> bool" where
  "expr_less A a b \<longleftrightarrow> compare A a b < 0"

definition known_arrays :: "(nat \<Rightarrow> 'a array_obj) \<Rightarrow> 'a array_obj set" where
  "known_arrays mem = {obj. mem (array_addr obj) = obj}"

definition exprs_over :: "(nat \<Rightarrow> 'a array_obj) \<Rightarrow> 'a expr set" where
  "exprs_over mem = {e. arrays e \<subseteq> known_arrays mem}"

lemma known_arrays_inj: "inj_on array_addr (known_arrays mem)"
  by (rule inj_onI) (auto simp: known_arrays_def)

context apint
begin

lemma expr_set_order: "set_order (expr_less A) (exprs_over mem)"
proof unfold_locales
  fix x y z :: "'a expr"
  show "\<not> expr_less A x x" by (simp add: expr_less_def compare_refl)
  show "expr_less A x z" if "expr_less A x y" "expr_less A y z" using that compare_trans by (simp add: expr_less_def)
  assume "x \<in> exprs_over mem" "y \<in> exprs_over mem" and "x \<noteq> y"
  then have "inj_on array_addr (arrays x \<union> arrays y)"
    using known_arrays_inj [of mem] by (auto simp: exprs_over_def intro: inj_on_subset)
  from compare_eq_iff [OF this] \<open>x \<noteq> y\<close> show "expr_less A x y \<or> expr_less A y x"
    using compare_antisym [of x y] by (auto simp: expr_less_def)
qed

end

interpretation expr_sets: set_order "expr_less (bv_ops opt)" "exprs_over mem"
  by (rule bv.expr_set_order)

section \<open>Properties\<close>

text \<open>
  C37.  \<open>MapOfSets\<close> with sets of expressions over the arrays of one memory.  Insertion keeps the tree in order and is
  what \<open>lookup\<close> returns afterwards.  \<open>findSubset\<close> terminates and returns a value that satisfies the predicate and is
  stored under a subset of the given set, and nothing only if there is none; likewise \<open>findSuperset\<close>.  \<open>subsets\<close> and
  \<open>supersets\<close> return all of them.
\<close>

theorem MapOfSets_correct:
  assumes "apint A" and "mos_ok (expr_less A) t" and "all_keys t \<subseteq> exprs_over mem"
    and "sorted_set (expr_less A) (exprs_over mem) ks" and "sorted_set (expr_less A) (exprs_over mem) es"
  shows "mos_ok (expr_less A) (mos_insert (expr_less A) ks v t) \<and>
    mos_lookup es (mos_insert (expr_less A) ks v t) = (if es = ks then Some v else mos_lookup es t) \<and>
    (\<exists>res. findSubset (expr_less A) (\<lambda>v s. (Q v, s)) t es s = Some (res, s) \<and>
      found Q (entries t) (\<lambda>ks. set ks \<subseteq> set es) res) \<and>
    (\<exists>res. findSuperset (expr_less A) (\<lambda>v s. (Q v, s)) t es s = (res, s) \<and>
      found Q (entries t) (\<lambda>ks. set es \<subseteq> set ks) res) \<and>
    results (mos_subsets (expr_less A) es t) = (\<lambda>(ks, v). (set ks, v)) ` {e \<in> entries t. set (fst e) \<subseteq> set es} \<and>
    results (mos_supersets (expr_less A) es t) = (\<lambda>(ks, v). (set ks, v)) ` {e \<in> entries t. set es \<subseteq> set (fst e)}"
proof -
  note o = apint.expr_set_order [OF assms(1), of mem]
  have d: "decides (\<lambda>v s. (Q v, s)) (\<lambda>s'. s' = s) UNIV Q" by (simp add: decides_def)
  show ?thesis
    using set_order.mos_insert_ok [OF o assms(2-4), of v] set_order.lookup_insert [OF o assms(2-4), of es v]
      set_order.findSubset_correct(1) [OF o d assms(2,3) _ assms(5), of s]
      set_order.findSuperset_correct(1) [OF o d assms(2,3), rule_format, OF _ assms(5), of s]
      set_order.findSubsets_correct(1) [OF o assms(2,3), rule_format, OF assms(5), of "[]"]
      set_order.findSupersets_correct(1) [OF o assms(2,3), rule_format, OF assms(5), of "[]"]
    by (simp add: mos_subsets_def mos_supersets_def selected_def)
qed

text \<open>Two sets of constants: the value of the smaller one is found for the larger one.\<close>

definition small_key :: "bool list expr" where
  "small_key = ConstantExpr (bv 8 1)"

definition large_key :: "bool list expr" where
  "large_key = ConstantExpr (bv 8 2)"

theorem MapOfSets_correct_witness:
  "findSubset (expr_less (bv_ops False)) (\<lambda>v s. (v < 10, s))
     (mos_insert (expr_less (bv_ops False)) [large_key] (7 :: nat) mos_empty) [small_key, large_key] () = Some (Some 7, ())"
proof -
  let ?lt = "expr_less (bv_ops False)" and ?C = "exprs_over (\<lambda>_. undefined)"
  have less: "?lt small_key large_key"
    by (simp add: expr_less_def small_key_def large_key_def compare.simps compare_kids.simps compare_contents_const_def)
  have C: "small_key \<in> ?C" "large_key \<in> ?C" by (simp_all add: exprs_over_def small_key_def large_key_def)
  have s: "sorted_set ?lt ?C [large_key]" "sorted_set ?lt ?C [small_key, large_key]" "sorted_set ?lt ?C []"
    using less C by (simp_all add: sorted_set_def)
  have t: "mos_insert ?lt [large_key] (7 :: nat) mos_empty = MNode None (Kid large_key (MNode (Some 7) NoKid) NoKid)"
    by (simp add: mos_empty_def)
  obtain res where "findSubset ?lt (\<lambda>v s. (v < 10, s)) (mos_insert ?lt [large_key] (7 :: nat) mos_empty) [small_key, large_key] ()
      = Some (res, ())"
    and "found (\<lambda>v. v < 10) {([large_key], 7)} (\<lambda>ks. set ks \<subseteq> {small_key, large_key}) res"
    using MapOfSets_correct [OF bv.apint_axioms [of False], of "mos_insert ?lt [large_key] (7 :: nat) mos_empty" "\<lambda>_. undefined" "[]"
        "[small_key, large_key]" _ "\<lambda>v. v < 10" "()"] s C by (auto simp: t)
  then show ?thesis by (cases res) (auto simp: found_def)
qed

end
