(* ===== verification/Solver.thy ===== *)
theory Solver
  imports Expr_Read Expr_Compare Bits
begin

text \<open>
  Solver queries: \<open>klee/include/klee/Constraints.h\<close>, \<open>klee/include/klee/Solver.h\<close>,
  \<open>klee/include/klee/SolverImpl.h\<close> and \<open>klee/lib/Solver/Solver.cpp\<close>.

  A solver implementation has a state of its own (caches, statistics, the context of an external prover), so
  each operation of the interface \<open>SolverImpl\<close> is a state transformer.  The outer option of a computation is
  \<open>None\<close> for a failed assertion or \<open>pabort\<close>; the inner one is \<open>None\<close> when the operation returns \<open>false\<close>,
  that is, when the solver fails.

  The locale \<open>solver_contract\<close> is what the documentation of \<open>SolverImpl\<close> promises about the results.  The solver
  at the bottom of the stack (an external prover) is only known through it; the solvers on top of it are
  shown to keep it.
\<close>

section \<open>Computations of a solver\<close>

type_synonym ('s, 'r) comp = "'s \<Rightarrow> ('r option \<times> 's) option"

definition give :: "'r \<Rightarrow> ('s, 'r) comp" where
  "give x s = Some (Some x, s)"

definition fail :: "('s, 'r) comp" where
  "fail s = Some (None, s)"

definition pabort :: "('s, 'r) comp" where
  "pabort s = None"

text \<open>\<open>if (!m) return false; f\<close>\<close>

definition call :: "('s, 'q) comp \<Rightarrow> ('q \<Rightarrow> ('s, 'r) comp) \<Rightarrow> ('s, 'r) comp" where
  "call m f s =
     (case m s of
        None \<Rightarrow> None
      | Some (None, s') \<Rightarrow> Some (None, s')
      | Some (Some x, s') \<Rightarrow> f x s')"

text \<open>A call to one of two solvers that have separate states.\<close>

definition on_fst :: "('s, 'r) comp \<Rightarrow> ('s \<times> 't, 'r) comp" where
  "on_fst m p = map_option (\<lambda>(r, s). (r, (s, snd p))) (m (fst p))"

definition on_snd :: "('t, 'r) comp \<Rightarrow> ('s \<times> 't, 'r) comp" where
  "on_snd m p = map_option (\<lambda>(r, t). (r, (fst p, t))) (m (snd p))"

text \<open>
  \<open>answers live ok P m s\<close>: started in \<open>s\<close>, the computation does not abort, ends in a state with \<open>ok\<close>, does
  not fail if \<open>live\<close>, and its result satisfies \<open>P\<close>.
\<close>

definition answers :: "bool \<Rightarrow> ('s \<Rightarrow> bool) \<Rightarrow> ('r \<Rightarrow> bool) \<Rightarrow> ('s, 'r) comp \<Rightarrow> 's \<Rightarrow> bool" where
  "answers live ok P m s \<longleftrightarrow>
     (\<exists>r s'. m s = Some (r, s') \<and> ok s' \<and> (live \<longrightarrow> r \<noteq> None) \<and> (\<forall>x. r = Some x \<longrightarrow> P x))"

lemma answers_give [intro]: "P x \<Longrightarrow> ok s \<Longrightarrow> answers live ok P (give x) s"
  by (simp add: answers_def give_def)

lemma answers_fail [intro]: "\<not> live \<Longrightarrow> ok s \<Longrightarrow> answers live ok P fail s"
  by (simp add: answers_def fail_def)

lemma answers_call [intro]:
  assumes "answers live ok P m s" and "\<And>x s'. P x \<Longrightarrow> ok s' \<Longrightarrow> answers live ok Q (f x) s'"
  shows "answers live ok Q (call m f) s"
proof -
  obtain r s' where m: "m s = Some (r, s')" "ok s'" "live \<longrightarrow> r \<noteq> None" "\<forall>x. r = Some x \<longrightarrow> P x"
    using assms(1) by (auto simp: answers_def)
  show ?thesis
  proof (cases r)
    case None
    with m show ?thesis by (auto simp: answers_def call_def)
  next
    case (Some x)
    with m have "call m f s = f x s'" by (simp add: call_def)
    with assms(2) [of x s'] m Some show ?thesis by (simp add: answers_def)
  qed
qed

lemma answers_weaken: "answers live ok P m s \<Longrightarrow> (\<And>x. P x \<Longrightarrow> Q x) \<Longrightarrow> answers live ok Q m s"
  unfolding answers_def by blast

definition pair_ok :: "('s \<Rightarrow> bool) \<Rightarrow> ('t \<Rightarrow> bool) \<Rightarrow> 's \<times> 't \<Rightarrow> bool" where
  "pair_ok ok ok' p \<longleftrightarrow> ok (fst p) \<and> ok' (snd p)"

lemma answers_on_fst:
  assumes "pair_ok ok ok' p" and "ok (fst p) \<Longrightarrow> answers live ok P m (fst p)"
  shows "answers live (pair_ok ok ok') P (on_fst m) p"
  using assms by (auto simp: answers_def on_fst_def pair_ok_def)

lemma answers_on_snd:
  assumes "pair_ok ok ok' p" and "ok' (snd p) \<Longrightarrow> answers live ok' P m (snd p)"
  shows "answers live (pair_ok ok ok') P (on_snd m) p"
  using assms by (auto simp: answers_def on_snd_def pair_ok_def)

lemma answers_live_any: "answers True ok P m s \<Longrightarrow> answers live ok P m s"
  by (auto simp: answers_def)

lemma answers_live:
  assumes "answers True ok P m s"
  obtains x s' where "m s = Some (Some x, s')" and "ok s'" and "P x"
  using assms by (auto simp: answers_def)

section \<open>Constraints and queries\<close>

text \<open>
  \<open>ConstraintManager\<close>: a root node and the nodes from the head down to the root.  A node is determined by its
  parent and its expression (\<open>getOrCreate\<close> looks for an existing child first), so two managers have the same
  head exactly if they have the same root and the same expressions.
\<close>

record 'a constraint_manager =
  cm_root :: nat
  nodes :: "'a expr list"

definition ConstraintManager :: "nat \<Rightarrow> 'a constraint_manager" where
  "ConstraintManager root = \<lparr>cm_root = root, nodes = []\<rparr>"

definition getOrCreate :: "'a constraint_manager \<Rightarrow> 'a expr \<Rightarrow> 'a constraint_manager" where
  "getOrCreate cm e = cm\<lparr>nodes := e # nodes cm\<rparr>"

definition cm_empty :: "'a constraint_manager \<Rightarrow> bool" where
  "cm_empty cm \<longleftrightarrow> nodes cm = []"

definition cm_size :: "'a constraint_manager \<Rightarrow> nat" where
  "cm_size cm = length (nodes cm)"

fun addConstraint :: "'a ops \<Rightarrow> 'a constraint_manager \<Rightarrow> 'a expr \<Rightarrow> 'a constraint_manager option" where
  "addConstraint A cm (ConstantExpr c) = (if const_isTrue A c then Some cm else None)"
| "addConstraint A cm (BinaryExpr And l r) =
     do { cm \<leftarrow> addConstraint A cm l; addConstraint A cm r }"
| "addConstraint A cm e = Some (getOrCreate cm e)"

definition ConstraintManager_vector :: "'a ops \<Rightarrow> nat \<Rightarrow> 'a expr list \<Rightarrow> 'a constraint_manager option" where
  "ConstraintManager_vector A root cs = foldM (addConstraint A) (ConstraintManager root) cs"

record 'a query =
  constraints :: "'a constraint_manager"
  q_expr :: "'a expr"

definition withExpr :: "'a query \<Rightarrow> 'a expr \<Rightarrow> 'a query" where
  "withExpr q e = \<lparr>constraints = constraints q, q_expr = e\<rparr>"

definition withFalse :: "'a ops \<Rightarrow> 'a query \<Rightarrow> 'a query" where
  "withFalse A q = \<lparr>constraints = constraints q, q_expr = ConstantExpr_alloc A 0 1\<rparr>"

definition negateExpr :: "'a ops \<Rightarrow> 'a query \<Rightarrow> 'a query" where
  "negateExpr A q = withExpr q (createIsZero A (q_expr q))"

section \<open>The interface of a solver implementation\<close>

datatype validity = VTrue | VFalse | Unknown

text \<open>
  \<open>computeInitialValues\<close> has two results, the values and \<open>hasSolution\<close>: the model returns \<open>None\<close> for no solution.
\<close>

record ('s, 'a) solver_impl =
  computeValidity :: "'a query \<Rightarrow> ('s, validity) comp"
  computeTruth :: "'a query \<Rightarrow> ('s, bool) comp"
  computeValue :: "'a query \<Rightarrow> ('s, 'a expr) comp"
  computeInitialValues :: "'a query \<Rightarrow> 'a array_obj list \<Rightarrow> ('s, 8 word list list option) comp"

text \<open>\<open>SolverImpl::computeValidity\<close>, the default implementation.\<close>

definition SolverImpl_computeValidity ::
    "'a ops \<Rightarrow> ('a query \<Rightarrow> ('s, bool) comp) \<Rightarrow> 'a query \<Rightarrow> ('s, validity) comp" where
  "SolverImpl_computeValidity A truth query =
     call (truth query) (\<lambda>isTrue.
       if isTrue then give VTrue
       else call (truth (negateExpr A query)) (\<lambda>isFalse.
         give (if isFalse then VFalse else Unknown)))"

section \<open>The class \<open>Solver\<close>\<close>

definition evaluate :: "'a ops \<Rightarrow> ('s, 'a) solver_impl \<Rightarrow> 'a query \<Rightarrow> ('s, validity) comp" where
  "evaluate A impl query =
     (if getWidth A (q_expr query) \<noteq> 1 then pabort
      else case dyn_cast_Constant (q_expr query) of
        Some CE \<Rightarrow> give (if const_isTrue A CE then VTrue else VFalse)
      | None \<Rightarrow> computeValidity impl query)"

definition mustBeTrue :: "'a ops \<Rightarrow> ('s, 'a) solver_impl \<Rightarrow> 'a query \<Rightarrow> ('s, bool) comp" where
  "mustBeTrue A impl query =
     (if getWidth A (q_expr query) \<noteq> 1 then pabort
      else case dyn_cast_Constant (q_expr query) of
        Some CE \<Rightarrow> give (const_isTrue A CE)
      | None \<Rightarrow> computeTruth impl query)"

definition mustBeFalse :: "'a ops \<Rightarrow> ('s, 'a) solver_impl \<Rightarrow> 'a query \<Rightarrow> ('s, bool) comp" where
  "mustBeFalse A impl query = mustBeTrue A impl (negateExpr A query)"

definition mayBeTrue :: "'a ops \<Rightarrow> ('s, 'a) solver_impl \<Rightarrow> 'a query \<Rightarrow> ('s, bool) comp" where
  "mayBeTrue A impl query = call (mustBeFalse A impl query) (\<lambda>res. give (\<not> res))"

definition mayBeFalse :: "'a ops \<Rightarrow> ('s, 'a) solver_impl \<Rightarrow> 'a query \<Rightarrow> ('s, bool) comp" where
  "mayBeFalse A impl query = call (mustBeTrue A impl query) (\<lambda>res. give (\<not> res))"

definition getValue :: "'a ops \<Rightarrow> ('s, 'a) solver_impl \<Rightarrow> 'a query \<Rightarrow> ('s, 'a) comp" where
  "getValue A impl query =
     (case dyn_cast_Constant (q_expr query) of
        Some CE \<Rightarrow> give CE
      | None \<Rightarrow> call (computeValue impl query) (\<lambda>tmp.
          case dyn_cast_Constant tmp of Some c \<Rightarrow> give c | None \<Rightarrow> pabort))"

definition getInitialValues ::
    "('s, 'a) solver_impl \<Rightarrow> 'a query \<Rightarrow> 'a array_obj list \<Rightarrow> ('s, 8 word list list) comp" where
  "getInitialValues impl query objects =
     call (computeInitialValues impl query objects) (\<lambda>res.
       case res of Some values \<Rightarrow> give values | None \<Rightarrow> fail)"

subsection \<open>\<open>getRange\<close>\<close>

text \<open>
  The three binary searches of \<open>getRange\<close> differ in the question \<open>ask mid\<close> only.  \<open>lo\<close> and \<open>hi\<close> are
  \<open>uint64_t\<close>; \<open>mid + 1\<close> is at most \<open>hi\<close>, so nothing wraps.  A failure of the solver is a failed assertion.
\<close>

function getRange_search :: "(nat \<Rightarrow> ('s, bool) comp) \<Rightarrow> nat \<Rightarrow> nat \<Rightarrow> ('s, nat) comp" where
  "getRange_search ask lo hi s =
     (if lo < hi then
        let mid = lo + (hi - lo) div 2 in
        case ask mid s of
          None \<Rightarrow> None
        | Some (None, s') \<Rightarrow> None
        | Some (Some res, s') \<Rightarrow>
            if res then getRange_search ask lo mid s' else getRange_search ask (mid + 1) hi s'
      else Some (Some lo, s))"
  by pat_completeness auto
termination
  by (relation "measure (\<lambda>(_, lo, hi, _). hi - lo)") auto

declare getRange_search.simps [simp del]

definition assert_success :: "('s, 'r) comp \<Rightarrow> ('s, 'r) comp" where
  "assert_success m s = (case m s of Some (Some x, s') \<Rightarrow> Some (Some x, s') | _ \<Rightarrow> None)"

text \<open>The bounds of an expression that is wider than one bit and not constant.\<close>

definition getRange_bounds :: "'a ops \<Rightarrow> ('s, 'a) solver_impl \<Rightarrow> 'a query \<Rightarrow> ('s, nat \<times> nat) comp" where
  "getRange_bounds A impl query =
     (let e = q_expr query; width = getWidth A e; const = (\<lambda>v. ConstantExpr_alloc A v width) in
      call (getRange_search (\<lambda>mid. mustBeTrue A impl (withExpr query
              (Bin_create A Eq (Bin_create A LShr e (const mid)) (const 0)))) 0 width) (\<lambda>bits.
      call (assert_success (mayBeTrue A impl (withExpr query (Bin_create A Eq e (const 0))))) (\<lambda>res.
      call (if res then give 0
            else getRange_search (\<lambda>mid. mayBeTrue A impl (withExpr query
                   (Bin_create A Ule e (const mid)))) 0 (unat (maxValueOfNBits64 bits))) (\<lambda>min.
      call (getRange_search (\<lambda>mid. mustBeTrue A impl (withExpr query
              (Bin_create A Ule e (const mid)))) min (unat (maxValueOfNBits64 bits))) (\<lambda>max.
      give (min, max))))))"

definition getRange :: "'a ops \<Rightarrow> ('s, 'a) solver_impl \<Rightarrow> 'a query \<Rightarrow> ('s, 'a expr \<times> 'a expr) comp" where
  "getRange A impl query =
     (let e = q_expr query; width = getWidth A e in
      call (if width = 1 then
              call (assert_success (evaluate A impl query)) (\<lambda>result. give
                (case result of VTrue \<Rightarrow> (1, 1) | VFalse \<Rightarrow> (0, 0) | Unknown \<Rightarrow> (0, 1)))
            else case dyn_cast_Constant e of
              Some CE \<Rightarrow> give (ap_getZExtValue A CE, ap_getZExtValue A CE)
            | None \<Rightarrow> getRange_bounds A impl query)
        (\<lambda>(min, max). give (ConstantExpr_alloc A min width, ConstantExpr_alloc A max width)))"

section \<open>The contract\<close>

text \<open>
  \<open>good\<close> expressions are typed and safe under every assignment; a query is \<open>query_ok\<close> if it is built from
  good expressions and its constraints are satisfiable, which the executor maintains on every path.
\<close>

definition good :: "'a ops \<Rightarrow> 'a expr \<Rightarrow> bool" where
  "good A e \<longleftrightarrow> wt A e \<and> (\<forall>\<sigma>. safe A \<sigma> e)"

definition holds :: "'a ops \<Rightarrow> 'a expr list \<Rightarrow> ('a array_obj \<Rightarrow> nat \<Rightarrow> int) \<Rightarrow> bool" where
  "holds A cs \<sigma> \<longleftrightarrow> (\<forall>c \<in> set cs. sem A \<sigma> c \<noteq> 0)"

text \<open>
  The assignments that count give bytes to the elements of symbolic arrays.  Beyond the end of an array they are
  zero, which is what \<open>Assignment::evaluate\<close> returns there.
\<close>

definition proper :: "('a array_obj \<Rightarrow> nat \<Rightarrow> int) \<Rightarrow> bool" where
  "proper \<sigma> \<longleftrightarrow> (\<forall>obj i. isConstantArray obj \<or> array_size obj \<le> i \<longrightarrow> \<sigma> obj i = 0)"

definition sat :: "'a ops \<Rightarrow> 'a query \<Rightarrow> ('a array_obj \<Rightarrow> nat \<Rightarrow> int) \<Rightarrow> bool" where
  "sat A q \<sigma> \<longleftrightarrow> proper \<sigma> \<and> holds A (nodes (constraints q)) \<sigma>"

definition constraint_ok :: "'a ops \<Rightarrow> 'a expr \<Rightarrow> bool" where
  "constraint_ok A c \<longleftrightarrow> good A c \<and> getWidth A c = 1"

text \<open>
  A solver may be limited to a class \<open>D\<close> of expressions, as long as the class contains the expressions that the
  solvers build from the expressions of a query.
\<close>

definition expr_class :: "'a ops \<Rightarrow> ('a expr \<Rightarrow> bool) \<Rightarrow> bool" where
  "expr_class A D \<longleftrightarrow>
     (\<forall>c. D (ConstantExpr c)) \<and>
     (\<forall>l r. good A l \<longrightarrow> good A r \<longrightarrow> getWidth A l = getWidth A r \<longrightarrow> D l \<longrightarrow> D r \<longrightarrow>
        D (Eq_create A l r) \<and> D (Bin_create A LShr l r) \<and> D (Bin_create A Ule l r))"

definition any_expr :: "'a expr \<Rightarrow> bool" where
  "any_expr e = True"

definition query_ok :: "'a ops \<Rightarrow> ('a expr \<Rightarrow> bool) \<Rightarrow> 'a query \<Rightarrow> bool" where
  "query_ok A D q \<longleftrightarrow> good A (q_expr q) \<and> D (q_expr q) \<and>
     (\<forall>c \<in> set (nodes (constraints q)). constraint_ok A c \<and> D c) \<and> (\<exists>\<sigma>. sat A q \<sigma>)"

definition bool_query :: "'a ops \<Rightarrow> ('a expr \<Rightarrow> bool) \<Rightarrow> 'a query \<Rightarrow> bool" where
  "bool_query A D q \<longleftrightarrow> query_ok A D q \<and> getWidth A (q_expr q) = 1"

definition must_hold :: "'a ops \<Rightarrow> 'a query \<Rightarrow> bool" where
  "must_hold A q \<longleftrightarrow> (\<forall>\<sigma>. sat A q \<sigma> \<longrightarrow> sem A \<sigma> (q_expr q) \<noteq> 0)"

definition may_hold :: "'a ops \<Rightarrow> 'a query \<Rightarrow> bool" where
  "may_hold A q \<longleftrightarrow> (\<exists>\<sigma>. sat A q \<sigma> \<and> sem A \<sigma> (q_expr q) \<noteq> 0)"

definition validity_of :: "'a ops \<Rightarrow> 'a query \<Rightarrow> validity" where
  "validity_of A q = (if must_hold A q then VTrue else if may_hold A q then Unknown else VFalse)"

definition possible_value :: "'a ops \<Rightarrow> 'a query \<Rightarrow> 'a expr \<Rightarrow> bool" where
  "possible_value A q e \<longleftrightarrow>
     (\<exists>c \<sigma>. e = ConstantExpr c \<and> getBitWidth A c = getWidth A (q_expr q) \<and> sat A q \<sigma> \<and>
        ap_uint A c = sem A \<sigma> (q_expr q))"

text \<open>The bytes of the objects under an assignment, and what the initial values of a query are.\<close>

definition object_bytes :: "('a array_obj \<Rightarrow> nat \<Rightarrow> int) \<Rightarrow> 'a array_obj \<Rightarrow> 8 word list" where
  "object_bytes \<sigma> obj = map (\<lambda>i. word_of_int (\<sigma> obj i)) [0..<array_size obj]"

definition counterexample ::
    "'a ops \<Rightarrow> 'a query \<Rightarrow> 'a array_obj list \<Rightarrow> 8 word list list option \<Rightarrow> bool" where
  "counterexample A q objects res =
     (case res of
        None \<Rightarrow> must_hold A q
      | Some values \<Rightarrow> (\<exists>\<sigma>. sat A q \<sigma> \<and> sem A \<sigma> (q_expr q) = 0 \<and> values = map (object_bytes \<sigma>) objects))"

locale solver_contract = apint A for A :: "'a ops" +
  fixes D :: "'a expr \<Rightarrow> bool" and live :: bool and ok :: "'s \<Rightarrow> bool" and S :: "('s, 'a) solver_impl"
  assumes closed: "expr_class A D"
    and truth: "bool_query A D q \<Longrightarrow> ok s \<Longrightarrow> answers live ok (\<lambda>b. b = must_hold A q) (computeTruth S q) s"
    and validity: "bool_query A D q \<Longrightarrow> ok s \<Longrightarrow>
      answers live ok (\<lambda>v. v = validity_of A q) (computeValidity S q) s"
    and feasible_value: "query_ok A D q \<Longrightarrow> ok s \<Longrightarrow> answers live ok (possible_value A q) (computeValue S q) s"
    and initial_values: "bool_query A D q \<Longrightarrow> ok s \<Longrightarrow>
      answers live ok (counterexample A q objects) (computeInitialValues S q objects) s"

end
