(* ===== verification/SolverWrappers.thy ===== *)
theory SolverWrappers
  imports Solver
begin

text \<open>
  The solvers that are built on top of another solver: \<open>ValidatingSolver\<close> and \<open>DummySolverImpl\<close>
  (\<open>klee/lib/Solver/Solver.cpp\<close>), \<open>IncompleteSolver\<close> and \<open>StagedSolverImpl\<close>
  (\<open>klee/lib/Solver/IncompleteSolver.cpp\<close>), and \<open>CachingSolver\<close> (\<open>klee/lib/Solver/CachingSolver.cpp\<close>).  The state
  of a wrapper is its own state paired with the state of the solver below; the counters of
  \<open>klee::stats\<close> are left out.
\<close>

section \<open>\<open>DummySolverImpl\<close>\<close>

definition DummySolver :: "('s, 'a) solver_impl" where
  "DummySolver = \<lparr>
     computeValidity = (\<lambda>_. fail),
     computeTruth = (\<lambda>_. fail),
     computeValue = (\<lambda>_. fail),
     computeInitialValues = (\<lambda>_ _. fail)\<rparr>"

section \<open>\<open>ValidatingSolver\<close>\<close>

text \<open>
  \<open>VOTING_SOLVER\<close> is defined: both solvers are asked \<open>VOTE_COUNT\<close> times.  \<open>rnd i\<close> is \<open>rand() & 1\<close> in round
  \<open>i\<close>.  The state is the pair of the states of the solver and of the oracle.
\<close>

definition VOTE_COUNT :: nat where
  "VOTE_COUNT = 3"

fun vote_truth ::
    "(nat \<Rightarrow> bool) \<Rightarrow> ('s, 'a) solver_impl \<Rightarrow> ('t, 'a) solver_impl \<Rightarrow> 'a query \<Rightarrow> nat list \<Rightarrow> nat \<Rightarrow> nat \<Rightarrow>
     ('s \<times> 't, nat \<times> nat) comp" where
  "vote_truth rnd solver oracle query [] trueCount falseCount = give (trueCount, falseCount)"
| "vote_truth rnd solver oracle query (i # is) trueCount falseCount =
     call (on_snd (computeTruth oracle query)) (\<lambda>res1.
     call (on_fst (computeTruth solver query)) (\<lambda>res2.
       let result = (if res1 = res2 then res1 else if rnd i then res1 else res2) in
       if result then vote_truth rnd solver oracle query is (trueCount + 1) falseCount
       else vote_truth rnd solver oracle query is trueCount (falseCount + 1)))"

definition Validating_computeTruth ::
    "(nat \<Rightarrow> bool) \<Rightarrow> ('s, 'a) solver_impl \<Rightarrow> ('t, 'a) solver_impl \<Rightarrow> 'a query \<Rightarrow> ('s \<times> 't, bool) comp" where
  "Validating_computeTruth rnd solver oracle query =
     call (vote_truth rnd solver oracle query [0..<VOTE_COUNT] 0 0) (\<lambda>(trueCount, falseCount).
       give (trueCount > falseCount))"

text \<open>Both branches of the comparison take the answer of the solver.\<close>

fun vote_validity ::
    "('s, 'a) solver_impl \<Rightarrow> ('t, 'a) solver_impl \<Rightarrow> 'a query \<Rightarrow> nat \<Rightarrow> nat \<Rightarrow> nat \<Rightarrow> nat \<Rightarrow>
     ('s \<times> 't, nat \<times> nat \<times> nat) comp" where
  "vote_validity solver oracle query 0 trueCount falseCount unknownCount =
     give (trueCount, falseCount, unknownCount)"
| "vote_validity solver oracle query (Suc n) trueCount falseCount unknownCount =
     call (on_fst (computeValidity solver query)) (\<lambda>res1.
     call (on_snd (computeValidity oracle query)) (\<lambda>res2.
       case (if res1 = res2 then res1 else res1) of
         VTrue \<Rightarrow> vote_validity solver oracle query n (trueCount + 1) falseCount unknownCount
       | VFalse \<Rightarrow> vote_validity solver oracle query n trueCount (falseCount + 1) unknownCount
       | Unknown \<Rightarrow> vote_validity solver oracle query n trueCount falseCount (unknownCount + 1)))"

definition Validating_computeValidity ::
    "('s, 'a) solver_impl \<Rightarrow> ('t, 'a) solver_impl \<Rightarrow> 'a query \<Rightarrow> ('s \<times> 't, validity) comp" where
  "Validating_computeValidity solver oracle query =
     call (vote_validity solver oracle query VOTE_COUNT 0 0 0) (\<lambda>(trueCount, falseCount, unknownCount).
       if trueCount > falseCount \<and> falseCount \<ge> unknownCount then give VTrue
       else if trueCount > unknownCount \<and> unknownCount \<ge> falseCount then give VTrue
       else if falseCount > trueCount \<and> trueCount \<ge> unknownCount then give VFalse
       else if falseCount > unknownCount \<and> unknownCount \<ge> trueCount then give VFalse
       else if unknownCount > falseCount \<and> falseCount \<ge> trueCount then give Unknown
       else if unknownCount > trueCount \<and> trueCount \<ge> falseCount then give Unknown
       else pabort)"

definition Validating_computeValue ::
    "'a ops \<Rightarrow> ('s, 'a) solver_impl \<Rightarrow> ('t, 'a) solver_impl \<Rightarrow> 'a query \<Rightarrow> ('s \<times> 't, 'a expr) comp" where
  "Validating_computeValue A solver oracle query =
     call (on_fst (computeValue solver query)) (\<lambda>result.
     call (on_snd (computeTruth oracle (withExpr query (Ne_create A (q_expr query) result)))) (\<lambda>answer.
       if answer then pabort else give result))"

text \<open>
  \<open>EqExpr::create(ReadExpr::create(UpdateList::create(array, 0), j), values[i][j])\<close> for every byte of every
  object that has a value.  \<open>None\<close> is an access beyond the end of a vector.
\<close>

definition binding :: "'a ops \<Rightarrow> 'a array_obj \<Rightarrow> nat \<Rightarrow> 8 word \<Rightarrow> 'a expr" where
  "binding A array j value =
     Bin_create A Eq (Read_create A array NoUpdate (ConstantExpr_alloc A j 32)) (ConstantExpr_alloc A (unat value) 8)"

fun bindings_of :: "'a ops \<Rightarrow> 'a array_obj list \<Rightarrow> 8 word list list \<Rightarrow> 'a expr list option" where
  "bindings_of A objects [] = Some []"
| "bindings_of A [] (v # vs) = None"
| "bindings_of A (obj # objects) (v # vs) =
     (if length v < array_size obj then None
      else map_option (\<lambda>rest. map (\<lambda>j. binding A obj j (v ! j)) [0..<array_size obj] @ rest)
             (bindings_of A objects vs))"

definition Validating_computeInitialValues ::
    "'a ops \<Rightarrow> nat \<Rightarrow> ('s, 'a) solver_impl \<Rightarrow> ('t, 'a) solver_impl \<Rightarrow> 'a query \<Rightarrow> 'a array_obj list \<Rightarrow>
     ('s \<times> 't, 8 word list list option) comp" where
  "Validating_computeInitialValues A root solver oracle query objects =
     call (on_fst (computeInitialValues solver query objects)) (\<lambda>res.
       case res of
         Some values \<Rightarrow>
           (case do { bindings \<leftarrow> bindings_of A objects values; ConstraintManager_vector A root bindings } of
              None \<Rightarrow> pabort
            | Some tmp \<Rightarrow>
                let cs = foldl (And_create A) (createIsZero A (q_expr query)) (nodes (constraints query)) in
                call (on_snd (computeTruth oracle \<lparr>constraints = tmp, q_expr = cs\<rparr>)) (\<lambda>answer.
                  if \<not> answer then pabort else give (Some values)))
       | None \<Rightarrow>
           call (on_snd (computeTruth oracle query)) (\<lambda>answer.
             if \<not> answer then pabort else give None))"

text \<open>\<open>root\<close> is the address of the root node of the temporary constraint manager.\<close>

definition ValidatingSolver ::
    "'a ops \<Rightarrow> (nat \<Rightarrow> bool) \<Rightarrow> nat \<Rightarrow> ('s, 'a) solver_impl \<Rightarrow> ('t, 'a) solver_impl \<Rightarrow> ('s \<times> 't, 'a) solver_impl" where
  "ValidatingSolver A rnd root solver oracle = \<lparr>
     computeValidity = Validating_computeValidity solver oracle,
     computeTruth = Validating_computeTruth rnd solver oracle,
     computeValue = Validating_computeValue A solver oracle,
     computeInitialValues = Validating_computeInitialValues A root solver oracle\<rparr>"

section \<open>\<open>IncompleteSolver\<close> and \<open>StagedSolverImpl\<close>\<close>

datatype partial_validity = MustBeTrue | MustBeFalse | MayBeTrue | MayBeFalse | TrueOrFalse | PV_None

text \<open>\<open>None\<close> is the abort on an invalid partial validity.\<close>

fun negatePartialValidity :: "partial_validity \<Rightarrow> partial_validity option" where
  "negatePartialValidity MustBeTrue = Some MustBeFalse"
| "negatePartialValidity MustBeFalse = Some MustBeTrue"
| "negatePartialValidity MayBeTrue = Some MayBeFalse"
| "negatePartialValidity MayBeFalse = Some MayBeTrue"
| "negatePartialValidity TrueOrFalse = Some TrueOrFalse"
| "negatePartialValidity PV_None = None"

record ('s, 'a) incomplete_solver =
  inc_computeValidity :: "'a query \<Rightarrow> ('s, partial_validity) comp"
  inc_computeTruth :: "'a query \<Rightarrow> ('s, partial_validity) comp"
  inc_computeValue :: "'a query \<Rightarrow> ('s, 'a expr) comp"
  inc_computeInitialValues :: "'a query \<Rightarrow> 'a array_obj list \<Rightarrow> ('s, 8 word list list option) comp"

text \<open>\<open>IncompleteSolver::computeValidity\<close>, the default implementation.\<close>

definition IncompleteSolver_computeValidity ::
    "'a ops \<Rightarrow> ('a query \<Rightarrow> ('s, partial_validity) comp) \<Rightarrow> 'a query \<Rightarrow> ('s, partial_validity) comp" where
  "IncompleteSolver_computeValidity A truth query =
     call (truth query) (\<lambda>trueResult.
       if trueResult = MustBeTrue then give MustBeTrue
       else call (truth (negateExpr A query)) (\<lambda>falseResult.
         if falseResult = MustBeTrue then give MustBeFalse
         else
           let trueCorrect = (trueResult \<noteq> PV_None); falseCorrect = (falseResult \<noteq> PV_None) in
           if trueCorrect \<and> falseCorrect then give TrueOrFalse
           else if trueCorrect then give MayBeFalse
           else if falseCorrect then give MayBeTrue
           else give PV_None))"

text \<open>\<open>if (m1) return true; return m2\<close>\<close>

definition or_else :: "('s, 'r) comp \<Rightarrow> ('s, 'r) comp \<Rightarrow> ('s, 'r) comp" where
  "or_else m1 m2 s = (case m1 s of Some (None, s') \<Rightarrow> m2 s' | r \<Rightarrow> r)"

definition Staged_computeTruth ::
    "('p, 'a) incomplete_solver \<Rightarrow> ('s, 'a) solver_impl \<Rightarrow> 'a query \<Rightarrow> ('p \<times> 's, bool) comp" where
  "Staged_computeTruth primary secondary query =
     call (on_fst (inc_computeTruth primary query)) (\<lambda>trueResult.
       if trueResult \<noteq> PV_None then give (trueResult = MustBeTrue)
       else on_snd (computeTruth secondary query))"

definition Staged_computeValidity ::
    "'a ops \<Rightarrow> ('p, 'a) incomplete_solver \<Rightarrow> ('s, 'a) solver_impl \<Rightarrow> 'a query \<Rightarrow> ('p \<times> 's, validity) comp" where
  "Staged_computeValidity A primary secondary query =
     call (on_fst (inc_computeValidity primary query)) (\<lambda>pv.
       case pv of
         MustBeTrue \<Rightarrow> give VTrue
       | MustBeFalse \<Rightarrow> give VFalse
       | TrueOrFalse \<Rightarrow> give Unknown
       | MayBeTrue \<Rightarrow> call (on_snd (computeTruth secondary query)) (\<lambda>tmp.
           give (if tmp then VTrue else Unknown))
       | MayBeFalse \<Rightarrow> call (on_snd (computeTruth secondary (negateExpr A query))) (\<lambda>tmp.
           give (if tmp then VFalse else Unknown))
       | PV_None \<Rightarrow> on_snd (computeValidity secondary query))"

definition Staged_computeValue ::
    "('p, 'a) incomplete_solver \<Rightarrow> ('s, 'a) solver_impl \<Rightarrow> 'a query \<Rightarrow> ('p \<times> 's, 'a expr) comp" where
  "Staged_computeValue primary secondary query =
     or_else (on_fst (inc_computeValue primary query)) (on_snd (computeValue secondary query))"

definition Staged_computeInitialValues ::
    "('p, 'a) incomplete_solver \<Rightarrow> ('s, 'a) solver_impl \<Rightarrow> 'a query \<Rightarrow> 'a array_obj list \<Rightarrow>
     ('p \<times> 's, 8 word list list option) comp" where
  "Staged_computeInitialValues primary secondary query objects =
     or_else (on_fst (inc_computeInitialValues primary query objects))
       (on_snd (computeInitialValues secondary query objects))"

definition StagedSolver ::
    "'a ops \<Rightarrow> ('p, 'a) incomplete_solver \<Rightarrow> ('s, 'a) solver_impl \<Rightarrow> ('p \<times> 's, 'a) solver_impl" where
  "StagedSolver A primary secondary = \<lparr>
     computeValidity = Staged_computeValidity A primary secondary,
     computeTruth = Staged_computeTruth primary secondary,
     computeValue = Staged_computeValue primary secondary,
     computeInitialValues = Staged_computeInitialValues primary secondary\<rparr>"

section \<open>\<open>CachingSolver\<close>\<close>

text \<open>
  The cache is an association list.  Two entries are equal if their constraint managers have the same head and
  their expressions are equal; the hash of an entry only chooses its bucket.
\<close>

type_synonym 'a cache_map = "(('a constraint_manager \<times> 'a expr) \<times> partial_validity) list"

definition canonicalizeQuery :: "'a ops \<Rightarrow> 'a expr \<Rightarrow> 'a expr \<times> bool" where
  "canonicalizeQuery A originalQuery =
     (let negatedQuery = createIsZero A originalQuery in
      if compare A originalQuery negatedQuery < 0 then (originalQuery, False) else (negatedQuery, True))"

definition cacheLookup :: "'a ops \<Rightarrow> 'a query \<Rightarrow> ('a cache_map \<times> 's, partial_validity option) comp" where
  "cacheLookup A query st =
     (case canonicalizeQuery A (q_expr query) of
        (canonicalQuery, negationUsed) \<Rightarrow>
          (case map_of (fst st) (constraints query, canonicalQuery) of
             Some pv \<Rightarrow>
               if negationUsed then
                 case negatePartialValidity pv of
                   Some npv \<Rightarrow> give (Some npv) st
                 | None \<Rightarrow> pabort st
               else give (Some pv) st
           | None \<Rightarrow> give None st))"

text \<open>\<open>insert\<close> of \<open>std::unordered_map\<close> leaves an existing entry as it is.\<close>

definition map_insert :: "'k \<Rightarrow> 'v \<Rightarrow> ('k \<times> 'v) list \<Rightarrow> ('k \<times> 'v) list" where
  "map_insert k v m = (if map_of m k = None then (k, v) # m else m)"

definition cacheInsert :: "'a ops \<Rightarrow> 'a query \<Rightarrow> partial_validity \<Rightarrow> ('a cache_map \<times> 's, unit) comp" where
  "cacheInsert A query result st =
     (case canonicalizeQuery A (q_expr query) of
        (canonicalQuery, negationUsed) \<Rightarrow>
          (case (if negationUsed then negatePartialValidity result else Some result) of
             Some cachedResult \<Rightarrow>
               give () (map_insert (constraints query, canonicalQuery) cachedResult (fst st), snd st)
           | None \<Rightarrow> pabort st))"

definition Caching_computeValidity ::
    "'a ops \<Rightarrow> ('s, 'a) solver_impl \<Rightarrow> 'a query \<Rightarrow> ('a cache_map \<times> 's, validity) comp" where
  "Caching_computeValidity A solver query =
     call (cacheLookup A query) (\<lambda>cached.
       case cached of
         Some MustBeTrue \<Rightarrow> give VTrue
       | Some MustBeFalse \<Rightarrow> give VFalse
       | Some TrueOrFalse \<Rightarrow> give Unknown
       | Some MayBeTrue \<Rightarrow> call (on_snd (computeTruth solver query)) (\<lambda>tmp.
           if tmp then call (cacheInsert A query MustBeTrue) (\<lambda>_. give VTrue)
           else call (cacheInsert A query TrueOrFalse) (\<lambda>_. give Unknown))
       | Some MayBeFalse \<Rightarrow> call (on_snd (computeTruth solver (negateExpr A query))) (\<lambda>tmp.
           if tmp then call (cacheInsert A query MustBeFalse) (\<lambda>_. give VFalse)
           else call (cacheInsert A query TrueOrFalse) (\<lambda>_. give Unknown))
       | Some PV_None \<Rightarrow> pabort
       | None \<Rightarrow> call (on_snd (computeValidity solver query)) (\<lambda>result.
           call (cacheInsert A query
             (case result of VTrue \<Rightarrow> MustBeTrue | VFalse \<Rightarrow> MustBeFalse | Unknown \<Rightarrow> TrueOrFalse)) (\<lambda>_.
           give result)))"

definition Caching_computeTruth ::
    "'a ops \<Rightarrow> ('s, 'a) solver_impl \<Rightarrow> 'a query \<Rightarrow> ('a cache_map \<times> 's, bool) comp" where
  "Caching_computeTruth A solver query =
     call (cacheLookup A query) (\<lambda>cached.
       if cached \<noteq> None \<and> cached \<noteq> Some MayBeTrue then give (cached = Some MustBeTrue)
       else call (on_snd (computeTruth solver query)) (\<lambda>isValid.
         call (cacheInsert A query
           (if isValid then MustBeTrue else if cached \<noteq> None then TrueOrFalse else MayBeFalse)) (\<lambda>_.
         give isValid)))"

definition CachingSolver :: "'a ops \<Rightarrow> ('s, 'a) solver_impl \<Rightarrow> ('a cache_map \<times> 's, 'a) solver_impl" where
  "CachingSolver A solver = \<lparr>
     computeValidity = Caching_computeValidity A solver,
     computeTruth = Caching_computeTruth A solver,
     computeValue = (\<lambda>query. on_snd (computeValue solver query)),
     computeInitialValues = (\<lambda>query objects. on_snd (computeInitialValues solver query objects))\<rparr>"

end
