(* ===== verification/Solver_Sound.thy ===== *)
theory Solver_Sound
  imports Solver
begin

text \<open>
  The class \<open>Solver\<close> answers correctly when its implementation keeps the contract, \<open>getRange\<close> computes the exact
  range, and adding constraints means conjunction.
\<close>

section \<open>Queries\<close>

lemma withExpr_simps [simp]:
  "constraints (withExpr q e) = constraints q" "q_expr (withExpr q e) = e"
  "constraints (negateExpr A q) = constraints q" "constraints (withFalse A q) = constraints q"
  "q_expr (negateExpr A q) = createIsZero A (q_expr q)" "q_expr (withFalse A q) = ConstantExpr_alloc A 0 1"
  by (simp_all add: withExpr_def negateExpr_def withFalse_def)

lemma sat_with [simp]:
  "sat A (withExpr q e) = sat A q" "sat A (negateExpr A q) = sat A q" "sat A (withFalse A q) = sat A q"
  by (auto simp: sat_def fun_eq_iff)

lemma expr_class_any [simp, intro]: "expr_class A any_expr"
  by (simp add: expr_class_def any_expr_def)

context apint
begin

lemma good_denotes: "good A e \<Longrightarrow> denotes A \<sigma> e (getWidth A e) (sem A \<sigma> e)"
  by (simp add: good_def denotes_def)

lemma good_created:
  assumes "\<And>\<sigma>. denotes A \<sigma> e w (f \<sigma>)"
  shows "good A e" and "getWidth A e = w" and "sem A \<sigma> e = f \<sigma>"
  using assms by (auto simp: good_def denotes_def)

lemma good_sem_fits: "good A e \<Longrightarrow> fits (getWidth A e) (sem A \<sigma> e)"
  using good_denotes denotes_fits by blast

lemma createIsZero_good:
  assumes "good A e"
  shows "good A (createIsZero A e)" and "getWidth A (createIsZero A e) = 1"
    and "sem A \<sigma> (createIsZero A e) = of_bool (sem A \<sigma> e = 0)"
  using good_created [OF createIsZero_denotes [OF good_denotes [OF assms]]] by simp_all

lemma alloc_good: "width_ok w \<Longrightarrow> good A (ConstantExpr_alloc A v w) \<and> getWidth A (ConstantExpr_alloc A v w) = w"
  by (simp add: good_def ConstantExpr_alloc_def apint_simps)

lemma expr_class_alloc: "expr_class A D \<Longrightarrow> D (ConstantExpr_alloc A v w)"
  by (simp add: expr_class_def ConstantExpr_alloc_def)

lemma expr_class_create:
  assumes "expr_class A D" and "good A l" and "good A r" and "getWidth A l = getWidth A r" and "D l" and "D r"
  shows "D (Eq_create A l r)" and "D (Bin_create A LShr l r)" and "D (Bin_create A Ule l r)"
  using assms unfolding expr_class_def by blast+

lemma good_width_ok: "good A e \<Longrightarrow> width_ok (getWidth A e)"
  by (simp add: good_def wt_width_ok)

lemma expr_class_createIsZero: "expr_class A D \<Longrightarrow> good A e \<Longrightarrow> D e \<Longrightarrow> D (createIsZero A e)"
  unfolding createIsZero_def
  by (rule expr_class_create(1)) (simp_all add: expr_class_alloc alloc_good good_width_ok)

lemma bool_query_negate: "expr_class A D \<Longrightarrow> bool_query A D q \<Longrightarrow> bool_query A D (negateExpr A q)"
  by (simp add: bool_query_def query_ok_def createIsZero_good expr_class_createIsZero)

lemma negate_holds:
  assumes "query_ok A D q"
  shows "must_hold A (negateExpr A q) \<longleftrightarrow> \<not> may_hold A q" and "may_hold A (negateExpr A q) \<longleftrightarrow> \<not> must_hold A q"
  using assms by (auto simp: must_hold_def may_hold_def query_ok_def createIsZero_good)

lemma must_imp_may: "query_ok A D q \<Longrightarrow> must_hold A q \<Longrightarrow> may_hold A q"
  by (auto simp: must_hold_def may_hold_def query_ok_def)

lemma validity_of_negate:
  assumes "query_ok A D q"
  shows "validity_of A (negateExpr A q) =
    (case validity_of A q of VTrue \<Rightarrow> VFalse | VFalse \<Rightarrow> VTrue | Unknown \<Rightarrow> Unknown)"
  using must_imp_may [OF assms] by (auto simp: validity_of_def negate_holds [OF assms])

lemma bool_query_withFalse: "expr_class A D \<Longrightarrow> query_ok A D q \<Longrightarrow> bool_query A D (withFalse A q)"
  using alloc_good [of 1 0] by (simp add: bool_query_def query_ok_def expr_class_alloc)

lemma bool_query_withExpr:
  "query_ok A D q \<Longrightarrow> good A e \<Longrightarrow> getWidth A e = 1 \<Longrightarrow> D e \<Longrightarrow> bool_query A D (withExpr q e)"
  by (simp add: bool_query_def query_ok_def)

lemma const_isTrue_iff: "getBitWidth A c = 1 \<Longrightarrow> const_isTrue A c \<longleftrightarrow> ap_uint A c \<noteq> 0"
  by (simp add: const_isTrue_def apint_simps)

lemma constant_query:
  assumes "bool_query A D q" and "q_expr q = ConstantExpr c"
  shows "const_isTrue A c = must_hold A q" and "const_isTrue A c = may_hold A q"
  using assms by (auto simp: bool_query_def query_ok_def must_hold_def may_hold_def const_isTrue_iff)

end

section \<open>Adding constraints\<close>

lemma holds_simps [simp]: "holds A [] \<sigma>" "holds A (c # cs) \<sigma> \<longleftrightarrow> sem A \<sigma> c \<noteq> 0 \<and> holds A cs \<sigma>"
  "holds A (xs @ ys) \<sigma> \<longleftrightarrow> holds A xs \<sigma> \<and> holds A ys \<sigma>"
  by (auto simp: holds_def)

lemma and_1_neq_0: "fits (Suc 0) a \<Longrightarrow> fits (Suc 0) b \<Longrightarrow> a AND b \<noteq> 0 \<longleftrightarrow> a \<noteq> 0 \<and> b \<noteq> 0"
  by (auto dest!: fits_1_cases)

text \<open>The manager \<open>cm'\<close> is \<open>cm\<close> with the conjunction of \<open>cs\<close> added.\<close>

definition conjoined :: "'a ops \<Rightarrow> 'a constraint_manager \<Rightarrow> 'a expr list \<Rightarrow> 'a constraint_manager \<Rightarrow> bool" where
  "conjoined A cm cs cm' \<longleftrightarrow> cm_root cm' = cm_root cm \<and>
     (\<forall>\<sigma>. holds A (nodes cm') \<sigma> \<longleftrightarrow> holds A (nodes cm) \<sigma> \<and> holds A cs \<sigma>) \<and>
     ((\<forall>c \<in> set (nodes cm). constraint_ok A c) \<longrightarrow> (\<forall>c \<in> set (nodes cm'). constraint_ok A c))"

context apint
begin

lemma constraint_ok_And:
  assumes "constraint_ok A (BinaryExpr And l r)"
  shows "constraint_ok A l \<and> constraint_ok A r \<and>
    (sem A \<sigma> (BinaryExpr And l r) \<noteq> 0 \<longleftrightarrow> sem A \<sigma> l \<noteq> 0 \<and> sem A \<sigma> r \<noteq> 0)"
proof -
  have "constraint_ok A l \<and> constraint_ok A r" using assms by (auto simp: constraint_ok_def good_def)
  moreover from this have "fits (Suc 0) (sem A \<sigma> l)" "fits (Suc 0) (sem A \<sigma> r)"
    using good_sem_fits [of l \<sigma>] good_sem_fits [of r \<sigma>] by (auto simp: constraint_ok_def)
  ultimately show ?thesis by (simp add: and_1_neq_0)
qed

lemma conjoined_getOrCreate: "constraint_ok A e \<Longrightarrow> conjoined A cm [e] (getOrCreate cm e)"
  by (simp add: conjoined_def getOrCreate_def conj_commute)

lemma conjoined_trans: "conjoined A cm xs cm1 \<Longrightarrow> conjoined A cm1 ys cm2 \<Longrightarrow> conjoined A cm (xs @ ys) cm2"
  unfolding conjoined_def holds_simps by (elim conjE, intro conjI) (simp, blast, blast)

lemma addConstraint_correct:
  "constraint_ok A e \<Longrightarrow> addConstraint A cm e = Some cm' \<Longrightarrow> conjoined A cm [e] cm'"
proof (induction e arbitrary: cm cm' rule: expr_plain_induct)
  case (ConstantExpr c)
  then show ?case by (auto simp: conjoined_def const_isTrue_def apint_simps split: if_splits)
next
  case (BinaryExpr k l r)
  show ?case
  proof (cases "k = And")
    case True
    with BinaryExpr.prems obtain cm1 where cm1: "addConstraint A cm l = Some cm1" "addConstraint A cm1 r = Some cm'"
      by (auto split: Option.bind_splits)
    have c: "constraint_ok A (BinaryExpr And l r)" using BinaryExpr.prems(1) True by simp
    note k = constraint_ok_And [OF c]
    have "conjoined A cm [l] cm1" "conjoined A cm1 [r] cm'"
      using BinaryExpr.IH(1) [OF _ cm1(1)] BinaryExpr.IH(2) [OF _ cm1(2)] k by auto
    from conjoined_trans [OF this] k show ?thesis
      unfolding True conjoined_def by (simp del: sem.simps)
  next
    case False
    with BinaryExpr.prems have "cm' = getOrCreate cm (BinaryExpr k l r)" by (cases k) auto
    with BinaryExpr.prems(1) conjoined_getOrCreate show ?thesis by simp
  qed
qed (auto intro: conjoined_getOrCreate)

lemma addConstraint_succeeds:
  "constraint_ok A e \<Longrightarrow> sem A \<sigma> e \<noteq> 0 \<Longrightarrow> \<exists>cm'. addConstraint A cm e = Some cm'"
proof (induction e arbitrary: cm rule: expr_plain_induct)
  case (ConstantExpr c)
  then show ?case by (auto simp: constraint_ok_def const_isTrue_def apint_simps)
next
  case (BinaryExpr k l r)
  show ?case
  proof (cases "k = And")
    case True
    with BinaryExpr.prems have k: "constraint_ok A l" "constraint_ok A r" "sem A \<sigma> l \<noteq> 0" "sem A \<sigma> r \<noteq> 0"
      using constraint_ok_And [of l r \<sigma>] by auto
    from BinaryExpr.IH(1) [OF k(1,3)] obtain cm1 where "addConstraint A cm l = Some cm1" by blast
    with BinaryExpr.IH(2) [OF k(2,4), of cm1] True show ?thesis by simp
  next
    case False
    then show ?thesis by (cases k) auto
  qed
qed auto

lemma foldM_addConstraint:
  assumes "\<forall>c \<in> set cs. constraint_ok A c" and "holds A cs \<sigma>"
  shows "\<exists>cm'. foldM (addConstraint A) cm cs = Some cm' \<and> conjoined A cm cs cm'"
  using assms
proof (induction cs arbitrary: cm)
  case Nil
  then show ?case by (simp add: conjoined_def)
next
  case (Cons c cs)
  from Cons.prems obtain cm1 where cm1: "addConstraint A cm c = Some cm1"
    using addConstraint_succeeds [of c \<sigma> cm] by auto
  have "conjoined A cm [c] cm1" using addConstraint_correct [OF _ cm1] Cons.prems by simp
  moreover obtain cm' where "foldM (addConstraint A) cm1 cs = Some cm'" "conjoined A cm1 cs cm'"
    using Cons.IH [of cm1] Cons.prems by auto
  ultimately show ?case using cm1 conjoined_trans [of cm "[c]" cm1 cs cm'] by auto
qed

lemma ConstraintManager_vector_correct:
  assumes "\<forall>c \<in> set cs. constraint_ok A c" and "holds A cs \<sigma>"
  shows "\<exists>cm. ConstraintManager_vector A root cs = Some cm \<and> conjoined A (ConstraintManager root) cs cm"
  using foldM_addConstraint [OF assms, of "ConstraintManager root"]
  by (simp add: ConstraintManager_vector_def)

end

section \<open>The operations of \<open>Solver\<close>\<close>

context solver_contract
begin

lemma SolverImpl_computeValidity_answers:
  assumes "bool_query A D q" and "ok s"
    and "\<And>q s. bool_query A D q \<Longrightarrow> ok s \<Longrightarrow> answers live ok (\<lambda>b. b = must_hold A q) (truth q) s"
  shows "answers live ok (\<lambda>v. v = validity_of A q) (SolverImpl_computeValidity A truth q) s"
proof -
  have "query_ok A D q" using assms(1) by (simp add: bool_query_def)
  note n = negate_holds [OF this]
  show ?thesis
    unfolding SolverImpl_computeValidity_def
    by (rule answers_call [OF assms(3) [OF assms(1,2)]])
      (auto simp: validity_of_def n intro!: answers_give answers_call [OF assms(3) [OF bool_query_negate [OF closed assms(1)]]])
qed

lemma evaluate_answers:
  assumes "bool_query A D q" and "ok s"
  shows "answers live ok (\<lambda>v. v = validity_of A q) (evaluate A S q) s"
  using assms validity [OF assms] constant_query [OF assms(1)]
  by (auto simp: evaluate_def bool_query_def validity_of_def split: option.split)

lemma mustBeTrue_answers:
  assumes "bool_query A D q" and "ok s"
  shows "answers live ok (\<lambda>b. b = must_hold A q) (mustBeTrue A S q) s"
  using assms truth [OF assms] constant_query [OF assms(1)]
  by (auto simp: mustBeTrue_def bool_query_def split: option.split)

lemma mustBeFalse_answers:
  assumes "bool_query A D q" and "ok s"
  shows "answers live ok (\<lambda>b. b \<longleftrightarrow> \<not> may_hold A q) (mustBeFalse A S q) s"
  using mustBeTrue_answers [OF bool_query_negate [OF closed assms(1)] assms(2)] negate_holds(1) [of D q] assms(1)
  by (simp add: mustBeFalse_def bool_query_def)

lemma mayBeTrue_answers:
  assumes "bool_query A D q" and "ok s"
  shows "answers live ok (\<lambda>b. b \<longleftrightarrow> may_hold A q) (mayBeTrue A S q) s"
  unfolding mayBeTrue_def by (rule answers_call [OF mustBeFalse_answers [OF assms]]) auto

lemma mayBeFalse_answers:
  assumes "bool_query A D q" and "ok s"
  shows "answers live ok (\<lambda>b. b \<longleftrightarrow> \<not> must_hold A q) (mayBeFalse A S q) s"
  unfolding mayBeFalse_def by (rule answers_call [OF mustBeTrue_answers [OF assms]]) auto

lemma getValue_answers:
  assumes "query_ok A D q" and "ok s"
  shows "answers live ok (\<lambda>c. possible_value A q (ConstantExpr c)) (getValue A S q) s"
proof (cases "dyn_cast_Constant (q_expr q)")
  case None
  have *: "answers live ok (\<lambda>c. possible_value A q (ConstantExpr c))
      (case dyn_cast_Constant e of Some c \<Rightarrow> give c | None \<Rightarrow> pabort) s'"
    if "possible_value A q e" "ok s'" for e s'
    using that(1) unfolding possible_value_def by clarify (auto simp: possible_value_def that(2))
  from None show ?thesis
    unfolding getValue_def by (auto intro!: answers_call [OF feasible_value [OF assms]] *)
next
  case (Some c)
  then have "q_expr q = ConstantExpr c" by simp
  with assms Some show ?thesis
    by (auto simp: getValue_def possible_value_def query_ok_def)
qed

lemma getInitialValues_answers:
  assumes "bool_query A D q" and "ok s"
  shows "answers False ok (\<lambda>values. counterexample A q objects (Some values)) (getInitialValues S q objects) s"
proof -
  have *: "answers False ok (counterexample A q objects) (computeInitialValues S q objects) s"
    using initial_values [OF assms, of objects] unfolding answers_def by blast
  show ?thesis
    unfolding getInitialValues_def by (rule answers_call [OF *]) (auto split: option.split)
qed

end

section \<open>The range of an expression\<close>

lemma getRange_search_answers:
  assumes "\<And>mid s. lo \<le> mid \<Longrightarrow> mid < hi \<Longrightarrow> ok s \<Longrightarrow> answers True ok (\<lambda>b. b = P mid) (ask mid) s"
    and "\<And>m n. P m \<Longrightarrow> m \<le> n \<Longrightarrow> P n" and "P hi" and "lo \<le> hi" and "\<And>n. n < lo \<Longrightarrow> \<not> P n" and "ok s"
  shows "answers True ok (\<lambda>n. n \<le> hi \<and> P n \<and> (\<forall>m < n. \<not> P m)) (getRange_search ask lo hi) s"
  using assms
proof (induction ask lo hi s rule: getRange_search.induct)
  case (1 ask lo hi s)
  define mid where "mid = lo + (hi - lo) div 2"
  show ?case
  proof (cases "lo < hi")
    case True
    then have mid: "lo \<le> mid" "mid < hi" by (auto simp: mid_def)
    from answers_live [OF 1(3) [OF mid 1(8)]] obtain s' where s': "ask mid s = Some (Some (P mid), s')" "ok s'"
      by auto
    have e: "getRange_search ask lo hi s =
        (if P mid then getRange_search ask lo mid s' else getRange_search ask (mid + 1) hi s')"
      using True s' by (simp add: getRange_search.simps [of ask lo hi] Let_def mid_def)
    show ?thesis
    proof (cases "P mid")
      case True
      have "answers True ok (\<lambda>n. n \<le> mid \<and> P n \<and> (\<forall>m < n. \<not> P m)) (getRange_search ask lo mid) s'"
        by (rule 1(1) [OF \<open>lo < hi\<close> mid_def s'(1) _ refl True])
          (use 1(3-8) mid s' True in \<open>auto intro: less_trans\<close>)
      then show ?thesis using True e mid by (auto simp: answers_def)
    next
      case False
      have "\<not> P n" if "n < mid + 1" for n using 1(4) [of n mid] False that by auto
      then have "answers True ok (\<lambda>n. n \<le> hi \<and> P n \<and> (\<forall>m < n. \<not> P m)) (getRange_search ask (mid + 1) hi) s'"
        by (intro 1(2) [OF \<open>lo < hi\<close> mid_def s'(1) _ refl False]) (use 1(3-8) mid s' in auto)
      then show ?thesis using False e by (auto simp: answers_def)
    qed
  next
    case False
    with 1(6) have "lo = hi" by simp
    with 1 show ?thesis by (auto simp: getRange_search.simps [of ask hi hi] answers_def)
  qed
qed

lemma answers_assert_success: "answers True ok P m s \<Longrightarrow> answers live ok P (assert_success m) s"
  by (auto simp: answers_def assert_success_def)


context apint
begin

lemma const_denotes: "width_ok w \<Longrightarrow> v < 2 ^ w \<Longrightarrow> denotes A \<sigma> (ConstantExpr_alloc A v w) w (int v)"
  by (rule denotes_alloc) (auto simp: take_bit_int_eq_self)

text \<open>The questions \<open>getRange\<close> asks.\<close>

lemma range_question_shift:
  assumes "good A e" and "w = getWidth A e" and "w \<le> 64" and "n < w"
  shows "good A (Bin_create A LShr e (ConstantExpr_alloc A n w)) \<and>
    getWidth A (Bin_create A LShr e (ConstantExpr_alloc A n w)) = w \<and>
    sem A \<sigma> (Bin_create A LShr e (ConstantExpr_alloc A n w)) = drop_bit n (sem A \<sigma> e)"
proof -
  have w: "width_ok w" using assms wt_width_ok by (auto simp: good_def)
  have n: "n < 2 ^ w" using assms(4) by (meson less_exp order.strict_trans)
  have e: "denotes A \<sigma> e w (sem A \<sigma> e)" for \<sigma> using good_denotes [OF assms(1)] assms(2) by simp
  have "take_bit w (int n) < 2 ^ 63"
    using n assms(3,4) by (simp add: take_bit_int_eq_self)
  then have s: "bin_pre A LShr w (ConstantExpr_alloc A n w) (int n)"
    by (simp add: bin_pre_def bin_safe_def ConstantExpr_alloc_def apint_simps)
  have "denotes A \<sigma> (Bin_create A LShr e (ConstantExpr_alloc A n w)) w (drop_bit n (sem A \<sigma> e))" for \<sigma>
    using Bin_create_denotes [OF e const_denotes [OF w n] s] by simp
  from good_created [OF this] show ?thesis by simp
qed

lemma range_question_bits:
  assumes "good A e" and "w = getWidth A e" and "w \<le> 64" and "n < w"
  shows "good A (Bin_create A Eq (Bin_create A LShr e (ConstantExpr_alloc A n w)) (ConstantExpr_alloc A 0 w)) \<and>
    getWidth A (Bin_create A Eq (Bin_create A LShr e (ConstantExpr_alloc A n w)) (ConstantExpr_alloc A 0 w)) = 1 \<and>
    sem A \<sigma> (Bin_create A Eq (Bin_create A LShr e (ConstantExpr_alloc A n w)) (ConstantExpr_alloc A 0 w))
      = of_bool (sem A \<sigma> e < 2 ^ n)"
proof -
  have w: "width_ok w" using assms wt_width_ok by (auto simp: good_def)
  have "denotes A \<sigma> (Bin_create A LShr e (ConstantExpr_alloc A n w)) w (drop_bit n (sem A \<sigma> e))" for \<sigma>
    using range_question_shift [OF assms, of \<sigma>] good_denotes [of "Bin_create A LShr e (ConstantExpr_alloc A n w)" \<sigma>] by simp
  from Bin_create_denotes [OF this const_denotes [OF w, of 0], where k = Eq]
  have "denotes A \<sigma> (Bin_create A Eq (Bin_create A LShr e (ConstantExpr_alloc A n w)) (ConstantExpr_alloc A 0 w)) 1
      (of_bool (drop_bit n (sem A \<sigma> e) = 0))" for \<sigma>
    by (simp add: bin_pre_def bin_safe_def)
  note * = good_created [OF this]
  have "0 \<le> sem A \<sigma> e" using good_sem_fits [OF assms(1)] by (simp add: fits_def)
  then have "drop_bit n (sem A \<sigma> e) = 0 \<longleftrightarrow> sem A \<sigma> e < 2 ^ n"
    by (auto simp: drop_bit_eq_div zdiv_eq_0_iff)
  with * show ?thesis by simp
qed

lemma range_question_cmp:
  assumes "good A e" and "w = getWidth A e" and "v < 2 ^ w" and "k = Eq \<or> k = Ule"
  shows "good A (Bin_create A k e (ConstantExpr_alloc A v w)) \<and>
    getWidth A (Bin_create A k e (ConstantExpr_alloc A v w)) = 1 \<and>
    sem A \<sigma> (Bin_create A k e (ConstantExpr_alloc A v w)) = bin_sem k w (sem A \<sigma> e) (int v)"
proof -
  have w: "width_ok w" using assms wt_width_ok by (auto simp: good_def)
  have e: "denotes A \<sigma> e w (sem A \<sigma> e)" for \<sigma> using good_denotes [OF assms(1)] assms(2) by simp
  have "denotes A \<sigma> (Bin_create A k e (ConstantExpr_alloc A v w)) 1 (bin_sem k w (sem A \<sigma> e) (int v))" for \<sigma>
    using Bin_create_denotes [OF e const_denotes [OF w assms(3)], where k = k] assms(4)
    by (auto simp: bin_pre_def bin_safe_def)
  from good_created [OF this] show ?thesis by simp
qed

end

definition tight_range :: "'a ops \<Rightarrow> 'a query \<Rightarrow> 'a expr \<times> 'a expr \<Rightarrow> bool" where
  "tight_range A q r \<longleftrightarrow>
     (\<exists>lo hi. r = (ConstantExpr lo, ConstantExpr hi) \<and>
        getBitWidth A lo = getWidth A (q_expr q) \<and> getBitWidth A hi = getWidth A (q_expr q) \<and>
        (\<forall>\<sigma>. sat A q \<sigma> \<longrightarrow> ap_uint A lo \<le> sem A \<sigma> (q_expr q) \<and> sem A \<sigma> (q_expr q) \<le> ap_uint A hi) \<and>
        (\<exists>\<sigma>. sat A q \<sigma> \<and> sem A \<sigma> (q_expr q) = ap_uint A lo) \<and>
        (\<exists>\<sigma>. sat A q \<sigma> \<and> sem A \<sigma> (q_expr q) = ap_uint A hi))"

definition is_lower :: "'a ops \<Rightarrow> 'a query \<Rightarrow> nat \<Rightarrow> bool" where
  "is_lower A q n \<longleftrightarrow> (\<forall>\<sigma>. sat A q \<sigma> \<longrightarrow> int n \<le> sem A \<sigma> (q_expr q)) \<and>
     (\<exists>\<sigma>. sat A q \<sigma> \<and> sem A \<sigma> (q_expr q) = int n)"

definition is_upper :: "'a ops \<Rightarrow> 'a query \<Rightarrow> nat \<Rightarrow> bool" where
  "is_upper A q n \<longleftrightarrow> (\<forall>\<sigma>. sat A q \<sigma> \<longrightarrow> sem A \<sigma> (q_expr q) \<le> int n) \<and>
     (\<exists>\<sigma>. sat A q \<sigma> \<and> sem A \<sigma> (q_expr q) = int n)"

lemma unat_mask64: "n \<le> 64 \<Longrightarrow> unat (mask n :: 64 word) = 2 ^ n - 1"
  by (transfer, simp add: min_def nat_mask_eq) (simp add: mask_eq_exp_minus_1)

lemma unat_maxValueOfNBits64: "n \<le> 64 \<Longrightarrow> unat (maxValueOfNBits64 n) = 2 ^ n - 1"
  by (simp add: maxValueOfNBits64_eq unat_mask64)

context apint
begin

lemma validity_bounds:
  assumes "bool_query A D q"
  shows "case case validity_of A q of VTrue \<Rightarrow> (1, 1) | VFalse \<Rightarrow> (0, 0) | Unknown \<Rightarrow> (0, 1) of
    (lo, hi) \<Rightarrow> is_lower A q lo \<and> is_upper A q hi"
proof -
  have b: "sem A \<sigma> (q_expr q) = 0 \<or> sem A \<sigma> (q_expr q) = 1" for \<sigma>
    using good_sem_fits [of "q_expr q" \<sigma>] assms fits_1_cases by (auto simp: bool_query_def query_ok_def)
  have ge: "0 \<le> sem A \<sigma> (q_expr q)" and le: "sem A \<sigma> (q_expr q) \<le> 1" for \<sigma>
    using b [of \<sigma>] by auto
  obtain \<sigma>0 where \<sigma>0: "sat A q \<sigma>0" using assms by (auto simp: bool_query_def query_ok_def)
  show ?thesis
  proof (cases "validity_of A q")
    case VTrue
    then have "sem A \<sigma> (q_expr q) = 1" if "sat A q \<sigma>" for \<sigma>
      using b [of \<sigma>] that by (auto simp: validity_of_def must_hold_def split: if_splits)
    with VTrue \<sigma>0 show ?thesis by (auto simp: is_lower_def is_upper_def)
  next
    case VFalse
    then have "sem A \<sigma> (q_expr q) = 0" if "sat A q \<sigma>" for \<sigma>
      using that by (auto simp: validity_of_def may_hold_def split: if_splits)
    with VFalse \<sigma>0 show ?thesis by (auto simp: is_lower_def is_upper_def)
  next
    case Unknown
    then obtain \<sigma>1 \<sigma>2 where "sat A q \<sigma>1" "sem A \<sigma>1 (q_expr q) = 0" "sat A q \<sigma>2" "sem A \<sigma>2 (q_expr q) \<noteq> 0"
      by (auto simp: validity_of_def must_hold_def may_hold_def split: if_splits)
    with b [of \<sigma>2] Unknown ge le show ?thesis
      by (auto simp: is_lower_def is_upper_def)
  qed
qed

lemma tight_rangeI:
  assumes "query_ok A D q" and "is_lower A q lo" and "is_upper A q hi" and "w = getWidth A (q_expr q)"
  shows "tight_range A q (ConstantExpr_alloc A lo w, ConstantExpr_alloc A hi w)"
proof -
  have f: "fits w (sem A \<sigma> (q_expr q))" for \<sigma>
    using assms(1,4) good_sem_fits by (auto simp: query_ok_def)
  have "take_bit w (int lo) = int lo" "take_bit w (int hi) = int hi"
    using assms(2,3) f unfolding is_lower_def is_upper_def fits_iff_take_bit by metis+
  then show ?thesis
    using assms(2-4)
    by (auto simp: tight_range_def ConstantExpr_alloc_def apint_simps is_lower_def is_upper_def)
qed

lemma is_lowerI:
  assumes "query_ok A D q" and "\<exists>\<sigma>. sat A q \<sigma> \<and> sem A \<sigma> (q_expr q) \<le> int n"
    and "\<forall>m < n. \<not> (\<exists>\<sigma>. sat A q \<sigma> \<and> sem A \<sigma> (q_expr q) \<le> int m)"
  shows "is_lower A q n"
proof -
  have nonneg: "0 \<le> sem A \<sigma> (q_expr q)" for \<sigma>
    using assms(1) good_sem_fits by (auto simp: query_ok_def fits_def)
  have le: "int n \<le> sem A \<sigma> (q_expr q)" if "sat A q \<sigma>" for \<sigma>
  proof (rule ccontr)
    assume "\<not> int n \<le> sem A \<sigma> (q_expr q)"
    then have "nat (sem A \<sigma> (q_expr q)) < n" using nonneg [of \<sigma>] by simp
    with assms(3) that nonneg [of \<sigma>] show False by fastforce
  qed
  with assms(2) show ?thesis by (auto simp: is_lower_def intro: antisym)
qed

lemma is_upperI:
  assumes "query_ok A D q" and "\<forall>\<sigma>. sat A q \<sigma> \<longrightarrow> sem A \<sigma> (q_expr q) \<le> int n"
    and "\<forall>m < n. \<not> (\<forall>\<sigma>. sat A q \<sigma> \<longrightarrow> sem A \<sigma> (q_expr q) \<le> int m)"
  shows "is_upper A q n"
proof -
  have nonneg: "0 \<le> sem A \<sigma> (q_expr q)" for \<sigma>
    using assms(1) good_sem_fits by (auto simp: query_ok_def fits_def)
  have "\<exists>\<sigma>. sat A q \<sigma> \<and> sem A \<sigma> (q_expr q) = int n"
  proof (cases n)
    case 0
    from assms(1) obtain \<sigma> where "sat A q \<sigma>" by (auto simp: query_ok_def)
    with assms(2) 0 nonneg [of \<sigma>] show ?thesis by (auto intro!: exI [of _ \<sigma>] antisym)
  next
    case (Suc m)
    with assms(3) obtain \<sigma> where "sat A q \<sigma>" "int m < sem A \<sigma> (q_expr q)" by (force simp: not_le)
    with assms(2) Suc show ?thesis by (auto intro!: exI [of _ \<sigma>] antisym)
  qed
  with assms(2) show ?thesis by (simp add: is_upper_def)
qed

end

context solver_contract
begin

lemma question_answers:
  assumes "query_ok A D q" and "ok s" and "\<And>\<sigma>. good A e \<and> getWidth A e = 1 \<and> sem A \<sigma> e = of_bool (P \<sigma>)"
    and "D e"
  shows "answers live ok (\<lambda>b. b = (\<forall>\<sigma>. sat A q \<sigma> \<longrightarrow> P \<sigma>)) (mustBeTrue A S (withExpr q e)) s"
    and "answers live ok (\<lambda>b. b = (\<exists>\<sigma>. sat A q \<sigma> \<and> P \<sigma>)) (mayBeTrue A S (withExpr q e)) s"
  using mustBeTrue_answers [OF bool_query_withExpr [OF assms(1)] assms(2), of e]
    mayBeTrue_answers [OF bool_query_withExpr [OF assms(1)] assms(2), of e] assms(3,4)
  by (simp_all add: must_hold_def may_hold_def)

lemma range_question_class:
  assumes "query_ok A D q" and "w = getWidth A (q_expr q)"
  shows "D (Bin_create A Ule (q_expr q) (ConstantExpr_alloc A v w))"
    and "D (Bin_create A Eq (q_expr q) (ConstantExpr_alloc A v w))"
    and "w \<le> 64 \<Longrightarrow> n < w \<Longrightarrow>
      D (Bin_create A Eq (Bin_create A LShr (q_expr q) (ConstantExpr_alloc A n w)) (ConstantExpr_alloc A 0 w))"
proof -
  have g: "good A (q_expr q)" "D (q_expr q)" using assms(1) by (auto simp: query_ok_def)
  then have w: "width_ok w" using assms(2) wt_width_ok by (auto simp: good_def)
  note c = alloc_good [OF w] expr_class_alloc [OF closed] g
  show "D (Bin_create A Ule (q_expr q) (ConstantExpr_alloc A v w))"
    by (rule expr_class_create(3) [OF closed]) (simp_all add: c assms(2) [symmetric])
  show "D (Bin_create A Eq (q_expr q) (ConstantExpr_alloc A v w))"
    unfolding Bin_create.simps by (rule expr_class_create(1) [OF closed]) (simp_all add: c assms(2) [symmetric])
  assume n: "w \<le> 64" "n < w"
  have "D (Bin_create A LShr (q_expr q) (ConstantExpr_alloc A n w))"
    by (rule expr_class_create(2) [OF closed]) (simp_all add: c assms(2) [symmetric])
  then have "D (Eq_create A (Bin_create A LShr (q_expr q) (ConstantExpr_alloc A n w)) (ConstantExpr_alloc A 0 w))"
    using range_question_shift [OF g(1) assms(2) n]
    by (intro expr_class_create(1) [OF closed]) (simp_all add: c)
  then show "D (Bin_create A Eq (Bin_create A LShr (q_expr q) (ConstantExpr_alloc A n w)) (ConstantExpr_alloc A 0 w))"
    by (simp only: Bin_create.simps)
qed

lemma search_bits:
  assumes "live" and q: "query_ok A D q" and w: "w = getWidth A (q_expr q)" "w \<le> 64" and "ok s"
  shows "answers True ok (\<lambda>n. n \<le> w \<and> (\<forall>\<sigma>. sat A q \<sigma> \<longrightarrow> sem A \<sigma> (q_expr q) < 2 ^ n))
    (getRange_search (\<lambda>mid. mustBeTrue A S (withExpr q (Bin_create A Eq
       (Bin_create A LShr (q_expr q) (ConstantExpr_alloc A mid w)) (ConstantExpr_alloc A 0 w)))) 0 w) s"
proof -
  have g: "good A (q_expr q)" using q by (simp add: query_ok_def)
  have "answers True ok (\<lambda>n. n \<le> w \<and> (\<forall>\<sigma>. sat A q \<sigma> \<longrightarrow> sem A \<sigma> (q_expr q) < 2 ^ n) \<and>
      (\<forall>m < n. \<not> (\<forall>\<sigma>. sat A q \<sigma> \<longrightarrow> sem A \<sigma> (q_expr q) < 2 ^ m)))
    (getRange_search (\<lambda>mid. mustBeTrue A S (withExpr q (Bin_create A Eq
       (Bin_create A LShr (q_expr q) (ConstantExpr_alloc A mid w)) (ConstantExpr_alloc A 0 w)))) 0 w) s"
  proof (rule getRange_search_answers)
    fix mid s assume "mid < w" and "ok s"
    note r = range_question_bits [OF g w this(1)]
    show "answers True ok (\<lambda>b. b = (\<forall>\<sigma>. sat A q \<sigma> \<longrightarrow> sem A \<sigma> (q_expr q) < 2 ^ mid))
      (mustBeTrue A S (withExpr q (Bin_create A Eq
         (Bin_create A LShr (q_expr q) (ConstantExpr_alloc A mid w)) (ConstantExpr_alloc A 0 w)))) s"
      using question_answers(1) [OF q \<open>ok s\<close> r range_question_class(3) [OF q w \<open>mid < w\<close>]] \<open>live\<close> by simp
  next
    fix m n :: nat
    assume "\<forall>\<sigma>. sat A q \<sigma> \<longrightarrow> sem A \<sigma> (q_expr q) < 2 ^ m" and "m \<le> n"
    then show "\<forall>\<sigma>. sat A q \<sigma> \<longrightarrow> sem A \<sigma> (q_expr q) < 2 ^ n"
      by (meson less_le_trans one_le_numeral power_increasing)
  qed (use g w \<open>ok s\<close> good_sem_fits [OF g] in \<open>auto simp: fits_def\<close>)
  then show ?thesis by (rule answers_weaken) simp
qed

lemma search_min:
  assumes "live" and q: "query_ok A D q" and w: "w = getWidth A (q_expr q)" and "ok s" and "hi < 2 ^ w"
    and hi: "\<forall>\<sigma>. sat A q \<sigma> \<longrightarrow> sem A \<sigma> (q_expr q) \<le> int hi"
  shows "answers True ok (\<lambda>n. n \<le> hi \<and> is_lower A q n)
    (getRange_search (\<lambda>mid. mayBeTrue A S (withExpr q
       (Bin_create A Ule (q_expr q) (ConstantExpr_alloc A mid w)))) 0 hi) s"
proof -
  have g: "good A (q_expr q)" using q by (simp add: query_ok_def)
  have "answers True ok (\<lambda>n. n \<le> hi \<and> (\<exists>\<sigma>. sat A q \<sigma> \<and> sem A \<sigma> (q_expr q) \<le> int n) \<and>
      (\<forall>m < n. \<not> (\<exists>\<sigma>. sat A q \<sigma> \<and> sem A \<sigma> (q_expr q) \<le> int m)))
    (getRange_search (\<lambda>mid. mayBeTrue A S (withExpr q
       (Bin_create A Ule (q_expr q) (ConstantExpr_alloc A mid w)))) 0 hi) s"
  proof (rule getRange_search_answers)
    fix mid s assume "mid < hi" and "ok s"
    then have "mid < 2 ^ w" using \<open>hi < 2 ^ w\<close> by simp
    note r = range_question_cmp [OF g w this, of Ule]
    show "answers True ok (\<lambda>b. b = (\<exists>\<sigma>. sat A q \<sigma> \<and> sem A \<sigma> (q_expr q) \<le> int mid))
      (mayBeTrue A S (withExpr q (Bin_create A Ule (q_expr q) (ConstantExpr_alloc A mid w)))) s"
      using question_answers(2) [OF q \<open>ok s\<close>, of _ "\<lambda>\<sigma>. sem A \<sigma> (q_expr q) \<le> int mid"]
        range_question_class(1) [OF q w] r \<open>live\<close> by simp
  next
    show "\<exists>\<sigma>. sat A q \<sigma> \<and> sem A \<sigma> (q_expr q) \<le> int hi" using q hi by (auto simp: query_ok_def)
  qed (use \<open>ok s\<close> in \<open>auto intro: order_trans\<close>)
  then show ?thesis by (rule answers_weaken) (auto intro: is_lowerI [OF q])
qed

lemma search_max:
  assumes "live" and q: "query_ok A D q" and w: "w = getWidth A (q_expr q)" and "ok s" and "hi < 2 ^ w"
    and hi: "\<forall>\<sigma>. sat A q \<sigma> \<longrightarrow> sem A \<sigma> (q_expr q) \<le> int hi" and lo: "is_lower A q lo" "lo \<le> hi"
  shows "answers True ok (is_upper A q)
    (getRange_search (\<lambda>mid. mustBeTrue A S (withExpr q
       (Bin_create A Ule (q_expr q) (ConstantExpr_alloc A mid w)))) lo hi) s"
proof -
  have g: "good A (q_expr q)" using q by (simp add: query_ok_def)
  have "answers True ok (\<lambda>n. n \<le> hi \<and> (\<forall>\<sigma>. sat A q \<sigma> \<longrightarrow> sem A \<sigma> (q_expr q) \<le> int n) \<and>
      (\<forall>m < n. \<not> (\<forall>\<sigma>. sat A q \<sigma> \<longrightarrow> sem A \<sigma> (q_expr q) \<le> int m)))
    (getRange_search (\<lambda>mid. mustBeTrue A S (withExpr q
       (Bin_create A Ule (q_expr q) (ConstantExpr_alloc A mid w)))) lo hi) s"
  proof (rule getRange_search_answers)
    fix mid s assume "mid < hi" and "ok s"
    then have "mid < 2 ^ w" using \<open>hi < 2 ^ w\<close> by simp
    note r = range_question_cmp [OF g w this, of Ule]
    show "answers True ok (\<lambda>b. b = (\<forall>\<sigma>. sat A q \<sigma> \<longrightarrow> sem A \<sigma> (q_expr q) \<le> int mid))
      (mustBeTrue A S (withExpr q (Bin_create A Ule (q_expr q) (ConstantExpr_alloc A mid w)))) s"
      using question_answers(1) [OF q \<open>ok s\<close>, of _ "\<lambda>\<sigma>. sem A \<sigma> (q_expr q) \<le> int mid"]
        range_question_class(1) [OF q w] r \<open>live\<close> by simp
  next
    fix n assume "n < lo"
    then show "\<not> (\<forall>\<sigma>. sat A q \<sigma> \<longrightarrow> sem A \<sigma> (q_expr q) \<le> int n)"
      using lo(1) by (force simp: is_lower_def)
  qed (use \<open>ok s\<close> hi lo in \<open>force+\<close>)
  then show ?thesis by (rule answers_weaken) (intro is_upperI [OF q]; blast)
qed


lemma getRange_bounds_answers:
  assumes "live" and q: "query_ok A D q" and w: "getWidth A (q_expr q) \<le> 64" and "ok s"
  shows "answers True ok (\<lambda>(lo, hi). is_lower A q lo \<and> is_upper A q hi) (getRange_bounds A S q) s"
proof -
  define w where "w = getWidth A (q_expr q)"
  have g: "good A (q_expr q)" using q by (simp add: query_ok_def)
  have nonneg: "0 \<le> sem A \<sigma> (q_expr q)" for \<sigma> using good_sem_fits [OF g] by (auto simp: fits_def)
  have zero: "answers True ok (\<lambda>b. b = (\<exists>\<sigma>. sat A q \<sigma> \<and> sem A \<sigma> (q_expr q) = 0))
      (assert_success (mayBeTrue A S (withExpr q (Bin_create A Eq (q_expr q) (ConstantExpr_alloc A 0 w))))) s"
    if "ok s" for s
    using question_answers(2) [OF q that, of _ "\<lambda>\<sigma>. sem A \<sigma> (q_expr q) = 0"] range_question_cmp [OF g w_def, of 0 Eq]
      range_question_class(2) [OF q w_def]
      \<open>live\<close> by (auto intro: answers_assert_success)
  show ?thesis
    unfolding getRange_bounds_def Let_def w_def [symmetric]
  proof (rule answers_call [OF search_bits [OF \<open>live\<close> q w_def _ \<open>ok s\<close>]], goal_cases)
    case 1
    then show ?case using w by (simp add: w_def)
  next
    case bits: (2 bits s)
    define hi where "hi = unat (maxValueOfNBits64 bits)"
    have hi: "hi = 2 ^ bits - 1" using bits w by (simp add: hi_def unat_maxValueOfNBits64 w_def)
    have "int hi = 2 ^ bits - 1" by (simp add: hi of_nat_diff)
    then have le: "\<forall>\<sigma>. sat A q \<sigma> \<longrightarrow> sem A \<sigma> (q_expr q) \<le> int hi" using bits by auto
    have "(2 :: nat) ^ bits \<le> 2 ^ w" using bits by (intro power_increasing) auto
    then have less: "hi < 2 ^ w" using zero_less_power [of "2 :: nat" bits] unfolding hi by linarith
    have min: "answers True ok (\<lambda>n. n \<le> hi \<and> is_lower A q n) (if res then give 0
          else getRange_search (\<lambda>mid. mayBeTrue A S (withExpr q
            (Bin_create A Ule (q_expr q) (ConstantExpr_alloc A mid w)))) 0 hi) s"
      if "res = (\<exists>\<sigma>. sat A q \<sigma> \<and> sem A \<sigma> (q_expr q) = 0)" "ok s" for res s
      using that search_min [OF \<open>live\<close> q w_def that(2) less le] nonneg
      by (auto simp: is_lower_def intro!: answers_give)
    show ?case
      unfolding hi_def [symmetric]
    proof (rule answers_call [OF zero [OF bits(2)]], rule answers_call [OF min], goal_cases)
      case (3 res s lo s')
      then show ?case
        by (intro answers_call [OF search_max [OF \<open>live\<close> q w_def _ less le]]) auto
    qed
  qed
qed

lemma getRange_answers:
  assumes "live" and q: "query_ok A D q" and w: "getWidth A (q_expr q) \<le> 64" and "ok s"
  shows "answers True ok (tight_range A q) (getRange A S q) s"
  unfolding getRange_def Let_def
proof (rule answers_call [where P = "\<lambda>(lo, hi). is_lower A q lo \<and> is_upper A q hi"], goal_cases)
  case 1
  consider "getWidth A (q_expr q) = 1" | c where "getWidth A (q_expr q) \<noteq> 1" "q_expr q = ConstantExpr c"
    | "getWidth A (q_expr q) \<noteq> 1" "dyn_cast_Constant (q_expr q) = None"
    by (cases "q_expr q") auto
  then show ?case
  proof cases
    case 1
    then have b: "bool_query A D q" using q by (simp add: bool_query_def)
    have "answers True ok (\<lambda>v. v = validity_of A q) (evaluate A S q) s"
      using evaluate_answers [OF b \<open>ok s\<close>] \<open>live\<close> by simp
    note e = answers_assert_success [OF this]
    show ?thesis using 1 validity_bounds [OF b] by (auto intro!: answers_call [OF e])
  next
    case (2 c)
    then have "getBitWidth A c \<le> 64" using w by simp
    from zext_value_int [OF this] show ?thesis
      using 2 q \<open>ok s\<close> by (auto simp: is_lower_def is_upper_def query_ok_def intro!: answers_give)
  next
    case 3
    then show ?thesis using getRange_bounds_answers [OF assms] by simp
  qed
next
  case (2 r s)
  then show ?case using tight_rangeI [OF q _ _ refl] by (auto intro!: answers_give)
qed

end

section \<open>A solver that keeps the contract\<close>

text \<open>The specification itself as a solver: it shows that the contract can be kept without failing.\<close>

definition ideal_solver :: "'a ops \<Rightarrow> (unit, 'a) solver_impl" where
  "ideal_solver A = \<lparr>
     computeValidity = (\<lambda>q. give (validity_of A q)),
     computeTruth = (\<lambda>q. give (must_hold A q)),
     computeValue = (\<lambda>q. give (SOME e. possible_value A q e)),
     computeInitialValues = (\<lambda>q objects. give (SOME res. counterexample A q objects res))\<rparr>"

context apint
begin

lemma possible_value_exists: "query_ok A D q \<Longrightarrow> \<exists>e. possible_value A q e"
proof -
  assume q: "query_ok A D q"
  then obtain \<sigma> where "sat A q \<sigma>" and g: "good A (q_expr q)" by (auto simp: query_ok_def)
  moreover have "take_bit (getWidth A (q_expr q)) (sem A \<sigma> (q_expr q)) = sem A \<sigma> (q_expr q)"
      "0 \<le> sem A \<sigma> (q_expr q)"
    using good_sem_fits [OF g, of \<sigma>] by (auto simp: fits_iff_take_bit [symmetric], simp add: fits_def)
  ultimately have "possible_value A q (ConstantExpr (ap_of A (getWidth A (q_expr q)) (nat (sem A \<sigma> (q_expr q)))))"
    unfolding possible_value_def by (intro exI conjI) (auto simp: apint_simps)
  then show ?thesis by blast
qed

lemma counterexample_exists: "\<exists>res. counterexample A q objects res"
proof (cases "must_hold A q")
  case True
  then have "counterexample A q objects None" by (simp add: counterexample_def)
  then show ?thesis by blast
next
  case False
  then obtain \<sigma> where "sat A q \<sigma>" "sem A \<sigma> (q_expr q) = 0" by (auto simp: must_hold_def)
  then have "counterexample A q objects (Some (map (object_bytes \<sigma>) objects))" by (auto simp: counterexample_def)
  then show ?thesis by blast
qed

lemma ideal_solver_contract: "expr_class A D \<Longrightarrow> solver_contract A D True (\<lambda>_. True) (ideal_solver A)"
  by unfold_locales
    (auto simp: ideal_solver_def intro!: answers_give
      intro: someI_ex [OF possible_value_exists] someI_ex [OF counterexample_exists])

end

interpretation ideal: solver_contract "bv_ops opt" any_expr True "\<lambda>_. True" "ideal_solver (bv_ops opt)"
  by (rule bv.ideal_solver_contract) simp

section \<open>Properties\<close>

text \<open>
  The concrete input of the examples: a byte read from a symbolic array, constrained to lie between 3 and 9.
\<close>

definition input_array :: "bool list array_obj" where
  "input_array = \<lparr>array_addr = 1, array_name = ''input'', array_size = 2, constantValues = []\<rparr>"

definition input_byte :: "nat \<Rightarrow> bool list expr" where
  "input_byte i = ReadExpr input_array NoUpdate (ConstantExpr (bv 32 (int i)))"

definition input_query :: "bool list expr \<Rightarrow> bool list query" where
  "input_query e = \<lparr>constraints = \<lparr>cm_root = 0, nodes =
     [BinaryExpr Ule (input_byte 0) (ConstantExpr (bv 8 9)), BinaryExpr Ule (ConstantExpr (bv 8 3)) (input_byte 0)]\<rparr>,
     q_expr = e\<rparr>"

lemmas input_simps = input_array_def input_byte_def input_query_def wt_array_def isConstantArray_def
  isSymbolicArray_def bin_safe_def array_value_def width_ok_def

lemma input_query_expr [simp]: "q_expr (input_query e) = e"
  by (simp add: input_query_def)

lemma input_byte_good: "i < 2 ^ 32 \<Longrightarrow> good (bv_ops False) (input_byte i)"
    "getWidth (bv_ops False) (input_byte i) = 8"
    "i < 2 ^ 32 \<Longrightarrow> sem (bv_ops False) \<sigma> (input_byte i) = take_bit 8 (\<sigma> input_array i)"
  by (auto simp: good_def input_simps take_bit_int_eq_self)

text \<open>The assignment that gives the first byte of the input a value.\<close>

definition input_assignment :: "int \<Rightarrow> bool list array_obj \<Rightarrow> nat \<Rightarrow> int" where
  "input_assignment v obj i = (if obj = input_array \<and> i = 0 then v else 0)"

lemma input_assignment [simp]: "proper (input_assignment v)" "input_assignment v input_array 0 = v"
  by (auto simp: proper_def input_assignment_def) (simp add: input_array_def isConstantArray_def isSymbolicArray_def)+

lemma input_query_sat: "sat (bv_ops False) (input_query e) \<sigma> \<longleftrightarrow> proper \<sigma> \<and>
    3 \<le> take_bit 8 (\<sigma> input_array 0) \<and> take_bit 8 (\<sigma> input_array 0) \<le> 9"
  by (auto simp: sat_def input_simps)

lemma input_query_ok: "good (bv_ops False) e \<Longrightarrow> query_ok (bv_ops False) any_expr (input_query e)"
proof -
  assume "good (bv_ops False) e"
  moreover have "sat (bv_ops False) (input_query e) (input_assignment 3)" by (simp add: input_query_sat)
  ultimately show ?thesis
    by (auto simp: query_ok_def constraint_ok_def good_def input_simps any_expr_def)
qed

text \<open>
  C30.  \<open>Solver::getRange\<close>: on top of an implementation that keeps the contract and does not fail, it returns
  constants \<open>lo\<close> and \<open>hi\<close> of the width of the expression such that every value of the expression under the
  constraints is between them and both are values of the expression.
\<close>

theorem getRange_tight:
  assumes "solver_contract A D True ok S" and "query_ok A D q" and "getWidth A (q_expr q) \<le> 64" and "ok s"
  shows "\<exists>lo hi s'. getRange A S q s = Some (Some (ConstantExpr lo, ConstantExpr hi), s') \<and> ok s' \<and>
    getBitWidth A lo = getWidth A (q_expr q) \<and> getBitWidth A hi = getWidth A (q_expr q) \<and>
    (\<forall>\<sigma>. sat A q \<sigma> \<longrightarrow> ap_uint A lo \<le> sem A \<sigma> (q_expr q) \<and> sem A \<sigma> (q_expr q) \<le> ap_uint A hi) \<and>
    (\<exists>\<sigma>. sat A q \<sigma> \<and> sem A \<sigma> (q_expr q) = ap_uint A lo) \<and>
    (\<exists>\<sigma>. sat A q \<sigma> \<and> sem A \<sigma> (q_expr q) = ap_uint A hi)"
proof -
  have "answers True ok (tight_range A q) (getRange A S q) s"
    by (rule solver_contract.getRange_answers [OF assms(1)]) (simp_all add: assms)
  then obtain r s' where "getRange A S q s = Some (Some r, s')" "ok s'" "tight_range A q r"
    by (rule answers_live)
  then show ?thesis by (auto simp: tight_range_def)
qed

theorem getRange_tight_witness:
  "\<exists>lo hi s. getRange (bv_ops False) (ideal_solver (bv_ops False)) (input_query (input_byte 0)) () =
     Some (Some (ConstantExpr lo, ConstantExpr hi), s) \<and> bv_uint lo = 3 \<and> bv_uint hi = 9"
proof -
  have q: "query_ok (bv_ops False) any_expr (input_query (input_byte 0))" by (simp add: input_query_ok input_byte_good)
  obtain lo hi s \<sigma>1 \<sigma>2
    where res: "getRange (bv_ops False) (ideal_solver (bv_ops False)) (input_query (input_byte 0)) () =
      Some (Some (ConstantExpr lo, ConstantExpr hi), s)"
    and all: "\<And>\<sigma>. sat (bv_ops False) (input_query (input_byte 0)) \<sigma> \<Longrightarrow>
      bv_uint lo \<le> take_bit 8 (\<sigma> input_array 0) \<and> take_bit 8 (\<sigma> input_array 0) \<le> bv_uint hi"
    and att: "sat (bv_ops False) (input_query (input_byte 0)) \<sigma>1" "take_bit 8 (\<sigma>1 input_array 0) = bv_uint lo"
      "sat (bv_ops False) (input_query (input_byte 0)) \<sigma>2" "take_bit 8 (\<sigma>2 input_array 0) = bv_uint hi"
    using getRange_tight [OF ideal.solver_contract_axioms q] by (auto simp: input_byte_good)
  from att have "3 \<le> bv_uint lo" "bv_uint hi \<le> 9" by (simp_all add: input_query_sat)
  moreover have "bv_uint lo \<le> 3" "9 \<le> bv_uint hi" using all [of "input_assignment 3"] all [of "input_assignment 9"] by (simp_all add: input_query_sat)
  ultimately show ?thesis using res by (intro exI conjI) auto
qed



text \<open>
  C32.  \<open>ConstraintManager::addConstraint\<close> adds a constraint as its conjuncts: the manager it leaves holds exactly
  under the assignments under which the old one and the new constraint hold.  Its assertion fails only if the new
  constraint is unsatisfiable.
\<close>

theorem addConstraint_conjoins:
  assumes "apint A" and "constraint_ok A e"
  shows "case addConstraint A cm e of
      Some cm' \<Rightarrow> cm_root cm' = cm_root cm \<and>
        (\<forall>\<sigma>. holds A (nodes cm') \<sigma> \<longleftrightarrow> holds A (nodes cm) \<sigma> \<and> sem A \<sigma> e \<noteq> 0) \<and>
        ((\<forall>c \<in> set (nodes cm). constraint_ok A c) \<longrightarrow> (\<forall>c \<in> set (nodes cm'). constraint_ok A c))
    | None \<Rightarrow> (\<forall>\<sigma>. sem A \<sigma> e = 0)"
proof (cases "addConstraint A cm e")
  case None
  then show ?thesis using apint.addConstraint_succeeds [OF assms, of _ cm] by auto
next
  case (Some cm')
  then show ?thesis using apint.addConstraint_correct [OF assms Some] by (simp add: conjoined_def)
qed

theorem addConstraint_conjoins_witness:
  "addConstraint (bv_ops False) (ConstraintManager 0) (ConstantExpr (bv 1 0)) = None \<and>
   (\<forall>\<sigma>. sem (bv_ops False) \<sigma> (ConstantExpr (bv 1 0)) = 0)"
proof -
  have "constraint_ok (bv_ops False) (ConstantExpr (bv 1 0))" by (simp add: constraint_ok_def good_def)
  moreover have "addConstraint (bv_ops False) (ConstraintManager 0) (ConstantExpr (bv 1 0)) = None"
    by (simp add: const_isTrue_def)
  ultimately show ?thesis
    using addConstraint_conjoins [OF bv.apint_axioms, of False "ConstantExpr (bv 1 0)" "ConstraintManager 0"] by simp
qed

end
