(* ===== verification/SolverWrappers_Sound.thy ===== *)
theory SolverWrappers_Sound
  imports SolverWrappers Solver_Sound
begin

text \<open>
  Every wrapper keeps the contract of a solver when the solvers below it keep it.
\<close>

section \<open>\<open>CachingSolver\<close>\<close>

text \<open>What a partial validity says about a query, and what the cache holds.\<close>

fun pv_sound :: "'a ops \<Rightarrow> 'a query \<Rightarrow> partial_validity \<Rightarrow> bool" where
  "pv_sound A q MustBeTrue \<longleftrightarrow> must_hold A q"
| "pv_sound A q MustBeFalse \<longleftrightarrow> \<not> may_hold A q"
| "pv_sound A q MayBeTrue \<longleftrightarrow> may_hold A q"
| "pv_sound A q MayBeFalse \<longleftrightarrow> \<not> must_hold A q"
| "pv_sound A q TrueOrFalse \<longleftrightarrow> may_hold A q \<and> \<not> must_hold A q"
| "pv_sound A q PV_None \<longleftrightarrow> True"

definition cache_ok :: "'a ops \<Rightarrow> 'a cache_map \<Rightarrow> bool" where
  "cache_ok A cache \<longleftrightarrow> (\<forall>cm e pv. map_of cache (cm, e) = Some pv \<longrightarrow>
     pv \<noteq> PV_None \<and> pv_sound A \<lparr>constraints = cm, q_expr = e\<rparr> pv)"

lemma query_eta: "\<lparr>constraints = constraints q, q_expr = q_expr q\<rparr> = q"
  by (cases q) simp

lemma negate_eta: "\<lparr>constraints = constraints q, q_expr = createIsZero A (q_expr q)\<rparr> = negateExpr A q"
  by (simp add: negateExpr_def withExpr_def)

context apint
begin

lemma negatePartialValidity_sound:
  assumes "query_ok A D q" and "pv \<noteq> PV_None"
  shows "\<exists>npv. negatePartialValidity pv = Some npv \<and> npv \<noteq> PV_None \<and>
    (pv_sound A (negateExpr A q) npv \<longleftrightarrow> pv_sound A q pv) \<and>
    (pv_sound A (negateExpr A q) pv \<longleftrightarrow> pv_sound A q npv)"
  using assms negate_holds [OF assms(1)] by (cases pv) auto

lemma canonicalizeQuery_cases:
  obtains "canonicalizeQuery A (q_expr q) = (q_expr q, False)"
  | "canonicalizeQuery A (q_expr q) = (q_expr (negateExpr A q), True)"
  by (cases "compare A (q_expr q) (createIsZero A (q_expr q)) < 0")
    (use that in \<open>simp_all add: canonicalizeQuery_def Let_def\<close>)

lemma cacheLookup_answers:
  assumes "query_ok A D q" and "pair_ok (cache_ok A) ok st"
  shows "answers live (pair_ok (cache_ok A) ok) (\<lambda>r. \<forall>pv. r = Some pv \<longrightarrow> pv \<noteq> PV_None \<and> pv_sound A q pv)
    (cacheLookup A q) st"
proof -
  have hit: "pv \<noteq> PV_None \<and> pv_sound A \<lparr>constraints = constraints q, q_expr = e\<rparr> pv"
    if "map_of (fst st) (constraints q, e) = Some pv" for e pv
    using assms(2) that by (auto simp: pair_ok_def cache_ok_def)
  show ?thesis
  proof (cases rule: canonicalizeQuery_cases [of q])
    case 1
    then show ?thesis
      using assms(2) hit [of "q_expr q"]
      by (cases st) (auto simp: cacheLookup_def answers_def give_def query_eta split: option.split)
  next
    case 2
    show ?thesis
    proof (cases "map_of (fst st) (constraints q, q_expr (negateExpr A q))")
      case None
      with 2 assms(2) show ?thesis by (cases st) (simp add: cacheLookup_def answers_def give_def)
    next
      case (Some pv)
      from hit [OF this] have "pv \<noteq> PV_None" "pv_sound A (negateExpr A q) pv" by (simp_all add: negate_eta)
      with negatePartialValidity_sound [OF assms(1), of pv] 2 Some assms(2) show ?thesis
        by (cases st) (auto simp: cacheLookup_def answers_def give_def)
    qed
  qed
qed

lemma cacheInsert_answers:
  assumes "query_ok A D q" and "pair_ok (cache_ok A) ok st" and "pv_sound A q pv" and "pv \<noteq> PV_None"
  shows "answers live (pair_ok (cache_ok A) ok) (\<lambda>_. True) (cacheInsert A q pv) st"
proof -
  have ins: "pair_ok (cache_ok A) ok (map_insert (constraints q, e) pv' (fst st), snd st)"
    if "pv' \<noteq> PV_None" "pv_sound A \<lparr>constraints = constraints q, q_expr = e\<rparr> pv'" for e pv'
    using assms(2) that by (auto simp: pair_ok_def cache_ok_def map_insert_def)
  show ?thesis
  proof (cases rule: canonicalizeQuery_cases [of q])
    case 1
    with ins [of pv "q_expr q"] assms show ?thesis
      by (auto simp: cacheInsert_def answers_def give_def query_eta)
  next
    case 2
    obtain npv where npv: "negatePartialValidity pv = Some npv" "npv \<noteq> PV_None" "pv_sound A (negateExpr A q) npv"
      using negatePartialValidity_sound [OF assms(1,4)] assms(3) by auto
    with ins [of npv "q_expr (negateExpr A q)"] 2 show ?thesis
      by (auto simp: cacheInsert_def answers_def give_def negate_eta)
  qed
qed

end

context solver_contract
begin

lemma caching_truth:
  assumes "bool_query A D q" and "pair_ok (cache_ok A) ok st"
  shows "answers live (pair_ok (cache_ok A) ok) (\<lambda>b. b = must_hold A q) (Caching_computeTruth A S q) st"
proof -
  have q: "query_ok A D q" using assms(1) by (simp add: bool_query_def)
  show ?thesis
    unfolding Caching_computeTruth_def
  proof (rule answers_call [OF cacheLookup_answers [OF q assms(2)]], goal_cases)
    case (1 cached st)
    show ?case
    proof (cases "cached \<noteq> None \<and> cached \<noteq> Some MayBeTrue")
      case True
      then obtain pv where pv: "cached = Some pv" "pv \<noteq> MayBeTrue" by auto
      with 1 must_imp_may [OF q] have "(pv = MustBeTrue) = must_hold A q" by (cases pv) auto
      with pv 1 show ?thesis by (auto intro!: answers_give)
    next
      case False
      then have c: "cached = None \<or> cached = Some MayBeTrue \<and> may_hold A q" using 1 by auto
      have "answers live (pair_ok (cache_ok A) ok) (\<lambda>b. b = must_hold A q)
          (call (on_snd (computeTruth S q)) (\<lambda>isValid. call (cacheInsert A q
             (if isValid then MustBeTrue else if cached \<noteq> None then TrueOrFalse else MayBeFalse)) (\<lambda>_. give isValid))) st"
        by (rule answers_call [OF answers_on_snd [OF 1(2) truth [OF assms(1)]]], assumption)
          (use c in \<open>auto intro!: answers_call [OF cacheInsert_answers [OF q]] answers_give\<close>)
      then show ?thesis unfolding if_not_P [OF False] .
    qed
  qed
qed

lemma caching_validity:
  assumes "bool_query A D q" and "pair_ok (cache_ok A) ok st"
  shows "answers live (pair_ok (cache_ok A) ok) (\<lambda>v. v = validity_of A q) (Caching_computeValidity A S q) st"
proof -
  have q: "query_ok A D q" using assms(1) by (simp add: bool_query_def)
  note n = negate_holds [OF q]
  have ins: "answers live (pair_ok (cache_ok A) ok) P (call (cacheInsert A q pv) (\<lambda>_. give v)) st'"
    if "pair_ok (cache_ok A) ok st'" "pv_sound A q pv" "pv \<noteq> PV_None" "P v" for st' pv v and P :: "validity \<Rightarrow> bool"
    by (rule answers_call [OF cacheInsert_answers [OF q that(1-3)]]) (auto simp: that(4))
  show ?thesis
    unfolding Caching_computeValidity_def
  proof (rule answers_call [OF cacheLookup_answers [OF q assms(2)]], goal_cases)
    case (1 cached st)
    note t = answers_on_snd [OF 1(2) truth [OF assms(1)]]
      answers_on_snd [OF 1(2) truth [OF bool_query_negate [OF closed assms(1)]]]
      answers_on_snd [OF 1(2) validity [OF assms(1)]]
    show ?case
    proof (cases cached)
      case None
      have "answers live (pair_ok (cache_ok A) ok) (\<lambda>v. v = validity_of A q) (call (on_snd (computeValidity S q)) (\<lambda>result.
           call (cacheInsert A q
             (case result of VTrue \<Rightarrow> MustBeTrue | VFalse \<Rightarrow> MustBeFalse | Unknown \<Rightarrow> TrueOrFalse)) (\<lambda>_.
           give result))) st"
        by (rule answers_call [OF t(3)], assumption, rule ins)
          (auto simp: validity_of_def split: validity.split if_splits)
      with None show ?thesis by simp
    next
      case (Some pv)
      with 1 must_imp_may [OF q] show ?thesis
        by (cases pv) (auto simp: validity_of_def n intro!: answers_give ins answers_call [OF t(1)] answers_call [OF t(2)])
    qed
  qed
qed

lemma CachingSolver_contract: "solver_contract A D live (pair_ok (cache_ok A) ok) (CachingSolver A S)"
  using closed by unfold_locales
    (auto simp: CachingSolver_def caching_truth caching_validity intro: answers_on_snd feasible_value initial_values)

end

section \<open>\<open>DummySolverImpl\<close>\<close>

context apint
begin

lemma DummySolver_contract: "expr_class A D \<Longrightarrow> solver_contract A D False ok DummySolver"
  by unfold_locales (auto simp: DummySolver_def)

end

interpretation dummy: solver_contract "bv_ops opt" any_expr False ok DummySolver
  by (rule bv.DummySolver_contract) simp

section \<open>\<open>IncompleteSolver\<close> and \<open>StagedSolverImpl\<close>\<close>

text \<open>
  What is expected of an incomplete solver: it never aborts, its partial validities are right, and \<open>computeTruth\<close>
  does not answer \<open>MayBeTrue\<close>, which \<open>StagedSolverImpl\<close> would take for a proof that the query is not valid.
\<close>

definition truth_promise ::
    "'a ops \<Rightarrow> ('a expr \<Rightarrow> bool) \<Rightarrow> ('s \<Rightarrow> bool) \<Rightarrow> ('a query \<Rightarrow> ('s, partial_validity) comp) \<Rightarrow> bool" where
  "truth_promise A D ok truth \<longleftrightarrow> (\<forall>q s. bool_query A D q \<longrightarrow> ok s \<longrightarrow>
     answers True ok (\<lambda>pv. pv_sound A q pv \<and> pv \<noteq> MayBeTrue) (truth q) s)"

definition incomplete_promise ::
    "'a ops \<Rightarrow> ('a expr \<Rightarrow> bool) \<Rightarrow> ('s \<Rightarrow> bool) \<Rightarrow> ('s, 'a) incomplete_solver \<Rightarrow> bool" where
  "incomplete_promise A D ok I \<longleftrightarrow> truth_promise A D ok (inc_computeTruth I) \<and>
     (\<forall>q s. bool_query A D q \<longrightarrow> ok s \<longrightarrow> answers True ok (pv_sound A q) (inc_computeValidity I q) s) \<and>
     (\<forall>q s. query_ok A D q \<longrightarrow> ok s \<longrightarrow> answers False ok (possible_value A q) (inc_computeValue I q) s) \<and>
     (\<forall>q objects s. bool_query A D q \<longrightarrow> ok s \<longrightarrow>
        answers False ok (counterexample A q objects) (inc_computeInitialValues I q objects) s)"

lemma answers_or_else:
  assumes "answers False ok P m1 s" and "\<And>s'. ok s' \<Longrightarrow> answers live ok P m2 s'"
  shows "answers live ok P (or_else m1 m2) s"
proof -
  obtain r s' where m1: "m1 s = Some (r, s')" "ok s'" "\<forall>x. r = Some x \<longrightarrow> P x"
    using assms(1) by (auto simp: answers_def)
  with assms(2) [of s'] show ?thesis by (cases r) (auto simp: answers_def or_else_def)
qed

context apint
begin

lemma pv_sound_not_must:
  "query_ok A D q \<Longrightarrow> pv_sound A q pv \<Longrightarrow> pv \<noteq> MayBeTrue \<Longrightarrow> pv \<noteq> PV_None \<Longrightarrow> pv \<noteq> MustBeTrue \<Longrightarrow> \<not> must_hold A q"
  using must_imp_may [of D q] by (cases pv) auto

lemma IncompleteSolver_computeValidity_sound:
  assumes "truth_promise A D ok truth" and "bool_query A D q" and "ok s" and "expr_class A D"
  shows "answers True ok (pv_sound A q) (IncompleteSolver_computeValidity A truth q) s"
proof -
  have q: "query_ok A D q" "query_ok A D (negateExpr A q)"
    using assms(2) bool_query_negate [OF assms(4,2)] by (auto simp: bool_query_def)
  note n = negate_holds [OF q(1)]
  have t: "answers True ok (\<lambda>pv. pv_sound A q' pv \<and> pv \<noteq> MayBeTrue) (truth q') s'" if "bool_query A D q'" "ok s'" for q' s'
    using assms(1) that by (simp add: truth_promise_def)
  show ?thesis
    unfolding IncompleteSolver_computeValidity_def
  proof (rule answers_call [OF t [OF assms(2,3)]], goal_cases)
    case (1 tr s1)
    show ?case
    proof (cases "tr = MustBeTrue")
      case False
      have "answers True ok (pv_sound A q) (call (truth (negateExpr A q)) (\<lambda>falseResult.
         if falseResult = MustBeTrue then give MustBeFalse
         else
           let trueCorrect = (tr \<noteq> PV_None); falseCorrect = (falseResult \<noteq> PV_None) in
           if trueCorrect \<and> falseCorrect then give TrueOrFalse
           else if trueCorrect then give MayBeFalse
           else if falseCorrect then give MayBeTrue
           else give PV_None)) s1"
      proof (rule answers_call [OF t [OF bool_query_negate [OF assms(4,2)] 1(2)]], goal_cases)
        case (1 fr s2)
        note pv_sound_not_must [OF q(1), of tr] pv_sound_not_must [OF q(2), of fr]
        with 1 \<open>pv_sound A q tr \<and> tr \<noteq> MayBeTrue\<close> False n show ?case
          by (auto simp: Let_def intro!: answers_give)
      qed
      with False show ?thesis by simp
    qed (use 1 in auto)
  qed
qed

end

context solver_contract
begin

lemma StagedSolver_contract:
  assumes I: "incomplete_promise A D ok' I"
  shows "solver_contract A D live (pair_ok ok' ok) (StagedSolver A I S)"
proof (unfold_locales, rule closed)
  have t: "answers live ok' (\<lambda>pv. pv_sound A q pv \<and> pv \<noteq> MayBeTrue) (inc_computeTruth I q) p"
    if "bool_query A D q" "ok' p" for q p
    using I that by (auto simp: incomplete_promise_def truth_promise_def intro: answers_live_any)
  have v: "answers live ok' (pv_sound A q) (inc_computeValidity I q) p" if "bool_query A D q" "ok' p" for q p
    using I that by (auto simp: incomplete_promise_def intro: answers_live_any)
  fix q and st and objects
  assume st: "pair_ok ok' ok st"
  show "answers live (pair_ok ok' ok) (\<lambda>b. b = must_hold A q) (computeTruth (StagedSolver A I S) q) st"
    if b: "bool_query A D q"
  proof -
    have q: "query_ok A D q" using b by (simp add: bool_query_def)
    have "answers live (pair_ok ok' ok) (\<lambda>b. b = must_hold A q) (Staged_computeTruth I S q) st"
      unfolding Staged_computeTruth_def
    proof (rule answers_call [OF answers_on_fst [OF st t [OF b]]], assumption, goal_cases)
      case (1 pv st')
      then show ?case
        using pv_sound_not_must [OF q, of pv]
        by (auto intro!: answers_give answers_on_snd truth [OF b])
    qed
    then show ?thesis by (simp add: StagedSolver_def)
  qed
  show "answers live (pair_ok ok' ok) (\<lambda>v. v = validity_of A q) (computeValidity (StagedSolver A I S) q) st"
    if b: "bool_query A D q"
  proof -
    have q: "query_ok A D q" using b by (simp add: bool_query_def)
    have "answers live (pair_ok ok' ok) (\<lambda>v. v = validity_of A q) (Staged_computeValidity A I S q) st"
      unfolding Staged_computeValidity_def
    proof (rule answers_call [OF answers_on_fst [OF st v [OF b]]], assumption, goal_cases)
      case (1 pv st')
      note t' = answers_on_snd [OF 1(2) truth [OF b]] answers_on_snd [OF 1(2) truth [OF bool_query_negate [OF closed b]]]
      show ?case
      proof (cases "pv = PV_None")
        case True
        then show ?thesis using answers_on_snd [OF 1(2) validity [OF b]] by simp
      next
        case False
        with 1 must_imp_may [OF q] negate_holds [OF q] show ?thesis
          by (cases pv)
            (auto simp: validity_of_def intro!: answers_give answers_call [OF t'(1)] answers_call [OF t'(2)])
      qed
    qed
    then show ?thesis by (simp add: StagedSolver_def)
  qed
  show "answers live (pair_ok ok' ok) (possible_value A q) (computeValue (StagedSolver A I S) q) st"
    if "query_ok A D q"
    using I st that unfolding StagedSolver_def Staged_computeValue_def incomplete_promise_def
    by (auto intro!: answers_or_else answers_on_fst answers_on_snd feasible_value)
  show "answers live (pair_ok ok' ok) (counterexample A q objects) (computeInitialValues (StagedSolver A I S) q objects) st"
    if "bool_query A D q"
    using I st that unfolding StagedSolver_def Staged_computeInitialValues_def incomplete_promise_def
    by (auto intro!: answers_or_else answers_on_fst answers_on_snd initial_values)
qed

end

section \<open>\<open>ValidatingSolver\<close>\<close>

lemma vote_truth_answers:
  assumes s: "\<And>s. ok s \<Longrightarrow> answers live ok (\<lambda>b. b = c) (computeTruth S q) s"
    and t: "\<And>t. ok' t \<Longrightarrow> answers live ok' (\<lambda>b. b = c) (computeTruth S' q) t"
    and "pair_ok ok ok' st"
  shows "answers live (pair_ok ok ok')
    (\<lambda>(x, y). x = tc + (if c then length is else 0) \<and> y = fc + (if c then 0 else length is))
    (vote_truth rnd S S' q is tc fc) st"
  using assms(3)
proof (induction "is" arbitrary: tc fc st)
  case (Cons i "is")
  show ?case
    unfolding vote_truth.simps
  proof (rule answers_call [OF answers_on_snd [OF Cons.prems t]], assumption,
      rule answers_call [OF answers_on_fst [OF _ s]], assumption, assumption, goal_cases)
    case (1 r1 st1 r2 st2)
    then show ?case
      using Cons.IH [of st2 "tc + 1" fc] Cons.IH [of st2 tc "fc + 1"] by (cases c) auto
  qed
qed auto

lemma vote_validity_answers:
  assumes s: "\<And>s. ok s \<Longrightarrow> answers live ok (\<lambda>b. b = c) (computeValidity S q) s"
    and t: "\<And>t. ok' t \<Longrightarrow> answers live ok' (\<lambda>b. b = c) (computeValidity S' q) t"
    and "pair_ok ok ok' st"
  shows "answers live (pair_ok ok ok')
    (\<lambda>(x, y, z). x = tc + (if c = VTrue then n else 0) \<and> y = fc + (if c = VFalse then n else 0) \<and>
       z = uc + (if c = Unknown then n else 0))
    (vote_validity S S' q n tc fc uc) st"
  using assms(3)
proof (induction n arbitrary: tc fc uc st)
  case (Suc n)
  show ?case
    unfolding vote_validity.simps
  proof (rule answers_call [OF answers_on_fst [OF Suc.prems s]], assumption,
      rule answers_call [OF answers_on_snd [OF _ t]], assumption, assumption, goal_cases)
    case (1 r1 st1 r2 st2)
    then show ?case
      using Suc.IH [of st2 "tc + 1" fc uc] Suc.IH [of st2 tc "fc + 1" uc] Suc.IH [of st2 tc fc "uc + 1"]
      by (cases c) auto
  qed
qed auto







definition has_values ::
    "('a array_obj \<Rightarrow> nat \<Rightarrow> int) \<Rightarrow> 'a array_obj list \<Rightarrow> 8 word list list \<Rightarrow> bool" where
  "has_values \<sigma> objects vals \<longleftrightarrow>
     (\<forall>i < length vals. \<forall>j < array_size (objects ! i). vals ! i ! j = word_of_int (\<sigma> (objects ! i) j))"




lemma has_values_Cons:
  "has_values \<sigma> (obj # objects) (v # vs) \<longleftrightarrow>
   (\<forall>j < array_size obj. v ! j = word_of_int (\<sigma> obj j)) \<and> has_values \<sigma> objects vs"
  by (auto simp: has_values_def nth_Cons split: nat.splits)

context apint
begin

lemma binding_denotes:
  assumes "isSymbolicArray obj" and "wt_array A obj" and "j < array_size obj"
  shows "denotes A \<sigma> (binding A obj j v) 1 (of_bool (v = word_of_int (\<sigma> obj j)))"
proof -
  have j: "j < 2 ^ 32" using assms by (simp add: wt_array_def)
  have i: "denotes A \<sigma> (ConstantExpr_alloc A j 32) 32 (int j)" using const_denotes [of 32 j] j by simp
  have rd: "denotes A \<sigma> (Read_create A obj NoUpdate (ConstantExpr_alloc A j 32)) 8 (take_bit 8 (\<sigma> obj j))"
    using Read_create_denotes [OF assms(2) _ _ i, of NoUpdate] assms(1)
    by (simp add: isConstantArray_def isSymbolicArray_def array_value_def)
  have "unat v < 2 ^ 8" using unsigned_less [of v] by simp
  then have c: "denotes A \<sigma> (ConstantExpr_alloc A (unat v) 8) 8 (uint v)" using const_denotes [of 8 "unat v"] by simp
  have "take_bit 8 (\<sigma> obj j) = uint v \<longleftrightarrow> v = word_of_int (\<sigma> obj j)"
    by (auto simp: word_uint_eq_iff uint_word_of_int_eq)
  then show ?thesis
    using Bin_create_denotes [OF rd c, where k = Eq] by (simp add: binding_def bin_pre_def bin_safe_def)
qed

lemma bindings_of_correct:
  assumes "bindings_of A objects vals = Some bs" and "\<forall>obj \<in> set objects. isSymbolicArray obj \<and> wt_array A obj"
  shows "length vals \<le> length objects \<and> (\<forall>b \<in> set bs. constraint_ok A b) \<and>
    (\<forall>\<sigma>. holds A bs \<sigma> \<longleftrightarrow> has_values \<sigma> objects vals)"
  using assms
proof (induction vals arbitrary: objects bs)
  case Nil
  then show ?case by (simp add: has_values_def)
next
  case (Cons v vs)
  from Cons.prems(1) obtain obj objs where objects: "objects = obj # objs" by (cases objects) auto
  with Cons.prems(1) obtain bs' where bs': "bindings_of A objs vs = Some bs'"
    and bs: "bs = map (\<lambda>j. binding A obj j (v ! j)) [0..<array_size obj] @ bs'"
    by (auto split: if_splits)
  have d: "denotes A \<sigma> (binding A obj j (v ! j)) 1 (of_bool (v ! j = word_of_int (\<sigma> obj j)))"
    if "j < array_size obj" for j \<sigma>
    using Cons.prems(2) objects that by (intro binding_denotes) auto
  have "constraint_ok A (binding A obj j (v ! j))" if "j < array_size obj" for j
    using good_created [OF d [OF that]] by (simp add: constraint_ok_def)
  moreover have "holds A (map (\<lambda>j. binding A obj j (v ! j)) [0..<array_size obj]) \<sigma> \<longleftrightarrow>
      (\<forall>j < array_size obj. v ! j = word_of_int (\<sigma> obj j))" for \<sigma>
    using d by (auto simp: holds_def denotes_def)
  moreover note Cons.IH [OF bs']
  ultimately show ?case using Cons.prems(2) by (auto simp: objects bs has_values_Cons)
qed

lemma foldl_And_denotes:
  assumes "denotes A \<sigma> e 1 a" and "\<forall>c \<in> set cs. constraint_ok A c"
  shows "\<exists>b. denotes A \<sigma> (foldl (And_create A) e cs) 1 b \<and> (b \<noteq> 0 \<longleftrightarrow> a \<noteq> 0 \<and> holds A cs \<sigma>)"
  using assms
proof (induction cs arbitrary: e a)
  case (Cons c cs)
  have c: "denotes A \<sigma> c 1 (sem A \<sigma> c)" using Cons.prems(2) good_denotes [of c \<sigma>] by (simp add: constraint_ok_def)
  have "denotes A \<sigma> (And_create A e c) 1 (a AND sem A \<sigma> c)"
    using And_create_denotes [OF Cons.prems(1) c] by simp
  from Cons.IH [OF this] Cons.prems(2) show ?case
    using and_1_neq_0 [of a "sem A \<sigma> c"] denotes_fits [OF Cons.prems(1)] denotes_fits [OF c] by auto
qed auto

lemma Ne_query:
  assumes "query_ok A any_expr q" and "good A e" and "getWidth A e = getWidth A (q_expr q)"
  shows "bool_query A any_expr (withExpr q (Ne_create A (q_expr q) e))"
    and "sem A \<sigma> (Ne_create A (q_expr q) e) = of_bool (sem A \<sigma> (q_expr q) \<noteq> sem A \<sigma> e)"
proof -
  have g: "good A (q_expr q)" using assms(1) by (simp add: query_ok_def)
  have "denotes A \<sigma> (Ne_create A (q_expr q) e) 1 (of_bool (sem A \<sigma> (q_expr q) \<noteq> sem A \<sigma> e))" for \<sigma>
    using Ne_create_denotes [OF good_denotes [OF g] good_denotes [OF assms(2), unfolded assms(3)]] by simp
  note * = good_created [OF this]
  show "bool_query A any_expr (withExpr q (Ne_create A (q_expr q) e))" using bool_query_withExpr [OF assms(1) *(1,2)] by (simp add: any_expr_def)
  show "sem A \<sigma> (Ne_create A (q_expr q) e) = of_bool (sem A \<sigma> (q_expr q) \<noteq> sem A \<sigma> e)" by (rule *(3))
qed

lemma possible_value_good:
  assumes "query_ok A D q" and "possible_value A q e"
  shows "good A e \<and> getWidth A e = getWidth A (q_expr q)"
proof -
  have "width_ok (getWidth A (q_expr q))" using assms(1) wt_width_ok by (auto simp: query_ok_def good_def)
  with assms(2) show ?thesis by (auto simp: possible_value_def good_def)
qed

end

section \<open>Agreement and validation\<close>

lemma Validating_agrees:
  assumes S: "solver_contract A any_expr live ok S" and T: "solver_contract A any_expr live ok' S'"
    and st: "pair_ok ok ok' st"
  shows "bool_query A any_expr q \<Longrightarrow>
      answers live (pair_ok ok ok') (\<lambda>b. b = must_hold A q) (Validating_computeTruth rnd S S' q) st"
    and "bool_query A any_expr q \<Longrightarrow>
      answers live (pair_ok ok ok') (\<lambda>v. v = validity_of A q) (Validating_computeValidity S S' q) st"
    and "query_ok A any_expr q \<Longrightarrow> answers live (pair_ok ok ok') (possible_value A q) (Validating_computeValue A S S' q) st"
proof -
  have ap: "apint A" using S by (simp add: solver_contract_def)
  show "answers live (pair_ok ok ok') (\<lambda>b. b = must_hold A q) (Validating_computeTruth rnd S S' q) st"
    if "bool_query A any_expr q"
    unfolding Validating_computeTruth_def
    by (rule answers_call [OF vote_truth_answers [OF solver_contract.truth [OF S that]
          solver_contract.truth [OF T that] st]]; (assumption)?) (use that in \<open>auto simp: VOTE_COUNT_def split: if_splits intro!: answers_give\<close>)
  show "answers live (pair_ok ok ok') (\<lambda>v. v = validity_of A q) (Validating_computeValidity S S' q) st"
    if "bool_query A any_expr q"
    unfolding Validating_computeValidity_def
    by (rule answers_call [OF vote_validity_answers [OF solver_contract.validity [OF S that]
          solver_contract.validity [OF T that] st]]; (assumption)?; cases "validity_of A q")
      (auto simp: VOTE_COUNT_def intro!: answers_give)
  show "answers live (pair_ok ok ok') (possible_value A q) (Validating_computeValue A S S' q) st"
    if q: "query_ok A any_expr q"
    unfolding Validating_computeValue_def
  proof (rule answers_call [OF answers_on_fst [OF st solver_contract.feasible_value [OF S q]]], assumption, goal_cases)
    case (1 e st1)
    note g = apint.possible_value_good [OF ap q 1(1)]
    note ne = apint.Ne_query [OF ap q, of e]
    have "\<not> must_hold A (withExpr q (Ne_create A (q_expr q) e))"
      using 1(1) ne(2) g by (auto simp: must_hold_def possible_value_def)
    with 1 show ?case
      by (intro answers_call [OF answers_on_snd [OF 1(2) solver_contract.truth [OF T ne(1)]]]) (use g in auto)
  qed
qed



interpretation cached: solver_contract "bv_ops opt" any_expr True "pair_ok (cache_ok (bv_ops opt)) (\<lambda>_. True)"
    "CachingSolver (bv_ops opt) (ideal_solver (bv_ops opt))"
  by (rule ideal.CachingSolver_contract)

section \<open>Properties\<close>

text \<open>The query of the examples: a byte between 3 and 9 is smaller than 10.\<close>

definition less_query :: "bool list query" where
  "less_query = input_query (BinaryExpr Ult (input_byte 0) (ConstantExpr (bv 8 10)))"

lemma less_query: "bool_query (bv_ops False) any_expr less_query" "must_hold (bv_ops False) less_query"
proof -
  have "good (bv_ops False) (BinaryExpr Ult (input_byte 0) (ConstantExpr (bv 8 10)))" by (simp add: good_def input_simps)
  from input_query_ok [OF this] show "bool_query (bv_ops False) any_expr less_query"
    by (simp add: bool_query_def less_query_def)
  show "must_hold (bv_ops False) less_query"
    by (simp add: must_hold_def less_query_def input_query_sat input_byte_good)
qed

text \<open>
  C33.  \<open>CachingSolver\<close> on top of a solver that keeps the contract keeps it, from the empty cache on: an answer
  taken from the cache, for the query or for its negation, is the answer the solver would give, whatever queries
  were asked before.  It aborts in no case and fails only if the solver below fails.
\<close>

theorem CachingSolver_correct:
  assumes "solver_contract A D live ok S"
  shows "solver_contract A D live (pair_ok (cache_ok A) ok) (CachingSolver A S) \<and>
    (ok s \<longrightarrow> pair_ok (cache_ok A) ok ([], s))"
  using solver_contract.CachingSolver_contract [OF assms] by (simp add: pair_ok_def cache_ok_def)

theorem CachingSolver_correct_witness:
  "\<exists>st. computeTruth (CachingSolver (bv_ops False) (ideal_solver (bv_ops False))) less_query ([], ()) = Some (Some True, st)"
proof -
  have c: "solver_contract (bv_ops False) any_expr True (pair_ok (cache_ok (bv_ops False)) (\<lambda>_. True))
      (CachingSolver (bv_ops False) (ideal_solver (bv_ops False)))"
    and st: "pair_ok (cache_ok (bv_ops False)) (\<lambda>_. True) ([], ())"
    using CachingSolver_correct [OF ideal.solver_contract_axioms [of False], of "()"] by simp_all
  from answers_live [OF solver_contract.truth [OF c less_query(1) st]] less_query(2) show ?thesis by metis
qed

text \<open>
  C34.  \<open>StagedSolverImpl\<close>: with an incomplete solver whose partial answers are right in front, a solver that keeps
  the contract still keeps it.  The default \<open>IncompleteSolver::computeValidity\<close> gives right partial answers if
  \<open>computeTruth\<close> does.
\<close>

theorem StagedSolver_correct:
  assumes "solver_contract A D live ok S" and "truth_promise A D ok' (inc_computeTruth I)"
    and "inc_computeValidity I = IncompleteSolver_computeValidity A (inc_computeTruth I)"
    and "\<And>q p. query_ok A D q \<Longrightarrow> ok' p \<Longrightarrow> answers False ok' (possible_value A q) (inc_computeValue I q) p"
    and "\<And>q objects p. bool_query A D q \<Longrightarrow> ok' p \<Longrightarrow>
      answers False ok' (counterexample A q objects) (inc_computeInitialValues I q objects) p"
  shows "solver_contract A D live (pair_ok ok' ok) (StagedSolver A I S)"
proof -
  have "apint A" using assms(1) by (simp add: solver_contract_def)
  from apint.IncompleteSolver_computeValidity_sound [OF this assms(2)] solver_contract.closed [OF assms(1)] assms(2-5)
  have "incomplete_promise A D ok' I" by (simp add: incomplete_promise_def)
  then show ?thesis by (rule solver_contract.StagedSolver_contract [OF assms(1)])
qed

text \<open>An incomplete solver that only recognises constants.\<close>

definition constant_truth :: "'a ops \<Rightarrow> 'a query \<Rightarrow> ('s, partial_validity) comp" where
  "constant_truth A q =
     (case dyn_cast_Constant (q_expr q) of
        Some c \<Rightarrow> give (if const_isTrue A c then MustBeTrue else MayBeFalse) | None \<Rightarrow> give PV_None)"

definition constant_solver :: "'a ops \<Rightarrow> (unit, 'a) incomplete_solver" where
  "constant_solver A = \<lparr>
     inc_computeValidity = IncompleteSolver_computeValidity A (constant_truth A),
     inc_computeTruth = constant_truth A,
     inc_computeValue = (\<lambda>_. fail),
     inc_computeInitialValues = (\<lambda>_ _. fail)\<rparr>"

lemma constant_truth_promise: "truth_promise (bv_ops False) any_expr (\<lambda>_. True) (constant_truth (bv_ops False))"
  using bv.constant_query [of False any_expr]
  by (auto simp: truth_promise_def constant_truth_def split: option.split intro!: answers_give)

theorem StagedSolver_correct_witness:
  "\<exists>st. computeValidity (StagedSolver (bv_ops False) (constant_solver (bv_ops False)) (ideal_solver (bv_ops False)))
     less_query ((), ()) = Some (Some VTrue, st)"
proof -
  have c: "solver_contract (bv_ops False) any_expr True (pair_ok (\<lambda>_. True) (\<lambda>_. True))
      (StagedSolver (bv_ops False) (constant_solver (bv_ops False)) (ideal_solver (bv_ops False)))"
    by (rule StagedSolver_correct [OF ideal.solver_contract_axioms])
      (auto simp: constant_solver_def constant_truth_promise)
  have "validity_of (bv_ops False) less_query = VTrue" using less_query(2) by (simp add: validity_of_def)
  moreover have "pair_ok (\<lambda>_. True) (\<lambda>_. True) ((), ())" by (simp add: pair_ok_def)
  ultimately show ?thesis
    using answers_live [OF solver_contract.validity [OF c less_query(1)]] by metis
qed





end
