(* ===== verification/Assignment_Sound.thy ===== *)
theory Assignment_Sound
  imports Assignment MapOfSets SolverWrappers_Sound
begin

text \<open>
  The evaluator computes the value of an expression under the bound bytes, whatever the cache has seen.  A class of
  expressions given by a hereditary property, such as that no divisor is zero, contains what the solvers build.
  \<open>findSymbolicObjects\<close> finds the symbolic arrays that an expression depends on.
\<close>

section \<open>Evaluation\<close>

text \<open>The assignment \<open>\<sigma>\<close> that bindings stand for: unbound bytes are zero.\<close>

definition bound_values :: "('a array_obj \<times> 8 word list) list \<Rightarrow> 'a array_obj \<Rightarrow> nat \<Rightarrow> int" where
  "bound_values bs obj j =
     (if j < array_size obj then case map_of bs obj of Some v \<Rightarrow> uint (v ! j) | None \<Rightarrow> 0 else 0)"

definition bindings_ok :: "('a array_obj \<times> 8 word list) list \<Rightarrow> bool" where
  "bindings_ok bs \<longleftrightarrow> (\<forall>(obj, v) \<in> set bs. isSymbolicArray obj \<and> length v = array_size obj)"

text \<open>No divisor in the expression has the value zero.\<close>

fun divisors_ok :: "'a ops \<Rightarrow> ('a array_obj \<Rightarrow> nat \<Rightarrow> int) \<Rightarrow> 'a expr \<Rightarrow> bool"
and divisors_ok_upd :: "'a ops \<Rightarrow> ('a array_obj \<Rightarrow> nat \<Rightarrow> int) \<Rightarrow> 'a update_node \<Rightarrow> bool" where
  "divisors_ok A \<sigma> (ConstantExpr c) \<longleftrightarrow> True"
| "divisors_ok A \<sigma> (ReadExpr root us i) \<longleftrightarrow> divisors_ok_upd A \<sigma> us \<and> divisors_ok A \<sigma> i"
| "divisors_ok A \<sigma> (SelectExpr c t f) \<longleftrightarrow> divisors_ok A \<sigma> c \<and> divisors_ok A \<sigma> t \<and> divisors_ok A \<sigma> f"
| "divisors_ok A \<sigma> (ConcatExpr l r) \<longleftrightarrow> divisors_ok A \<sigma> l \<and> divisors_ok A \<sigma> r"
| "divisors_ok A \<sigma> (ExtractExpr e off w) \<longleftrightarrow> divisors_ok A \<sigma> e"
| "divisors_ok A \<sigma> (NotExpr e) \<longleftrightarrow> divisors_ok A \<sigma> e"
| "divisors_ok A \<sigma> (ZExtExpr e w) \<longleftrightarrow> divisors_ok A \<sigma> e"
| "divisors_ok A \<sigma> (SExtExpr e w) \<longleftrightarrow> divisors_ok A \<sigma> e"
| "divisors_ok A \<sigma> (BinaryExpr k l r) \<longleftrightarrow> divisors_ok A \<sigma> l \<and> divisors_ok A \<sigma> r \<and>
     (is_division k \<longrightarrow> sem A \<sigma> r \<noteq> 0)"
| "divisors_ok_upd A \<sigma> NoUpdate \<longleftrightarrow> True"
| "divisors_ok_upd A \<sigma> (UpdateNode nxt ui uv) \<longleftrightarrow>
     divisors_ok_upd A \<sigma> nxt \<and> divisors_ok A \<sigma> ui \<and> divisors_ok A \<sigma> uv"

text \<open>The expression \<open>r\<close> is the constant value of \<open>e\<close>.\<close>

definition val_of :: "'a ops \<Rightarrow> ('a array_obj \<Rightarrow> nat \<Rightarrow> int) \<Rightarrow> 'a expr \<Rightarrow> 'a expr \<Rightarrow> bool" where
  "val_of A \<sigma> e r \<longleftrightarrow> (\<exists>c. r = ConstantExpr c \<and> denotes A \<sigma> r (getWidth A e) (sem A \<sigma> e))"

definition eval_ok :: "'a ops \<Rightarrow> ('a array_obj \<times> 8 word list) list \<Rightarrow> 'a assignment \<Rightarrow> bool" where
  "eval_ok A bs a \<longleftrightarrow> \<not> allowFreeValues a \<and> bindings a = bs \<and> bindings_ok bs \<and>
     (\<forall>(e, r) \<in> set (expressionCache a). val_of A (bound_values bs) e r)"

definition visits ::
    "'a ops \<Rightarrow> ('a array_obj \<times> 8 word list) list \<Rightarrow> 'a expr \<Rightarrow> ('a assignment \<Rightarrow> 'a expr \<times> 'a assignment) \<Rightarrow> bool" where
  "visits A bs e m \<longleftrightarrow> (\<forall>a. eval_ok A bs a \<longrightarrow>
     (\<exists>r a'. m a = (r, a') \<and> val_of A (bound_values bs) e r \<and> eval_ok A bs a'))"

fun rewritten :: "'a ops \<Rightarrow> ('a array_obj \<Rightarrow> nat \<Rightarrow> int) \<Rightarrow> 'a update_node \<Rightarrow> 'a update_node \<Rightarrow> bool" where
  "rewritten A \<sigma> NoUpdate ul \<longleftrightarrow> ul = NoUpdate"
| "rewritten A \<sigma> (UpdateNode nxt ui uv) ul \<longleftrightarrow>
     (\<exists>nxt' i v. ul = UpdateNode nxt' i v \<and> rewritten A \<sigma> nxt nxt' \<and> val_of A \<sigma> ui i \<and> val_of A \<sigma> uv v)"

lemma visitsI:
  assumes "\<And>a. eval_ok A bs a \<Longrightarrow> \<exists>r a'. m a = (r, a') \<and> val_of A (bound_values bs) e r \<and> eval_ok A bs a'"
  shows "visits A bs e m"
  using assms by (simp add: visits_def)

lemma visitsE:
  assumes "visits A bs e m" and "eval_ok A bs a"
  obtains r a' where "m a = (r, a')" and "val_of A (bound_values bs) e r" and "eval_ok A bs a'"
  using assms by (auto simp: visits_def)

lemma val_ofE:
  assumes "val_of A \<sigma> e r"
  obtains c where "r = ConstantExpr c" and "denotes A \<sigma> (ConstantExpr c) (getWidth A e) (sem A \<sigma> e)"
  using assms by (auto simp: val_of_def)

lemma visits_with_cache: "visits A bs e m \<Longrightarrow> visits A bs e (with_cache e m)"
proof (rule visitsI)
  fix a assume m: "visits A bs e m" and a: "eval_ok A bs a"
  show "\<exists>r a'. with_cache e m a = (r, a') \<and> val_of A (bound_values bs) e r \<and> eval_ok A bs a'"
  proof (cases "map_of (expressionCache a) e")
    case None
    from m a obtain r a' where *: "m a = (r, a')" "val_of A (bound_values bs) e r" "eval_ok A bs a'"
      by (rule visitsE)
    then have "eval_ok A bs (a'\<lparr>expressionCache := (e, r) # expressionCache a'\<rparr>)" by (simp add: eval_ok_def)
    with * None show ?thesis by (auto simp: with_cache_def)
  next
    case (Some r)
    then have "val_of A (bound_values bs) e r" using a by (auto simp: eval_ok_def dest!: map_of_SomeD)
    with Some a show ?thesis by (auto simp: with_cache_def)
  qed
qed

lemma visits_node:
  assumes "\<And>a. f a = with_cache e m a" and "visits A bs e m"
  shows "visits A bs e f"
proof -
  have "f = with_cache e m" using assms(1) by (rule ext)
  with visits_with_cache [OF assms(2)] show ?thesis by simp
qed

text \<open>Visiting kids and combining their values.\<close>

lemma visits_kid1:
  assumes "visits A bs e m" and "\<And>c. denotes A (bound_values bs) (ConstantExpr c) (getWidth A e) (sem A (bound_values bs) e) \<Longrightarrow>
    val_of A (bound_values bs) e' (f (ConstantExpr c))"
  shows "visits A bs e' (\<lambda>a. let (x, a) = m a in (f x, a))"
  using assms by (force simp: visits_def val_of_def)

lemma visits_kid2:
  assumes "visits A bs l m1" and "visits A bs r m2"
    and "\<And>c d. denotes A (bound_values bs) (ConstantExpr c) (getWidth A l) (sem A (bound_values bs) l) \<Longrightarrow>
      denotes A (bound_values bs) (ConstantExpr d) (getWidth A r) (sem A (bound_values bs) r) \<Longrightarrow>
      val_of A (bound_values bs) e' (f (ConstantExpr c) (ConstantExpr d))"
  shows "visits A bs e' (\<lambda>a. let (x, a) = m1 a; (y, a) = m2 a in (f x y, a))"
proof (rule visitsI)
  fix a assume "eval_ok A bs a"
  with assms(1) obtain x a1 where 1: "m1 a = (x, a1)" "val_of A (bound_values bs) l x" "eval_ok A bs a1"
    by (rule visitsE)
  from assms(2) 1(3) obtain y a2 where 2: "m2 a1 = (y, a2)" "val_of A (bound_values bs) r y" "eval_ok A bs a2"
    by (rule visitsE)
  from 1(2) 2(2) show "\<exists>r a'. (let (x, a) = m1 a; (y, a) = m2 a in (f x y, a)) = (r, a') \<and>
      val_of A (bound_values bs) e' r \<and> eval_ok A bs a'"
    by (auto elim!: val_ofE simp: 1(1) 2(1,3) intro: assms(3))
qed

lemma bound_values_proper: "bindings_ok bs \<Longrightarrow> proper (bound_values bs)"
  by (force simp: proper_def bound_values_def bindings_ok_def isConstantArray_def split: option.split dest!: map_of_SomeD)

context apint
begin

lemma Bin_create_constants:
  assumes "denotes A \<sigma> (ConstantExpr c) w a" and "denotes A \<sigma> (ConstantExpr d) w b" and "is_division k \<Longrightarrow> b \<noteq> 0"
  shows "\<exists>v. Bin_create A k (ConstantExpr c) (ConstantExpr d) = ConstantExpr v \<and>
    denotes A \<sigma> (ConstantExpr v) (if is_cmp k then 1 else w) (bin_sem k w a b)"
  using ConstantExpr_op_denotes [OF assms(1,2), of k] ConstantExpr_op_denotes [OF assms(2,1), of Ult]
    ConstantExpr_op_denotes [OF assms(2,1), of Ule] ConstantExpr_op_denotes [OF assms(2,1), of Slt]
    ConstantExpr_op_denotes [OF assms(2,1), of Sle] ConstantExpr_op_denotes [OF assms(1,2), of Eq]
    Ne_create_denotes [OF assms(1,2)] assms(3)
  by (cases k) (auto simp: is_division_def And_create.simps Or_create.simps Xor_create_def Mul_create_def bcreate_def
      Add_create.simps Sub_create.simps Add_create_const.simps Sub_create_const.simps Eq_create.simps Ne_create_def
      ConstantExpr_alloc_def)

lemma evaluate_byte_val:
  assumes "\<not> allowFreeValues a" and "bindings a = bs" and "bindings_ok bs"
  shows "\<exists>c. evaluate_byte A a root i = ConstantExpr c \<and>
    denotes A \<sigma> (ConstantExpr c) 8 (take_bit 8 (bound_values bs root i))"
proof -
  have d: "denotes A \<sigma> (ConstantExpr_alloc A (unat b) 8) 8 (take_bit 8 (uint b))" for b :: "8 word"
    using const_denotes [of 8 "unat b" \<sigma>] unsigned_less [of b, where ?'a = nat] unsigned_less [of b, where ?'a = int] by (simp add: take_bit_int_eq_self)
  have "denotes A \<sigma> (ConstantExpr_alloc A 0 8) 8 0" using const_denotes [of 8 0 \<sigma>] by simp
  with d assms show ?thesis
    by (auto simp: evaluate_byte_def bound_values_def ConstantExpr_alloc_def bindings_ok_def split: option.split dest!: map_of_SomeD)
qed

lemma read_rewritten_val:
  assumes "rewritten A (bound_values bs) us ul" and "wt_upd A us" and "wt_array A root"
    and ci: "denotes A (bound_values bs) (ConstantExpr ci) 32 iv" and a: "eval_ok A bs a"
  shows "\<exists>c. read_rewritten A a root ci ul = ConstantExpr c \<and>
    denotes A (bound_values bs) (ConstantExpr c) 8
      (sem_read A (bound_values bs) us iv (array_value A (bound_values bs) root iv))"
  using assms(1,2)
proof (induction us arbitrary: ul rule: upd_size.induct)
  case 1
  have i: "getBitWidth A ci = 32" "ap_uint A ci = iv" "0 \<le> iv" using ci uint_fits [of ci] by (auto simp: denotes_def fits_def)
  then have z: "ap_getZExtValue A ci = nat iv" by (simp add: zext_value)
  show ?case
  proof (cases "isConstantArray root \<and> nat iv < array_size root")
    case True
    then have l: "length (constantValues root) = array_size root" using assms(3) by (auto simp: wt_array_def isConstantArray_def)
    have "getBitWidth A (constantValues root ! nat iv) = 8" using assms(3) True l by (auto simp: wt_array_def)
    with 1 True l z show ?thesis by (auto simp: denotes_def array_value_def)
  next
    case False
    then have "\<not> nat iv < length (constantValues root)"
      using assms(3) by (auto simp: wt_array_def isConstantArray_def isSymbolicArray_def)
    moreover have "\<exists>c. evaluate_byte A a root (nat iv) = ConstantExpr c \<and>
        denotes A (bound_values bs) (ConstantExpr c) 8 (take_bit 8 (bound_values bs root (nat iv)))"
      using a by (intro evaluate_byte_val) (auto simp: eval_ok_def)
    ultimately show ?thesis using 1 False z by (auto simp: array_value_def)
  qed
next
  case (2 nxt ui uv)
  then obtain nxt' i v where ul: "ul = UpdateNode nxt' i v" and n: "rewritten A (bound_values bs) nxt nxt'"
    and i: "val_of A (bound_values bs) ui i" and v: "val_of A (bound_values bs) uv v" by auto
  from i obtain d where d: "i = ConstantExpr d" "denotes A (bound_values bs) (ConstantExpr d) 32 (sem A (bound_values bs) ui)"
    using 2(3) by (auto elim!: val_ofE)
  have "ap_getZExtValue A ci = ap_getZExtValue A d \<longleftrightarrow> sem A (bound_values bs) ui = iv"
    using ci d(2) zext_value_int [of ci] zext_value_int [of d] by (auto simp: denotes_def)
  moreover have "val_of A (bound_values bs) uv v" "getWidth A uv = 8" using v 2(3) by auto
  ultimately show ?case using 2(1) [OF n] 2(3) d(1) by (auto simp: ul val_of_def)
qed

lemma evaluate_binary_val:
  assumes c: "denotes A \<sigma> (ConstantExpr c) (getWidth A l) (sem A \<sigma> l)"
    and d: "denotes A \<sigma> (ConstantExpr d) (getWidth A l) (sem A \<sigma> r)" and "is_division k \<Longrightarrow> sem A \<sigma> r \<noteq> 0"
  shows "val_of A \<sigma> (BinaryExpr k l r) (evaluate_binary A k r (ConstantExpr c) (ConstantExpr d))"
proof -
  have z: "isZero A (ConstantExpr c) \<longleftrightarrow> sem A \<sigma> l = 0" "isZero A (ConstantExpr d) \<longleftrightarrow> sem A \<sigma> r = 0"
    using const_isZero_denotes [OF c] const_isZero_denotes [OF d] by (auto simp: isZero_def)
  from Bin_create_constants [OF c d assms(3)] obtain v
    where "Bin_create A k (ConstantExpr c) (ConstantExpr d) = ConstantExpr v"
      "denotes A \<sigma> (ConstantExpr v) (getWidth A (BinaryExpr k l r)) (sem A \<sigma> (BinaryExpr k l r))" by auto
  with c d z assms(3) show ?thesis by (auto simp: evaluate_binary_def val_of_def)
qed

lemma create_folds:
  "\<exists>v. Extract_create A (ConstantExpr c) off w = ConstantExpr v" "\<exists>v. ZExt_create A (ConstantExpr c) w = ConstantExpr v"
  "\<exists>v. SExt_create A (ConstantExpr c) w = ConstantExpr v" "\<exists>v. Not_create A (ConstantExpr c) = ConstantExpr v"
  "\<exists>v. Concat_create A (ConstantExpr c) (ConstantExpr d) = ConstantExpr v"
  by (auto simp: Extract_create.simps ZExt_create_def ZExt_by_def SExt_create_def SExt_by_def Not_create_def
      Concat_create_def Concat_by_def Let_def)

lemma val_ofI:
  "\<exists>v. r = ConstantExpr v \<Longrightarrow> denotes A \<sigma> r w v \<Longrightarrow> w = getWidth A e \<Longrightarrow> v = sem A \<sigma> e \<Longrightarrow> val_of A \<sigma> e r"
  by (auto simp: val_of_def)

lemma visit_val: "wt A e \<Longrightarrow> divisors_ok A (bound_values bs) e \<Longrightarrow> visits A bs e (visit A e)"
  and rewrite_val: "wt_upd A us \<Longrightarrow> divisors_ok_upd A (bound_values bs) us \<Longrightarrow> eval_ok A bs a \<Longrightarrow>
    \<exists>ul a'. rewriteUpdatesUncached A us a = (ul, a') \<and> rewritten A (bound_values bs) us ul \<and> eval_ok A bs a'"
proof (induction e and us arbitrary: and a)
  case (ConstantExpr c)
  then show ?case by (auto simp: visits_def visit.simps val_of_def denotes_def)
next
  case (ReadExpr root us i)
  show ?case
  proof (rule visits_node [OF visit.simps(2)], rule visitsI)
    fix a assume a: "eval_ok A bs a"
    have "visits A bs i (visit A i)" using ReadExpr by simp
    from this a obtain x a1 where 1: "visit A i a = (x, a1)" "val_of A (bound_values bs) i x" "eval_ok A bs a1"
      by (rule visitsE)
    from 1(2) obtain ci where ci: "x = ConstantExpr ci"
        "denotes A (bound_values bs) (ConstantExpr ci) 32 (sem A (bound_values bs) i)"
      using ReadExpr.prems by (auto elim!: val_ofE)
    obtain ul a2 where 2: "rewriteUpdatesUncached A us a1 = (ul, a2)" "rewritten A (bound_values bs) us ul" "eval_ok A bs a2"
      using ReadExpr.IH(1) [OF _ _ 1(3)] ReadExpr.prems by auto
    from read_rewritten_val [OF 2(2) _ _ ci(2) 2(3), of root] ReadExpr.prems
    show "\<exists>r a'. (let (index, a) = visit A i a in
          case dyn_cast_Constant index of None \<Rightarrow> (Read_create A root us index, a)
          | Some ci \<Rightarrow> (let (ul, a) = rewriteUpdatesUncached A us a in (read_rewritten A a root ci ul, a))) = (r, a') \<and>
        val_of A (bound_values bs) (ReadExpr root us i) r \<and> eval_ok A bs a'"
      by (auto simp: 1(1) ci(1) 2(1,3) val_of_def)
  qed
next
  case (SelectExpr c t f)
  show ?case
  proof (rule visits_node [OF visit.simps(3)], rule visitsI)
    fix a assume a: "eval_ok A bs a"
    have k: "visits A bs c (visit A c)" "visits A bs t (visit A t)" "visits A bs f (visit A f)" using SelectExpr by auto
    from k(1) a obtain x a1 where 1: "visit A c a = (x, a1)" "val_of A (bound_values bs) c x" "eval_ok A bs a1"
      by (rule visitsE)
    from 1(2) obtain ce where ce: "x = ConstantExpr ce"
        "denotes A (bound_values bs) (ConstantExpr ce) 1 (sem A (bound_values bs) c)"
      using SelectExpr.prems by (auto elim!: val_ofE)
    then have t: "const_isTrue A ce \<longleftrightarrow> sem A (bound_values bs) c \<noteq> 0" by (auto simp: denotes_def const_isTrue_iff)
    from k(2) 1(3) obtain x2 a2 where 2: "visit A t a1 = (x2, a2)" "val_of A (bound_values bs) t x2" "eval_ok A bs a2"
      by (rule visitsE)
    from k(3) 1(3) obtain x3 a3 where 3: "visit A f a1 = (x3, a3)" "val_of A (bound_values bs) f x3" "eval_ok A bs a3"
      by (rule visitsE)
    show "\<exists>r a'. (let (cond, a) = visit A c a in
        case dyn_cast_Constant cond of
          None \<Rightarrow> (let (t', a) = visit A t a; (f', a) = visit A f a in (Select_create A cond t' f', a))
        | Some ce \<Rightarrow> if const_isTrue A ce then visit A t a else visit A f a) = (r, a') \<and>
        val_of A (bound_values bs) (SelectExpr c t f) r \<and> eval_ok A bs a'"
      using 2 3 SelectExpr.prems by (auto simp: 1(1) ce(1) t val_of_def)
  qed
next
  case (ConcatExpr l r)
  show ?case
  proof (rule visits_node [OF visit.simps(4)], rule visits_kid2 [of A bs l _ r], goal_cases)
    case (3 c d)
    from Concat_create_denotes [OF this] ConcatExpr.prems show ?case
      unfolding rebuild.simps nth_Cons_0 nth_Cons_Suc One_nat_def by (intro val_ofI) (simp_all add: create_folds)
  qed (use ConcatExpr in simp_all)
next
  case (ExtractExpr e off w)
  show ?case
  proof (rule visits_node [OF visit.simps(5)], rule visits_kid1 [of A bs e], goal_cases)
    case (2 c)
    from Extract_create_denotes [OF this, of w off] ExtractExpr.prems show ?case
      unfolding rebuild.simps nth_Cons_0 by (intro val_ofI) (simp_all add: create_folds)
  qed (use ExtractExpr in simp)
next
  case (NotExpr e)
  show ?case
  proof (rule visits_node [OF visit.simps(6)], rule visits_kid1 [of A bs e], goal_cases)
    case (2 c)
    from Not_create_denotes [OF this] show ?case
      unfolding rebuild.simps nth_Cons_0 by (intro val_ofI) (simp_all add: create_folds)
  qed (use NotExpr in simp)
next
  case (ZExtExpr e w)
  show ?case
  proof (rule visits_node [OF visit.simps(7)], rule visits_kid1 [of A bs e], goal_cases)
    case (2 c)
    have "take_bit w (sem A (bound_values bs) e) = sem A (bound_values bs) e"
      using denotes_fits [OF 2] ZExtExpr.prems by (auto simp: fits_def take_bit_int_eq_self_iff intro: less_le_trans)
    with ZExt_create_denotes [OF 2, of w] ZExtExpr.prems show ?case
      unfolding rebuild.simps nth_Cons_0 by (intro val_ofI) (simp_all add: create_folds)
  qed (use ZExtExpr in simp)
next
  case (SExtExpr e w)
  show ?case
  proof (rule visits_node [OF visit.simps(8)], rule visits_kid1 [of A bs e], goal_cases)
    case (2 c)
    from SExt_create_denotes [OF this, of w] SExtExpr.prems show ?case
      unfolding rebuild.simps nth_Cons_0 by (intro val_ofI) (simp_all add: create_folds)
  qed (use SExtExpr in simp)
next
  case (BinaryExpr k l r)
  show ?case
    by (rule visits_node [OF visit.simps(9)], rule visits_kid2 [of A bs l _ r])
      (use BinaryExpr in \<open>auto intro!: evaluate_binary_val\<close>)
next
  case NoUpdate
  then show ?case by (auto simp: rewriteUpdatesUncached.simps)
next
  case (UpdateNode nxt ui uv)
  obtain ul a1 where 1: "rewriteUpdatesUncached A nxt a = (ul, a1)" "rewritten A (bound_values bs) nxt ul" "eval_ok A bs a1"
    using UpdateNode.IH(1) [OF _ _ UpdateNode.prems(3)] UpdateNode.prems by auto
  have k: "visits A bs ui (visit A ui)" "visits A bs uv (visit A uv)" using UpdateNode by auto
  from k(1) 1(3) obtain i a2 where 2: "visit A ui a1 = (i, a2)" "val_of A (bound_values bs) ui i" "eval_ok A bs a2"
    by (rule visitsE)
  from k(2) 2(3) obtain v a3 where 3: "visit A uv a2 = (v, a3)" "val_of A (bound_values bs) uv v" "eval_ok A bs a3"
    by (rule visitsE)
  show ?case using 1 2 3 by (simp add: rewriteUpdatesUncached.simps)
qed

end

section \<open>Classes of expressions\<close>

lemma is_division_simps [simp]: "is_division UDiv" "is_division SDiv" "is_division URem" "is_division SRem"
  "\<not> is_division And" "\<not> is_division Or" "\<not> is_division Eq" "\<not> is_division LShr" "\<not> is_division Ule"
  "\<not> is_division Add" "\<not> is_division Sub"
  by (simp_all add: is_division_def)

context apint
begin

text \<open>The rewriting of unaligned reads does not apply to Boolean expressions.\<close>

lemma SimplifyUnaligned_bool:
  assumes "getWidth A l = 1"
  shows "SimplifyUnalignedReadPattern A (BinaryExpr Or l r) = Some (BinaryExpr Or l r)"
proof -
  have "to_u64 (a + b) \<noteq> Suc 0" if "a mod 8 = 0" "b mod 8 = 0" for a b :: nat
  proof -
    have "8 dvd to_u64 (a + b)" unfolding to_u64_def
      by (rule dvd_mod) (use that in \<open>auto simp: mod_eq_0_iff_dvd\<close>)
    then show ?thesis by auto
  qed
  then show ?thesis
    using assms by (auto simp: SimplifyUnalignedReadPattern_def Let_def split: option.split)
qed

end

text \<open>A property of expressions that holds of an expression if it holds of its parts, divisions apart.\<close>

locale hereditary = apint A for A :: "'a ops" +
  fixes R :: "'a expr \<Rightarrow> bool"
  assumes R_Constant [simp]: "R (ConstantExpr c)"
    and R_Binary [simp]: "\<not> is_division k \<Longrightarrow> R (BinaryExpr k l r) \<longleftrightarrow> R l \<and> R r"
    and R_SExt [simp]: "R (SExtExpr e w) \<longleftrightarrow> R e"
    and R_ZExt [simp]: "R (ZExtExpr e w) \<longleftrightarrow> R e"
    and R_Read: "R (ReadExpr root us i) \<Longrightarrow> R i"
begin

lemma R_alloc [simp]: "R (ConstantExpr_alloc A v w)"
  by (simp add: ConstantExpr_alloc_def)

lemma And_create_R: "R l \<Longrightarrow> R r \<Longrightarrow> R (And_create A l r)"
proof (induction "size l + size r" arbitrary: l r rule: less_induct)
  case less
  have p: "R (AndExpr_createPartial A x c)"
    if x: "R x" "size x < size l + size r" for x c
    unfolding AndExpr_createPartial.simps using x
    by (auto split: option.split intro!: less.hyps)
  have "R (AndExpr_create A l r)"
    unfolding AndExpr_create.simps using less.prems
    by (auto split: option.split dest!: absorb_args_Some intro!: less.hyps)
  with p less.prems show ?case
    unfolding And_create.simps by (auto split: option.split simp: expr_size_pos)
qed

lemma Or_create_R:
  "wt A l \<Longrightarrow> wt A r \<Longrightarrow> getWidth A l = 1 \<Longrightarrow> getWidth A r = 1 \<Longrightarrow> R l \<Longrightarrow> R r \<Longrightarrow>
   R (Or_create A l r)"
proof (induction "size l + size r" arbitrary: l r rule: less_induct)
  case less
  have p: "R (OrExpr_createPartial A x c)"
    if x: "R x" "wt A x" "getWidth A x = 1" "size x < size l + size r" "getBitWidth A c = 1" for x c
    unfolding OrExpr_createPartial.simps using x
    by (auto split: option.split intro!: less.hyps simp: width_ok_def apint_simps)
  have "R (OrExpr_create A l r)"
    unfolding OrExpr_create.simps SimplifyUnaligned_bool [OF less.prems(3)] using less.prems
    by (auto split: option.split dest!: absorb_args_Some intro!: less.hyps)
  with p less.prems show ?case
    unfolding Or_create.simps by (auto split: option.split simp: expr_size_pos)
qed

lemma EqExpr_create_R: "R l \<Longrightarrow> R r \<Longrightarrow> R (EqExpr_create A l r)"
  by (simp add: EqExpr_create_def)

lemma TryConstArrayOpt_loop_R:
  assumes "\<And>j. j < i + length vs \<Longrightarrow> denotes A \<sigma> (eqIndex j) 1 (f j) \<and> R (eqIndex j)"
    and "denotes A \<sigma> res 1 b" and "R res"
    and "TryConstArrayOpt_loop A eqIndex cl vs i n res = Some e"
  shows "R e"
  using assms
proof (induction vs arbitrary: i n res b)
  case (Cons v vs)
  have "R (Or_create A res (eqIndex i))"
    using Cons.prems(1) [of i] Cons.prems(2,3) by (intro Or_create_R) (auto simp: denotes_def)
  moreover have "denotes A \<sigma> (Or_create A res (eqIndex i)) 1 (b OR f i)"
    using Cons.prems(1) [of i] Cons.prems(2) by (intro Or_create_denotes) auto
  ultimately show ?case
    using Cons.IH [of "Suc i" "Or_create A res (eqIndex i)" "b OR f i" "Suc n"] Cons.IH [of "Suc i" res b n] Cons.prems
    by (auto split: if_splits)
qed simp

lemma EqPartialR_R:
  "denotes A \<sigma> (ConstantExpr cl) w c \<Longrightarrow> denotes A \<sigma> r w v \<Longrightarrow> R r \<Longrightarrow>
   R (EqExpr_createPartialR A cl r)"
proof (induction r arbitrary: cl w c v rule: measure_induct_rule [of size])
  case (less r)
  note cl = less.prems(1) and r = less.prems(2) and d = less.prems(3)
  have w: "getBitWidth A cl = w" using cl by (simp add: denotes_Constant)
  have eqc: "R (Eq_create A x (ConstantExpr k))"
    if "size x < size r" "denotes A \<sigma> x kw u" "denotes A \<sigma> (ConstantExpr k) kw e" "R x" for x k kw u e
    using less.IH [OF that(1,3,2,4)] by (simp add: Eq_create_const_r split: option.split)
  have z: "R (Eq_create A x (ConstantExpr_alloc A 0 (getWidth A x)))"
    if "size x < size r" "denotes A \<sigma> x kw u" "R x" for x kw u
  proof -
    have "denotes A \<sigma> (ConstantExpr_alloc A 0 (getWidth A x)) kw 0"
      using that(2) const_denotes [OF denotes_width_ok [OF that(2)], of 0 \<sigma>] by (simp add: denotes_def)
    with eqc [OF that(1,2) _ that(3)] show ?thesis by (simp add: ConstantExpr_alloc_def)
  qed
  have o: "R (EqExpr_create A (ConstantExpr cl) r)" using d by (simp add: EqExpr_create_R)
  note eqn = EqExpr_createPartialR.simps [of A cl r]
  show ?case
  proof (cases r)
    case (ReadExpr root us idx)
    obtain iv where iv: "denotes A \<sigma> idx 32 iv" and wa: "wt_array A root"
      using r by (auto simp: denotes_Read ReadExpr)
    have "R e"
      if "TryConstArrayOpt_loop A (\<lambda>i. Eq_create A idx (ConstantExpr_alloc A i (getWidth A idx))) cl (constantValues root)
            0 0 (ConstantExpr_alloc A 0 1) = Some e" "\<not> isSymbolicArray root" for e
    proof (rule TryConstArrayOpt_loop_R [OF _ _ _ that(1)])
      fix j assume "j < 0 + length (constantValues root)"
      then have "j < 2 ^ 32" using wa that(2) by (auto simp: wt_array_def isConstantArray_def)
      then have j: "denotes A \<sigma> (ConstantExpr_alloc A j (getWidth A idx)) 32 (int j)"
        using const_denotes [of 32 j \<sigma>] iv by (simp add: denotes_def)
      have "R (Eq_create A idx (ConstantExpr_alloc A j (getWidth A idx)))"
        using eqc [OF _ iv j [unfolded ConstantExpr_alloc_def]] d R_Read [of root us idx] by (simp add: ReadExpr ConstantExpr_alloc_def)
      with Eq_create_denotes [OF iv j]
      show "denotes A \<sigma> (Eq_create A idx (ConstantExpr_alloc A j (getWidth A idx))) 1 (of_bool (iv = int j)) \<and>
          R (Eq_create A idx (ConstantExpr_alloc A j (getWidth A idx)))" by simp
    qed (use const_denotes [of 1 0 \<sigma>] in simp_all)
    then have "R (TryConstArrayOpt_by A
        (\<lambda>i. Eq_create A idx (ConstantExpr_alloc A i (getWidth A idx))) cl root us idx)"
      using o by (auto simp: TryConstArrayOpt_by_def Let_def ReadExpr split: option.split)
    with o d show ?thesis unfolding eqn by (auto simp: ReadExpr)
  next
    case (SExtExpr src sw)
    then obtain kw u where u: "denotes A \<sigma> src kw u" using r by (auto simp: denotes_SExt)
    have t: "denotes A \<sigma> (ConstantExpr (ConstantExpr_ZExt A cl (getWidth A src))) kw (take_bit kw c)"
      using ConstantExpr_ZExt_denotes [OF cl denotes_width_ok [OF u]] u by (simp only: denotes_def)
    have "R (Eq_create A src (ConstantExpr (ConstantExpr_ZExt A cl (getWidth A src))))"
      by (rule eqc [OF _ u t]) (use SExtExpr d in auto)
    with o d show ?thesis unfolding eqn by (auto simp: Let_def SExtExpr)
  next
    case (ZExtExpr src sw)
    then obtain kw u where u: "denotes A \<sigma> src kw u" using r by (auto simp: denotes_ZExt)
    have t: "denotes A \<sigma> (ConstantExpr (ConstantExpr_ZExt A cl (getWidth A src))) kw (take_bit kw c)"
      using ConstantExpr_ZExt_denotes [OF cl denotes_width_ok [OF u]] u by (simp only: denotes_def)
    have "R (Eq_create A src (ConstantExpr (ConstantExpr_ZExt A cl (getWidth A src))))"
      by (rule eqc [OF _ u t]) (use ZExtExpr d in auto)
    with o d show ?thesis unfolding eqn by (auto simp: Let_def ZExtExpr)
  next
    case (BinaryExpr k x y)
    with r obtain kw a b where x: "denotes A \<sigma> x kw a" and y: "denotes A \<sigma> y kw b" and w': "w = (if is_cmp k then 1 else kw)"
      unfolding BinaryExpr denotes_Bin by blast
    have zz: "R (Eq_create A x (ConstantExpr_alloc A 0 (getWidth A x)))"
        "R (Eq_create A y (ConstantExpr_alloc A 0 (getWidth A y)))"
      if "\<not> is_division k" using z [OF _ x] z [OF _ y] d BinaryExpr that by auto
    have s: "R (EqExpr_createPartialR A (ConstantExpr_op A Sub cl c1) y)"
        "R (EqExpr_createPartialR A (ConstantExpr_op A Sub c1 cl) y)"
      if "x = ConstantExpr c1" "k = Add \<or> k = Sub" for c1
    proof -
      have "kw = w" using w' that(2) by auto
      with that x have c1: "denotes A \<sigma> (ConstantExpr c1) w a" by simp
      have c: "denotes A \<sigma> (ConstantExpr (ConstantExpr_op A Sub cl c1)) w (bin_sem Sub w c a)"
        "denotes A \<sigma> (ConstantExpr (ConstantExpr_op A Sub c1 cl)) w (bin_sem Sub w a c)"
        using ConstantExpr_op_denotes [OF cl c1, of Sub] ConstantExpr_op_denotes [OF c1 cl, of Sub] by simp_all
      have y: "size y < size r" "denotes A \<sigma> y w b" "R y" using y d \<open>kw = w\<close> that(2) by (auto simp: BinaryExpr)
      show "R (EqExpr_createPartialR A (ConstantExpr_op A Sub cl c1) y)"
        by (rule less.IH [OF y(1) c(1) y(2,3)])
      show "R (EqExpr_createPartialR A (ConstantExpr_op A Sub c1 cl) y)"
        by (rule less.IH [OF y(1) c(2) y(2,3)])
    qed
    show ?thesis using o s zz d unfolding eqn
      by (auto simp: And_create_R BinaryExpr split: option.split)
  qed (unfold eqn, use o d in auto)
qed

lemma Eq_create_R:
  assumes "denotes A \<sigma> l w a" and "denotes A \<sigma> r w b" and "R l" and "R r"
  shows "R (Eq_create A l r)"
  unfolding Eq_create.simps [of A l r]
  using assms EqPartialR_R [of \<sigma> _ w a r b] EqPartialR_R [of \<sigma> _ w b l a]
  by (auto simp: EqExpr_create_R split: option.split)

lemma createIsZero_R:
  assumes "denotes A \<sigma> e w a" and "R e"
  shows "R (createIsZero A e)"
proof -
  have "getWidth A e = w" using assms(1) by (simp add: denotes_def)
  then show ?thesis
    unfolding createIsZero_def using const_denotes [OF denotes_width_ok [OF assms(1)], of 0] assms
    by (intro Eq_create_R) auto
qed

lemma LShr_Ule_R:
  assumes l: "denotes A \<sigma> l w a" and r: "denotes A \<sigma> r w b" and d: "R l" "R r"
  shows "R (Bin_create A LShr l r)" and "R (Bin_create A Ule l r)"
proof -
  have w: "getWidth A l = w" "getWidth A r = w" "wt A r" using l r by (auto simp: denotes_def)
  show "R (Bin_create A LShr l r)"
    using d createIsZero_R [OF r d(2)]
    by (auto simp: bcreate_def LShrExpr_create_def And_create_R split: option.split)
  have "R (Or_create A (createIsZero A l) r)" if "w = 1"
    using createIsZero_denotes [OF l] w that d createIsZero_R [OF l d(1)]
    by (intro Or_create_R) (auto simp: denotes_def)
  then show "R (Bin_create A Ule l r)"
    using d w by (auto simp: bcreate_def UleExpr_create_def split: option.split)
qed

end

text \<open>A class of expressions with such a property for every assignment.\<close>

context apint
begin

lemma expr_class_hereditary:
  assumes R: "\<And>\<sigma> :: 'a array_obj \<Rightarrow> nat \<Rightarrow> int. hereditary A (R \<sigma>)"
  shows "expr_class A (\<lambda>e. \<forall>\<sigma> :: 'a array_obj \<Rightarrow> nat \<Rightarrow> int. R \<sigma> e)"
  unfolding expr_class_def
proof (intro conjI allI impI)
  fix l r \<sigma> assume "good A l" "good A r" "getWidth A l = getWidth A r" and d: "\<forall>\<sigma>. R \<sigma> l" "\<forall>\<sigma>. R \<sigma> r"
  then have g: "denotes A \<sigma> l (getWidth A r) (sem A \<sigma> l)" "denotes A \<sigma> r (getWidth A r) (sem A \<sigma> r)"
    using good_denotes by metis+
  note * = R [of \<sigma>] g d [rule_format]
  show "R \<sigma> (Eq_create A l r)" "R \<sigma> (Bin_create A LShr l r)" "R \<sigma> (Bin_create A Ule l r)"
    by (rule hereditary.Eq_create_R [OF *], rule hereditary.LShr_Ule_R(1) [OF *], rule hereditary.LShr_Ule_R(2) [OF *])
qed (rule hereditary.R_Constant [OF R])

end

text \<open>No divisor is zero, and all arrays are objects of the memory \<open>mem\<close>.\<close>

definition evaluable :: "'a ops \<Rightarrow> (nat \<Rightarrow> 'a array_obj) \<Rightarrow> 'a expr \<Rightarrow> bool" where
  "evaluable A mem e \<longleftrightarrow> (\<forall>\<sigma>. divisors_ok A \<sigma> e \<and> arrays e \<subseteq> known_arrays mem)"

context apint
begin

lemma evaluable_hereditary: "hereditary A (\<lambda>e. divisors_ok A \<sigma> e \<and> arrays e \<subseteq> known_arrays mem)"
  by unfold_locales auto

lemma expr_class_evaluable: "expr_class A (evaluable A mem)"
proof -
  have "evaluable A mem = (\<lambda>e. \<forall>\<sigma>. divisors_ok A \<sigma> e \<and> arrays e \<subseteq> known_arrays mem)" by (simp add: evaluable_def fun_eq_iff)
  then show ?thesis using expr_class_hereditary [OF evaluable_hereditary, of "\<lambda>\<sigma>. \<sigma>" "\<lambda>_. mem"] by (simp only:)
qed

end

interpretation bv_evaluable: hereditary "bv_ops opt" "\<lambda>e. divisors_ok (bv_ops opt) \<sigma> e \<and> arrays e \<subseteq> known_arrays mem"
  by (rule bv.evaluable_hereditary)

section \<open>\<open>findSymbolicObjects\<close>\<close>

lemma sem_cong:
  "\<forall>obj \<in> arrays e. \<forall>i. take_bit 8 (\<sigma> obj i) = take_bit 8 (\<tau> obj i) \<Longrightarrow> sem A \<sigma> e = sem A \<tau> e"
  and sem_read_cong:
  "\<forall>obj \<in> arrays_upd us. \<forall>i. take_bit 8 (\<sigma> obj i) = take_bit 8 (\<tau> obj i) \<Longrightarrow> sem_read A \<sigma> us i v = sem_read A \<tau> us i v"
  by (induction e and us arbitrary: and i v) (auto simp: array_value_def)

definition symbolic_arrays :: "'a expr \<Rightarrow> 'a array_obj set" where
  "symbolic_arrays e = {obj \<in> arrays e. isSymbolicArray obj}"

definition symbolic_arrays_upd :: "'a update_node \<Rightarrow> 'a array_obj set" where
  "symbolic_arrays_upd us = {obj \<in> arrays_upd us. isSymbolicArray obj}"

lemma symbolic_arrays_simps [simp]:
  "symbolic_arrays (ConstantExpr v) = {}"
  "symbolic_arrays (ReadExpr root us i) =
     symbolic_arrays_upd us \<union> (if isSymbolicArray root then {root} else {}) \<union> symbolic_arrays i"
  "symbolic_arrays (SelectExpr c t f) = symbolic_arrays c \<union> symbolic_arrays t \<union> symbolic_arrays f"
  "symbolic_arrays (ConcatExpr l r) = symbolic_arrays l \<union> symbolic_arrays r"
  "symbolic_arrays (ExtractExpr e off w) = symbolic_arrays e"
  "symbolic_arrays (NotExpr e) = symbolic_arrays e"
  "symbolic_arrays (ZExtExpr e w) = symbolic_arrays e"
  "symbolic_arrays (SExtExpr e w) = symbolic_arrays e"
  "symbolic_arrays (BinaryExpr k l r) = symbolic_arrays l \<union> symbolic_arrays r"
  "symbolic_arrays_upd NoUpdate = {}"
  "symbolic_arrays_upd (UpdateNode nxt ui uv) = symbolic_arrays ui \<union> symbolic_arrays uv \<union> symbolic_arrays_upd nxt"
  by (auto simp: symbolic_arrays_def symbolic_arrays_upd_def)

definition finder_ok :: "'a finder \<Rightarrow> bool" where
  "finder_ok s \<longleftrightarrow> set (f_results s) = set (f_objects s) \<and> distinct (f_objects s) \<and>
     (\<forall>e \<in> set (f_visited s). symbolic_arrays e \<subseteq> set (f_objects s))"

text \<open>The finder goes from \<open>s\<close> to \<open>s'\<close> and finds the arrays in \<open>X\<close>.\<close>

definition finds :: "'a array_obj set \<Rightarrow> 'a finder \<Rightarrow> 'a finder \<Rightarrow> bool" where
  "finds X s s' \<longleftrightarrow> (finder_ok s \<longrightarrow> finder_ok s' \<and> set (f_objects s') = set (f_objects s) \<union> X)"

lemma finds_trans: "finds Y s' s'' \<Longrightarrow> finds X s s' \<Longrightarrow> finds (X \<union> Y) s s''"
  by (auto simp: finds_def)

lemma finds_visit_once: "(\<And>s. finds (symbolic_arrays e) s (m s)) \<Longrightarrow> finds (symbolic_arrays e) s (visit_once e m s)"
  by (auto simp: finds_def visit_once_def Let_def finder_ok_def)

lemma finds_root: "finds (if isSymbolicArray root then {root} else {}) s (found_root root s)"
  by (auto simp: finds_def found_root_def finder_ok_def)

lemma finder_visit_finds: "finds (symbolic_arrays e) s (finder_visit e s)"
  and finder_updates_finds: "finds (symbolic_arrays_upd us) s (finder_updates us s)"
proof (induction e and us arbitrary: s and s)
  case (ConstantExpr c)
  show ?case by (simp add: finds_def)
next
  case NoUpdate
  show ?case by (simp add: finds_def)
next
  case (UpdateNode nxt ui uv)
  show ?case
    unfolding finder_updates.simps symbolic_arrays_simps
    by (rule finds_trans [OF UpdateNode.IH(1) finds_trans [OF UpdateNode.IH(3,2)]])
next
  case (ReadExpr root us i)
  show ?case
    unfolding finder_visit.simps
    by (rule finds_visit_once, unfold symbolic_arrays_simps)
      (rule finds_trans [OF ReadExpr.IH(2) finds_trans [OF finds_root ReadExpr.IH(1)]])
next
  case (SelectExpr c t f)
  show ?case
    unfolding finder_visit.simps
    by (rule finds_visit_once, unfold symbolic_arrays_simps)
      (rule finds_trans [OF SelectExpr.IH(3) finds_trans [OF SelectExpr.IH(2,1)]])
next
  case (ConcatExpr l r)
  show ?case
    unfolding finder_visit.simps
    by (rule finds_visit_once, unfold symbolic_arrays_simps) (rule finds_trans [OF ConcatExpr.IH(2,1)])
next
  case (BinaryExpr k l r)
  show ?case
    unfolding finder_visit.simps
    by (rule finds_visit_once, unfold symbolic_arrays_simps) (rule finds_trans [OF BinaryExpr.IH(2,1)])
qed (unfold finder_visit.simps, (rule finds_visit_once, simp)+)

lemma fold_finder_finds: "finds (\<Union>e \<in> set es. symbolic_arrays e) s (fold finder_visit es s)"
proof (induction es arbitrary: s)
  case (Cons e es)
  show ?case using finds_trans [OF Cons.IH finder_visit_finds [of e s]] by simp
qed (simp add: finds_def)

lemma findSymbolicObjects_correct:
  "distinct (findSymbolicObjects es []) \<and> set (findSymbolicObjects es []) = (\<Union>e \<in> set es. symbolic_arrays e)"
  using fold_finder_finds [of es "\<lparr>f_visited = [], f_results = [], f_objects = []\<rparr>"]
  by (auto simp: findSymbolicObjects_def finds_def finder_ok_def)

section \<open>Assignments made from values\<close>

lemma map_of_bindings_insert: "map_of bs obj = None \<Longrightarrow> map_of (bindings_insert obj v bs) = (map_of bs)(obj \<mapsto> v)"
  by (induction obj v bs rule: bindings_insert.induct) (auto simp: fun_eq_iff split: if_splits)

lemma set_bindings_insert: "set (bindings_insert obj v bs) \<subseteq> insert (obj, v) (set bs)"
  by (induction obj v bs rule: bindings_insert.induct) auto

lemma bind_objects_map:
  assumes "distinct objects" and "\<forall>obj \<in> set objects. map_of bs obj = None"
  shows "\<exists>bs'. bind_objects objects (map f objects) bs = Some bs' \<and>
     map_of bs' = (\<lambda>obj. if obj \<in> set objects then Some (f obj) else map_of bs obj) \<and>
     set bs' \<subseteq> set bs \<union> {(obj, f obj) | obj. obj \<in> set objects}"
  using assms
proof (induction objects arbitrary: bs)
  case (Cons obj objects)
  have i: "map_of (bindings_insert obj (f obj) bs) = (map_of bs)(obj \<mapsto> f obj)"
    using Cons.prems by (intro map_of_bindings_insert) simp
  have "\<forall>o2 \<in> set objects. map_of (bindings_insert obj (f obj) bs) o2 = None" using Cons.prems unfolding i by auto
  then obtain bs' where "bind_objects objects (map f objects) (bindings_insert obj (f obj) bs) = Some bs'"
    and m: "map_of bs' = (\<lambda>o2. if o2 \<in> set objects then Some (f o2) else ((map_of bs)(obj \<mapsto> f obj)) o2)"
    and s: "set bs' \<subseteq> set (bindings_insert obj (f obj) bs) \<union> {(o2, f o2) | o2. o2 \<in> set objects}"
    using Cons.IH [of "bindings_insert obj (f obj) bs"] Cons.prems(1) unfolding i distinct.simps by blast
  moreover have "map_of bs' = (\<lambda>o2. if o2 \<in> set (obj # objects) then Some (f o2) else map_of bs o2)"
    unfolding m by (auto simp: fun_eq_iff)
  moreover have "set bs' \<subseteq> set bs \<union> {(o2, f o2) | o2. o2 \<in> set (obj # objects)}"
    using s set_bindings_insert [of obj "f obj" bs] by auto
  ultimately show ?case by auto
qed auto

lemma Assignment_objects_bytes:
  assumes "\<forall>obj \<in> set objects. isSymbolicArray obj" and "distinct objects"
  shows "\<exists>a. Assignment_objects objects (map (object_bytes \<sigma>) objects) False = Some a \<and> eval_ok A (bindings a) a \<and>
    (\<forall>obj \<in> set objects. \<forall>i < array_size obj. bound_values (bindings a) obj i = take_bit 8 (\<sigma> obj i))"
proof -
  obtain bs where bs: "bind_objects objects (map (object_bytes \<sigma>) objects) [] = Some bs"
      "map_of bs = (\<lambda>obj. if obj \<in> set objects then Some (object_bytes \<sigma> obj) else None)"
      "set bs \<subseteq> {(obj, object_bytes \<sigma> obj) | obj. obj \<in> set objects}"
    using bind_objects_map [of objects "[]" "object_bytes \<sigma>"] assms(2) by (auto simp: fun_eq_iff)
  then have "bindings_ok bs" using assms by (auto simp: bindings_ok_def object_bytes_def)
  moreover have "bound_values bs obj i = take_bit 8 (\<sigma> obj i)" if "obj \<in> set objects" "i < array_size obj" for obj i
    using that by (simp add: bound_values_def bs(2) object_bytes_def take_bit_int_def uint_word_of_int)
  ultimately show ?thesis using bs(1) by (simp add: Assignment_objects_def eval_ok_def Assignment_def)
qed

text \<open>Only the bytes of the symbolic arrays of an expression matter.\<close>

lemma sem_bound_values:
  assumes "proper \<sigma>" and "bindings_ok bs" and "symbolic_arrays e \<subseteq> X"
    and "\<forall>obj \<in> X. \<forall>i < array_size obj. bound_values bs obj i = take_bit 8 (\<sigma> obj i)"
  shows "sem A (bound_values bs) e = sem A \<sigma> e"
proof (rule sem_cong, intro ballI allI)
  fix obj i assume "obj \<in> arrays e"
  show "take_bit 8 (bound_values bs obj i) = take_bit 8 (\<sigma> obj i)"
  proof (cases "isSymbolicArray obj \<and> i < array_size obj")
    case True
    then have "obj \<in> X" using \<open>obj \<in> arrays e\<close> assms(3) by (auto simp: symbolic_arrays_def)
    with assms(4) True show ?thesis by simp
  next
    case False
    with assms(1) bound_values_proper [OF assms(2)] show ?thesis by (auto simp: proper_def isConstantArray_def)
  qed
qed

lemma object_bytes_bound_values:
  assumes "bindings_ok bs"
  shows "object_bytes (bound_values bs) obj =
    (case map_of bs obj of Some v \<Rightarrow> v | None \<Rightarrow> replicate (array_size obj) 0)"
proof (cases "map_of bs obj")
  case None
  then show ?thesis by (auto simp: object_bytes_def bound_values_def intro!: nth_equalityI)
next
  case (Some v)
  then have "length v = array_size obj" using assms by (auto simp: bindings_ok_def dest!: map_of_SomeD)
  with Some show ?thesis by (auto simp: object_bytes_def bound_values_def intro!: nth_equalityI)
qed

context apint
begin

lemma satisfies_val:
  assumes "\<forall>e \<in> set es. wt A e \<and> getWidth A e = 1 \<and> divisors_ok A (bound_values bs) e" and "eval_ok A bs a"
  shows "\<exists>a'. satisfies A es a = (holds A es (bound_values bs), a') \<and> eval_ok A bs a'"
  using assms
proof (induction es arbitrary: a)
  case (Cons e es)
  have "visits A bs e (visit A e)" using Cons.prems by (intro visit_val) auto
  from this Cons.prems(2) obtain r a' where 1: "visit A e a = (r, a')" "val_of A (bound_values bs) e r" "eval_ok A bs a'"
    by (rule visitsE)
  from 1(2) obtain c where c: "r = ConstantExpr c" "denotes A (bound_values bs) (ConstantExpr c) 1 (sem A (bound_values bs) e)"
    using Cons.prems(1) by (auto elim!: val_ofE)
  then have "const_isTrue A c \<longleftrightarrow> sem A (bound_values bs) e \<noteq> 0" using const_isTrue_denotes by simp
  with Cons.IH [OF _ 1(3)] Cons.prems(1) 1 c(1) show ?case by auto
qed simp

end

section \<open>Properties\<close>

text \<open>
  C36.  \<open>Assignment::evaluate\<close> and \<open>Assignment::satisfies\<close>: in an assignment without free values whose cache holds
  values of expressions, an expression in which no divisor is zero evaluates to the constant that is its value under
  the bound bytes, read through the updates, and \<open>satisfies\<close> tells whether all the conditions hold.  Both keep the
  cache right, so the answers do not depend on what was evaluated before.
\<close>

theorem Assignment_evaluate_correct:
  assumes "apint A" and "eval_ok A bs a" and "wt A e" and "divisors_ok A (bound_values bs) e"
    and "\<forall>x \<in> set es. wt A x \<and> getWidth A x = 1 \<and> divisors_ok A (bound_values bs) x"
  shows "(\<exists>c a'. visit A e a = (ConstantExpr c, a') \<and> getBitWidth A c = getWidth A e \<and>
      ap_uint A c = sem A (bound_values bs) e \<and> eval_ok A bs a') \<and>
    (\<exists>a'. satisfies A es a = (holds A es (bound_values bs), a') \<and> eval_ok A bs a')"
proof -
  have "visits A bs e (visit A e)" using assms by (intro apint.visit_val)
  from this assms(2) obtain r a' where "visit A e a = (r, a')" "val_of A (bound_values bs) e r" "eval_ok A bs a'"
    by (rule visitsE)
  then show ?thesis
    using apint.satisfies_val [OF assms(1,5,2)] by (auto simp: val_of_def denotes_def)
qed

text \<open>The quotient of the first byte of the input and a byte written over the second one.\<close>

definition quotient_expr :: "bool list expr" where
  "quotient_expr = BinaryExpr UDiv (input_byte 0)
     (ReadExpr input_array (UpdateNode NoUpdate (ConstantExpr (bv 32 1)) (ConstantExpr (bv 8 5))) (ConstantExpr (bv 32 1)))"

theorem Assignment_evaluate_correct_witness:
  "\<exists>c a'. visit (bv_ops False) quotient_expr
     \<lparr>allowFreeValues = False, bindings = [(input_array, [17, 0])], expressionCache = []\<rparr> = (ConstantExpr c, a') \<and>
     bv_uint c = 3"
proof -
  let ?bs = "[(input_array, [17, 0 :: 8 word])]"
  let ?a = "\<lparr>allowFreeValues = False, bindings = ?bs, expressionCache = []\<rparr>"
  have a: "eval_ok (bv_ops False) ?bs ?a" by (simp add: eval_ok_def bindings_ok_def input_array_def isSymbolicArray_def)
  have "wt (bv_ops False) quotient_expr" "divisors_ok (bv_ops False) (bound_values ?bs) quotient_expr"
    "sem (bv_ops False) (bound_values ?bs) quotient_expr = 3"
    by (simp_all add: quotient_expr_def input_simps bound_values_def)
  with Assignment_evaluate_correct [OF bv.apint_axioms a, of quotient_expr "[]"] show ?thesis by auto
qed

end
