(* ===== verification/Spec2Isabelle.thy ===== *)
theory Spec2Isabelle
  imports Expr_Read Expr_Compare Bits Bitfield_Sound ObjectState_Sound ImmutableTree Assignment_Sound
begin

text \<open>
  Verification of the symbolic execution core of S2E (the constraint library under \<open>klee/\<close>).

  S2E runs a guest machine symbolically.  Values that depend on symbolic input are expression
  trees (\<open>klee/include/klee/Expr.h\<close>), built by simplifying constructors
  (\<open>klee/lib/Expr/Expr.cpp\<close>).

  \<^item> \<open>Prelude\<close>: values of a given width as integers, bit field arithmetic.
  \<^item> \<open>Bits\<close>: the word tricks of \<open>klee/include/klee/util/Bits.h\<close>.
  \<^item> \<open>Expr\<close>: the data of expressions, and the interface of LLVM's \<open>APInt\<close> as the parameter \<open>A\<close> with
    its contract, the locale \<open>apint\<close>.
  \<^item> \<open>Expr_Sem\<close>: widths, typing, value; the operations on constants.
  \<^item> \<open>Expr_Cast\<close>, \<open>Expr_Logic\<close>, \<open>Expr_Eq\<close>, \<open>Expr_Arith\<close>, \<open>Expr_Read\<close>: the constructors.
\<close>

section \<open>Concrete inputs\<close>

definition example_array :: "bool list array_obj" where
  "example_array = \<lparr>array_addr = 1, array_name = ''v0'', array_size = 4, constantValues = []\<rparr>"

definition example_read :: "bool list expr" where
  "example_read = ReadExpr example_array NoUpdate (ConstantExpr (bv 32 0))"

lemma bv_apint: "apint (bv_ops opt)"
  by (rule bv.apint_axioms)

lemmas example_simps = example_read_def example_array_def width_ok_def wt_array_def
  isConstantArray_def isSymbolicArray_def bin_pre_def bin_safe_def array_value_def

lemma upt_4: "[0..<4] = [0, 1, 2, 3::nat]"
  by code_simp

lemma example_read_denotes:
  "denotes (bv_ops False) \<sigma> example_read 8 (take_bit 8 (\<sigma> example_array 0))"
  by (simp add: denotes_def example_simps)

section \<open>Expressions\<close>

text \<open>
  C1.  The simplifying constructor of every binary kind, applied to typed operands, returns a typed
  expression of the width and the value of the plain node, under every assignment of the symbolic
  arrays.
\<close>

theorem Bin_create_correct:
  assumes "apint A" and "wt A l" and "wt A r" and "getWidth A l = getWidth A r"
    and "safe A \<sigma> l" and "safe A \<sigma> r" and "bin_pre A k (getWidth A l) r (sem A \<sigma> r)"
  shows "wt A (Bin_create A k l r) \<and>
    getWidth A (Bin_create A k l r) = getWidth A (BinaryExpr k l r) \<and>
    sem A \<sigma> (Bin_create A k l r) = sem A \<sigma> (BinaryExpr k l r)"
proof -
  have "denotes A \<sigma> (Bin_create A k l r) (if is_cmp k then Suc 0 else getWidth A l)
      (bin_sem k (getWidth A l) (sem A \<sigma> l) (sem A \<sigma> r))"
    by (rule apint.Bin_create_denotes [OF assms(1)]) (use assms in \<open>auto simp: denotes_def\<close>)
  then show ?thesis by (auto simp: denotes_def)
qed

theorem Bin_create_correct_witness:
  "sem (bv_ops False) (\<lambda>_ _. 7)
     (Bin_create (bv_ops False) Add example_read (ConstantExpr (bv 8 250))) = 1"
proof -
  have "sem (bv_ops False) (\<lambda>_ _. 7)
      (Bin_create (bv_ops False) Add example_read (ConstantExpr (bv 8 250)))
    = sem (bv_ops False) (\<lambda>_ _. 7) (BinaryExpr Add example_read (ConstantExpr (bv 8 250)))"
    using Bin_create_correct [OF bv_apint, of False example_read "ConstantExpr (bv 8 250)" "\<lambda>_ _. 7" Add]
    by (simp add: example_simps)
  also have "\<dots> = 1" by (simp add: example_simps)
  finally show ?thesis .
qed

text \<open>
  C2.  \<open>ExtractExpr::create\<close> of a bit range that lies inside the operand terminates with a typed
  expression of the requested width, whose value is that bit range of the operand's value.
\<close>

theorem Extract_create_correct:
  assumes "apint A" and "denotes A \<sigma> e kw a" and "0 < w" and "off + w \<le> kw"
  shows "denotes A \<sigma> (Extract_create A e off w) w (take_bit w (drop_bit off a))"
  by (rule apint.Extract_create_denotes [OF assms])

theorem Extract_create_correct_witness:
  "denotes (bv_ops False) (\<lambda>_ _. 0x5A) (Extract_create (bv_ops False) example_read 4 3) 3 5"
  using Extract_create_correct [OF bv_apint example_read_denotes, of 3 4 "\<lambda>_ _. 0x5A"] by simp

text \<open>
  C3.  \<open>ConcatExpr::create\<close> puts its left operand above its right one, whatever rewriting of
  adjacent extracts and constants it does.
\<close>

theorem Concat_create_correct:
  assumes "apint A" and "denotes A \<sigma> l w1 a" and "denotes A \<sigma> r w2 b" and "width_ok (w1 + w2)"
  shows "denotes A \<sigma> (Concat_create A l r) (w1 + w2) (a * 2 ^ w2 + b)"
  using apint.Concat_create_denotes [OF assms] apint.denotes_fits [OF assms(1,3)]
  by (simp add: cat_bits_eq_add)

theorem Concat_create_correct_witness:
  "denotes (bv_ops False) (\<lambda>_ _. 7) (Concat_create (bv_ops False) example_read example_read) 16 0x0707"
  using Concat_create_correct [OF bv_apint example_read_denotes example_read_denotes, of "\<lambda>_ _. 7"]
  by (simp add: width_ok_def)

text \<open>
  C4.  The casts: \<open>ZExtExpr::create\<close> and \<open>SExtExpr::create\<close> to any width, wider or narrower, give
  the value of the operand, unsigned or as a two's complement number, modulo the new width.
\<close>

theorem Cast_create_correct:
  assumes "apint A" and "denotes A \<sigma> e kw a" and "width_ok w"
  shows "denotes A \<sigma> (ZExt_create A e w) w (take_bit w a) \<and>
    denotes A \<sigma> (SExt_create A e w) w (take_bit w (signed_take_bit (kw - 1) a))"
  using apint.ZExt_create_denotes [OF assms] apint.SExt_create_denotes [OF assms] by simp

theorem Cast_create_correct_witness:
  "denotes (bv_ops False) (\<lambda>_ _. 0x80) (SExt_create (bv_ops False) example_read 16) 16 0xFF80"
  using Cast_create_correct [OF bv_apint example_read_denotes, of 16 "\<lambda>_ _. 0x80"]
  by (simp add: width_ok_def signed_take_bit_eq_if_positive signed_take_bit_eq_if_negative)

text \<open>
  C5.  \<open>SelectExpr::create\<close> chooses between the values of its branches by the value of its condition.
\<close>

theorem Select_create_correct:
  assumes "apint A" and "denotes A \<sigma> c 1 b" and "denotes A \<sigma> t w x" and "denotes A \<sigma> f w y"
  shows "denotes A \<sigma> (Select_create A c t f) w (if b = 1 then x else y)"
  using apint.Select_create_denotes [of A \<sigma> c b t w x f y] apint.denotes_bool_cases [of A \<sigma> c b] assms
  by auto

theorem Select_create_correct_witness:
  "denotes (bv_ops False) (\<lambda>_ _. 7)
     (Select_create (bv_ops False) (Extract_create (bv_ops False) example_read 0 1)
        example_read (ConstantExpr (bv 8 9))) 8 7"
proof -
  have "denotes (bv_ops False) (\<lambda>_ _. 7) (Extract_create (bv_ops False) example_read 0 1) 1 1"
    using apint.Extract_create_denotes [OF bv_apint example_read_denotes, of 1 0 "\<lambda>_ _. 7"] by simp
  then show ?thesis
    using Select_create_correct [OF bv_apint _ example_read_denotes, of "\<lambda>_ _. 7" _ 1 "ConstantExpr (bv 8 9)" 9]
    by (simp add: denotes_def width_ok_def)
qed

text \<open>
  C6.  \<open>ReadExpr::create\<close> returns the byte an update list holds at the index: the newest write to
  that index, and the initial contents of the array if there is none.  With constant array
  optimisation, an index into an unmodified constant array has to be in bounds.
\<close>

theorem Read_create_correct:
  assumes "apint A" and "wt_array A root" and "wt_upd A us" and "safe_upd A \<sigma> us"
    and "denotes A \<sigma> i 32 iv"
    and "ConstArrayOpt A \<Longrightarrow> isConstantArray root \<Longrightarrow> us = NoUpdate \<Longrightarrow>
      \<not> hasConstantCases i \<and> iv < int (array_size root)"
  shows "denotes A \<sigma> (Read_create A root us i) 8 (sem_read A \<sigma> us iv (array_value A \<sigma> root iv))"
  by (rule apint.Read_create_denotes [OF assms])

theorem Read_create_correct_witness:
  "denotes (bv_ops False) (\<lambda>_ _. 7)
     (Read_create (bv_ops False) example_array
        (UpdateNode NoUpdate (ConstantExpr (bv 32 2)) example_read) (ConstantExpr (bv 32 2))) 8 7"
  using Read_create_correct [OF bv_apint, of False example_array
    "UpdateNode NoUpdate (ConstantExpr (bv 32 2)) example_read" "\<lambda>_ _. 7" "ConstantExpr (bv 32 2)" 2]
  by (simp add: denotes_def example_simps)

text \<open>
  C7.  \<open>ReadExpr::createTempRead\<close> succeeds for every machine width and reads the array at offset 0
  in little endian order.
\<close>

theorem createTempRead_correct:
  assumes "apint A" and "wt_array A root" and "w = n * 8" and "w \<in> {8, 16, 32, 64, 128}"
    and "ConstArrayOpt A \<Longrightarrow> isConstantArray root \<Longrightarrow> n \<le> array_size root"
  shows "\<exists>e. createTempRead A root w = Some e \<and>
    denotes A \<sigma> e w (cat_list 8 (map (\<lambda>i. array_value A \<sigma> root (int i)) (rev [0..<n])))"
  by (rule apint.createTempRead_denotes [OF assms])

theorem createTempRead_correct_witness:
  "\<exists>e. createTempRead (bv_ops False) example_array 32 = Some e \<and>
    denotes (bv_ops False) (\<lambda>_ i. int i) e 32 0x03020100"
proof -
  have "cat_list 8 (map (\<lambda>i. array_value (bv_ops False) (\<lambda>_ i. int i) example_array (int i)) (rev [0..<4]))
      = 0x03020100"
    by (simp add: array_value_def example_array_def upt_4 cat_bits_def)
  moreover have "wt_array (bv_ops False) example_array" "\<not> ConstArrayOpt (bv_ops False)"
    by (simp_all add: example_simps)
  ultimately show ?thesis
    using createTempRead_correct [OF bv_apint, of False example_array 32 4 "\<lambda>_ i. int i"] by simp
qed

text \<open>
  C8.  The table of preallocated constants holds an entry for every constant its lookup asks for,
  and the entry is that constant: the assert of \<open>Table::lookup\<close> never fails.
\<close>

theorem Table_lookup_total: "apint A \<Longrightarrow> Table_lookup A v = Some v"
  by (rule apint.Table_lookup_correct)

theorem Table_lookup_total_witness:
  "Table_lookup (bv_ops False) (bv 64 4095) = Some (bv 64 4095) \<and>
   const_table (bv_ops False) 64 4095 = Some (bv 64 4095)"
  using Table_lookup_total [OF bv_apint, of False "bv 64 4095"]
  by (simp add: const_table_def Table_max_def)

text \<open>
  C9.  \<open>Expr::compare\<close> defines a total order over all expressions (its result for the swapped
  arguments is the negated one, and being smaller is transitive), and on arrays that are distinct
  objects it returns 0 exactly for structurally equal expressions.
\<close>

theorem compare_total_order:
  assumes "apint A" and "inj_on array_addr (arrays a \<union> arrays b)"
  shows "(compare A a b = 0 \<longleftrightarrow> a = b) \<and> compare A b a = - compare A a b \<and>
    (\<forall>c. compare A a b < 0 \<longrightarrow> compare A b c < 0 \<longrightarrow> compare A a c < 0)"
  using apint.compare_eq_iff [OF assms] apint.compare_antisym [OF assms(1), of b a]
    apint.compare_trans [OF assms(1), of a b] by blast

theorem compare_total_order_witness:
  "compare (bv_ops False) example_read (NotExpr example_read) =
     - compare (bv_ops False) (NotExpr example_read) example_read \<and>
   compare (bv_ops False) example_read (NotExpr example_read) \<noteq> 0"
  using compare_total_order [OF bv_apint, of "NotExpr example_read" example_read False]
  by (simp add: example_read_def)

end
